(* ===== verification/Prelude.thy ===== *)
theory Prelude
  imports Main "HOL-Library.Word"
begin

text \<open>
  What the components of the development share: the ways a C execution leaves its
  defined path, the result type that carries them, the machine integer types, and the
  generic lemmas on results, lists, function updates and words that the component
  proofs use.
\<close>

section \<open>Results of C code\<close>

text \<open>
  A C function either returns or stops. It stops by calling
  \<^verbatim>\<open>exit(EXIT_FAILURE)\<close> (\<^verbatim>\<open>handle_error\<close>, \<^verbatim>\<open>rte_exit\<close>), or because
  it does something C gives no meaning to: dereferencing a null pointer, indexing outside
  an array, reading a variable that was never written, touching freed memory, freeing
  twice, using the value of a function that ended without \<^verbatim>\<open>return\<close>, or dividing by zero.
\<close>

datatype stop =
    Exit_failure
  | Null_deref
  | Out_of_bounds
  | Uninit_read
  | Use_after_free
  | Double_free
  | No_return_value
  | Div_by_zero

type_synonym 'a res = "stop + 'a"

definition res_bind :: "'a res \<Rightarrow> ('a \<Rightarrow> 'b res) \<Rightarrow> 'b res" where
  "res_bind r f = (case r of Inl e \<Rightarrow> Inl e | Inr x \<Rightarrow> f x)"

definition ok :: "'a res \<Rightarrow> bool" where
  "ok r = (case r of Inl _ \<Rightarrow> False | Inr _ \<Rightarrow> True)"

text \<open>A pointer is \<open>None\<close> for \<^verbatim>\<open>NULL\<close>; dereferencing it is a result.\<close>

definition deref :: "'a option \<Rightarrow> 'a res" where
  "deref p = (case p of None \<Rightarrow> Inl Null_deref | Some x \<Rightarrow> Inr x)"

lemma res_bind_simps [simp]:
  "res_bind (Inl e) f = Inl e"
  "res_bind (Inr x) f = f x"
  by (simp_all add: res_bind_def)

lemma res_bind_Inr [simp]: "res_bind r Inr = r"
  by (cases r) auto

lemma res_bind_Inr_iff [simp]: "res_bind r f = Inr y \<longleftrightarrow> (\<exists>x. r = Inr x \<and> f x = Inr y)"
  by (cases r) auto

lemma res_bind_Inl_iff: "res_bind r f = Inl e \<longleftrightarrow> r = Inl e \<or> (\<exists>x. r = Inr x \<and> f x = Inl e)"
  by (cases r) auto

lemma ok_simps [simp]: "ok (Inr x)" "\<not> ok (Inl e)"
  by (simp_all add: ok_def)

lemma ok_iff: "ok r \<longleftrightarrow> (\<exists>x. r = Inr x)"
  by (cases r) auto

lemma ok_bind [simp]: "ok (res_bind r f) \<longleftrightarrow> (\<exists>x. r = Inr x \<and> ok (f x))"
  by (cases r) auto

lemma deref_simps [simp]: "deref None = Inl Null_deref" "deref (Some x) = Inr x"
  by (simp_all add: deref_def)

lemma deref_Inr_iff [simp]: "deref p = Inr x \<longleftrightarrow> p = Some x"
  by (cases p) auto

section \<open>Machine integers\<close>

type_synonym u8 = "8 word"
type_synonym u16 = "16 word"
type_synonym u32 = "32 word"
type_synonym u64 = "64 word"


lemma u32_bound: "unat (w :: u32) < 2 ^ 32"
  by (rule order.strict_trans2 [OF unsigned_less]) simp

lemma u32_sint:
  fixes w :: u32
  shows "sint w = (if unat w < 2 ^ 31 then int (unat w) else int (unat w) - 2 ^ 32)"
proof -
  have b: "0 \<le> uint w" "uint w < 2 ^ 32" using uint_lt2p [of w] by auto
  have "sint w = (uint w + 2 ^ 31) mod 2 ^ 32 - 2 ^ 31"
    using int_word_sint [of "uint w", where 'a = 32] by simp
  moreover have "(uint w + 2 ^ 31) mod 2 ^ 32 = (if uint w < 2 ^ 31 then uint w + 2 ^ 31 else uint w - 2 ^ 31)"
  proof (cases "uint w < 2 ^ 31")
    case False
    have "(uint w + 2 ^ 31) mod 2 ^ 32 = (uint w - 2 ^ 31 + 2 ^ 32) mod 2 ^ 32"
      by (simp add: add.commute)
    also have "\<dots> = uint w - 2 ^ 31"
      unfolding mod_add_self2 using b False by (intro mod_pos_pos_trivial) auto
    finally show ?thesis using False by simp
  qed (use b in simp)
  moreover have "n < 2 ^ 31 \<longleftrightarrow> int n < 2 ^ 31" for n by auto
  ultimately show ?thesis by (simp only: of_nat_unat) simp
qed

lemma u32_sless_0: "(w :: u32) <s 0 \<longleftrightarrow> 2 ^ 31 \<le> unat w"
  using uint_lt2p [of w] by (auto simp: word_sless_alt u32_sint)

lemma u32_plus: "unat (v + w :: u32) =
    (if unat v + unat w < 2 ^ 32 then unat v + unat w else unat v + unat w - 2 ^ 32)"
  by (simp add: unat_plus_if')

lemma u32_minus: "unat (v - w :: u32) =
    (if unat w \<le> unat v then unat v - unat w else unat v + 2 ^ 32 - unat w)"
  by (simp add: unat_sub_if')

lemma u32_Suc: "unat (w :: u32) < unat (n :: u32) \<Longrightarrow> unat (w + 1) = Suc (unat w)"
  using u32_bound [of n] by (simp add: unat_plus_if')

lemma u32_eq_iff: "(v :: u32) = w \<longleftrightarrow> unat v = unat w"
  by (auto intro: unsigned_word_eqI)

lemma u8_bound: "unat (w :: u8) < 256"
  by (rule order.strict_trans2 [OF unsigned_less]) simp

lemma u8_of_nat: "n < 256 \<Longrightarrow> unat (of_nat n :: u8) = n"
  by (simp add: unsigned_of_nat take_bit_nat_eq_self)

lemma u8_of_nat_0: "n < 256 \<Longrightarrow> of_nat n = (0 :: u8) \<longleftrightarrow> n = 0"
  using u8_of_nat [of n] by auto

lemma u64_of_nat: "n < 2 ^ 64 \<Longrightarrow> unat (of_nat n :: u64) = n"
  by (simp add: unsigned_of_nat take_bit_nat_eq_self)

section \<open>Counting in a list\<close>

lemma length_filter_update:
  "i < length xs \<Longrightarrow>
   length (filter P (xs[i := y])) + (if P (xs ! i) then 1 else 0) =
   length (filter P xs) + (if P y then 1 else 0)"
proof (induction xs arbitrary: i)
  case (Cons x xs)
  then show ?case by (cases i) auto
qed simp

lemma length_filter_pos: "i < length xs \<Longrightarrow> P (xs ! i) \<Longrightarrow> 0 < length (filter P xs)"
  by (auto simp: filter_empty_conv)

end
