(* ===== verification/Ud_File.thy ===== *)
theory Ud_File
  imports Prelude
begin

text \<open>
  The descriptor table of the socket library, \<^verbatim>\<open>src/lib/libudsock/ud_file.c\<close>: a
  table of socket pointers in a shared memory segment, indexed by descriptor. Slot 0 is
  never handed out. The C array has \<^verbatim>\<open>UD_SOCKET_DESC_MAX\<close> slots and no function
  checks an index, so every access here goes through a bounds check whose failure is
  \<^const>\<open>Out_of_bounds\<close>.
\<close>

named_theorems fd_simps

section \<open>The table\<close>

definition UD_SOCKET_DESC_MAX :: nat where
  "UD_SOCKET_DESC_MAX = 65516"

record 's ud_fds_table =
  tbl_num :: int
  tbl_fds :: "nat \<Rightarrow> 's option"

text \<open>The global pointer \<^verbatim>\<open>fds_table\<close>: \<open>None\<close> outside the constructor and destructor.\<close>

type_synonym 's fds_ptr = "'s ud_fds_table option"

definition zero_table :: "'s ud_fds_table" where
  "zero_table = \<lparr>tbl_num = 0, tbl_fds = (\<lambda>_. None)\<rparr>"

text \<open>
  What the constructor asks of the host: the two \<^verbatim>\<open>shm_open\<close> calls (\<open>-1\<close> on
  failure), \<^verbatim>\<open>ftruncate\<close> and \<^verbatim>\<open>mmap\<close> on a descriptor, \<open>None\<close> being
  \<^verbatim>\<open>MAP_FAILED\<close> and \<open>Some\<close> the bytes found in the segment.
\<close>

record 's shm_host =
  shm_open_excl :: int
  shm_open_rw :: int
  shm_ftruncate :: "int \<Rightarrow> int"
  shm_mmap :: "int \<Rightarrow> 's ud_fds_table option"
  shm_munmap :: int

definition ud_fd_create_shm :: "'s shm_host \<Rightarrow> 's fds_ptr res" where
  "ud_fd_create_shm h =
     (let fd = (if shm_open_excl h = -1 then shm_open_rw h else shm_open_excl h)
      in if shm_ftruncate h fd = -1 then Inl Exit_failure
         else case shm_mmap h fd of
                None \<Rightarrow> Inl Exit_failure
              | Some ptr \<Rightarrow> Inr (Some zero_table))"

definition ud_fd_destroy_shm :: "'s shm_host \<Rightarrow> 's fds_ptr res" where
  "ud_fd_destroy_shm h = (if shm_munmap h = -1 then Inl Exit_failure else Inr None)"

section \<open>Operations\<close>

text \<open>The loop of \<^verbatim>\<open>ud_fd_get_free\<close> from index \<open>i\<close>.\<close>

function fd_scan :: "(nat \<Rightarrow> 's option) \<Rightarrow> nat \<Rightarrow> nat" where
  "fd_scan f i =
     (if i < UD_SOCKET_DESC_MAX then (if f i = None then i else fd_scan f (Suc i)) else i)"
  by pat_completeness auto
termination
  by (relation "measure (\<lambda>(f, i). UD_SOCKET_DESC_MAX - i)") auto

declare fd_scan.simps [simp del]

definition ud_fd_get_free :: "'s fds_ptr \<Rightarrow> int res" where
  "ud_fd_get_free tp = res_bind (deref tp) (\<lambda>t. Inr (int (fd_scan (tbl_fds t) (Suc 0))))"

definition fd_in_range :: "int \<Rightarrow> bool" where
  "fd_in_range fd \<longleftrightarrow> 0 \<le> fd \<and> fd < int UD_SOCKET_DESC_MAX"

definition ud_fd_get_sock :: "'s fds_ptr \<Rightarrow> int \<Rightarrow> 's option res" where
  "ud_fd_get_sock tp fd =
     res_bind (deref tp) (\<lambda>t.
       if fd_in_range fd then Inr (tbl_fds t (nat fd)) else Inl Out_of_bounds)"

definition fd_store :: "'s fds_ptr \<Rightarrow> int \<Rightarrow> 's option \<Rightarrow> 's fds_ptr res" where
  "fd_store tp fd v =
     res_bind (deref tp) (\<lambda>t.
       if fd_in_range fd then Inr (Some (t\<lparr>tbl_fds := (tbl_fds t)(nat fd := v)\<rparr>))
       else Inl Out_of_bounds)"

definition ud_fd_set_sock :: "'s fds_ptr \<Rightarrow> 's option \<Rightarrow> (int \<times> 's fds_ptr) res" where
  "ud_fd_set_sock tp sock =
     res_bind (ud_fd_get_free tp) (\<lambda>fd.
       if fd \<noteq> -1 then res_bind (fd_store tp fd sock) (\<lambda>tp'. Inr (fd, tp'))
       else Inr (fd, tp))"

definition ud_fd_free :: "'s fds_ptr \<Rightarrow> int \<Rightarrow> 's fds_ptr res" where
  "ud_fd_free tp fd = fd_store tp fd None"

section \<open>The scan finds the least free descriptor\<close>

definition fd_full :: "(nat \<Rightarrow> 's option) \<Rightarrow> bool" where
  "fd_full f \<longleftrightarrow> (\<forall>i. 1 \<le> i \<and> i < UD_SOCKET_DESC_MAX \<longrightarrow> f i \<noteq> None)"

lemma fd_scan_bounds:
  "i \<le> UD_SOCKET_DESC_MAX \<Longrightarrow> i \<le> fd_scan f i \<and> fd_scan f i \<le> UD_SOCKET_DESC_MAX"
proof (induction f i rule: fd_scan.induct)
  case (1 f i)
  then show ?case
    by (cases "i < UD_SOCKET_DESC_MAX \<and> f i \<noteq> None")
      (force simp: fd_scan.simps [of f i])+
qed

lemma fd_scan_skips: "i \<le> j \<Longrightarrow> j < fd_scan f i \<Longrightarrow> f j \<noteq> None"
proof (induction f i rule: fd_scan.induct)
  case (1 f i)
  show ?case
  proof (cases "i < UD_SOCKET_DESC_MAX \<and> f i \<noteq> None")
    case True
    with 1 show ?thesis
      by (cases "i = j") (auto simp: fd_scan.simps [of f i])
  next
    case False
    with 1 show ?thesis by (auto simp: fd_scan.simps [of f i] split: if_splits)
  qed
qed

lemma fd_scan_free: "fd_scan f i < UD_SOCKET_DESC_MAX \<Longrightarrow> f (fd_scan f i) = None"
proof (induction f i rule: fd_scan.induct)
  case (1 f i)
  then show ?case
    by (cases "i < UD_SOCKET_DESC_MAX \<and> f i \<noteq> None")
      (auto simp: fd_scan.simps [of f i] split: if_splits)
qed

lemma fd_max_gt_1 [simp]: "1 < UD_SOCKET_DESC_MAX" "Suc 0 < UD_SOCKET_DESC_MAX"
  by (simp_all add: UD_SOCKET_DESC_MAX_def)

lemma fd_scan_full_iff: "fd_scan f (Suc 0) = UD_SOCKET_DESC_MAX \<longleftrightarrow> fd_full f"
proof
  assume "fd_scan f (Suc 0) = UD_SOCKET_DESC_MAX"
  then show "fd_full f"
    using fd_scan_skips [of "Suc 0" _ f] by (auto simp: fd_full_def)
next
  assume "fd_full f"
  then show "fd_scan f (Suc 0) = UD_SOCKET_DESC_MAX"
    using fd_scan_bounds [of "Suc 0" f] fd_scan_free [of f "Suc 0"] fd_max_gt_1
    by (force simp: fd_full_def order_le_less)
qed

lemma fd_scan_lt: "\<not> fd_full f \<Longrightarrow> 1 \<le> fd_scan f (Suc 0) \<and> fd_scan f (Suc 0) < UD_SOCKET_DESC_MAX"
  using fd_scan_bounds [of "Suc 0" f] fd_scan_full_iff [of f] by (simp add: order_le_less)

section \<open>What the operations do to a mapped table\<close>

lemma fd_in_range_scan: "\<not> fd_full f \<Longrightarrow> fd_in_range (int (fd_scan f (Suc 0)))"
  using fd_scan_lt [of f] by (simp add: fd_in_range_def)

lemma ud_fd_get_sock_Some [fd_simps]:
  "ud_fd_get_sock (Some t) fd =
     (if fd_in_range fd then Inr (tbl_fds t (nat fd)) else Inl Out_of_bounds)"
  by (simp add: ud_fd_get_sock_def)

lemma fd_store_Some [fd_simps]:
  "fd_store (Some t) fd v =
     (if fd_in_range fd then Inr (Some (t\<lparr>tbl_fds := (tbl_fds t)(nat fd := v)\<rparr>))
      else Inl Out_of_bounds)"
  by (simp add: fd_store_def)

lemma ud_fd_set_sock_room:
  assumes "\<not> fd_full (tbl_fds t)"
  shows "ud_fd_set_sock (Some t) v =
     Inr (int (fd_scan (tbl_fds t) (Suc 0)),
          Some (t\<lparr>tbl_fds := (tbl_fds t)(fd_scan (tbl_fds t) (Suc 0) := v)\<rparr>))"
  using fd_in_range_scan [OF assms]
  by (simp add: ud_fd_set_sock_def ud_fd_get_free_def fd_store_Some)

lemma ud_fd_set_sock_no_room:
  assumes "fd_full (tbl_fds t)"
  shows "ud_fd_set_sock (Some t) v = Inl Out_of_bounds"
  using assms fd_scan_full_iff [of "tbl_fds t"]
  by (simp add: ud_fd_set_sock_def ud_fd_get_free_def fd_store_Some fd_in_range_def)

lemma ud_fd_set_sock_InrE:
  assumes "ud_fd_set_sock (Some t) v = Inr (fd, tp')"
  obtains "\<not> fd_full (tbl_fds t)" and "fd = int (fd_scan (tbl_fds t) (Suc 0))"
    and "tp' = Some (t\<lparr>tbl_fds := (tbl_fds t)(fd_scan (tbl_fds t) (Suc 0) := v)\<rparr>)"
  using assms ud_fd_set_sock_room [of t v] ud_fd_set_sock_no_room [of t v]
  by (cases "fd_full (tbl_fds t)") auto

section \<open>The interface a client of the table relies on\<close>

text \<open>
  A descriptor table, as the socket functions use it: \<open>look\<close> reads a descriptor,
  \<open>install\<close> stores a socket under a descriptor of the table's choice, \<open>release\<close> empties a
  descriptor. \<open>install\<close> and \<open>release\<close> may stop (\<open>None\<close>).
\<close>

locale descriptor_table =
  fixes look :: "'t \<Rightarrow> int \<Rightarrow> 's option"
    and install :: "'t \<Rightarrow> 's \<Rightarrow> (int \<times> 't) option"
    and release :: "'t \<Rightarrow> int \<Rightarrow> 't option"
  assumes install_fresh: "install t s = Some (fd, t') \<Longrightarrow> look t fd = None"
    and install_look: "install t s = Some (fd, t') \<Longrightarrow> look t' = (look t)(fd := Some s)"
    and release_look: "release t fd = Some t' \<Longrightarrow> look t' = (look t)(fd := None)"
begin

text \<open>One client step: installing or releasing.\<close>

definition step :: "'t \<Rightarrow> 's + int \<Rightarrow> 't option" where
  "step t c = (case c of Inl s \<Rightarrow> map_option snd (install t s) | Inr fd \<Rightarrow> release t fd)"

fun steps :: "'t \<Rightarrow> ('s + int) list \<Rightarrow> 't option" where
  "steps t [] = Some t"
| "steps t (c # cs) = (case step t c of None \<Rightarrow> None | Some t' \<Rightarrow> steps t' cs)"

lemma step_keeps:
  assumes "step t c = Some t'" and "look t fd = Some s" and "c \<noteq> Inr fd"
  shows "look t' fd = Some s"
proof (cases c)
  case (Inl x)
  with assms(1) obtain a where i: "install t x = Some (a, t')"
    by (auto simp: step_def)
  with install_fresh [OF i] install_look [OF i] assms(2) show ?thesis by auto
next
  case (Inr a)
  with assms show ?thesis
    using release_look [of t a t'] by (auto simp: step_def)
qed

lemma steps_keep:
  "steps t cs = Some t' \<Longrightarrow> look t fd = Some s \<Longrightarrow> Inr fd \<notin> set cs \<Longrightarrow> look t' fd = Some s"
  by (induction cs arbitrary: t) (auto split: option.splits dest: step_keeps)

lemma installed_stays:
  assumes "install t s = Some (fd, t')" and "steps t' cs = Some t''" and "Inr fd \<notin> set cs"
  shows "look t'' fd = Some s"
  using assms(2) _ assms(3) by (rule steps_keep) (simp add: install_look [OF assms(1)])

end

text \<open>The table of \<^verbatim>\<open>ud_file.c\<close> in the shape of the interface.\<close>

definition fd_look :: "'s ud_fds_table \<Rightarrow> int \<Rightarrow> 's option" where
  "fd_look t fd = (case ud_fd_get_sock (Some t) fd of Inl _ \<Rightarrow> None | Inr p \<Rightarrow> p)"

definition fd_install :: "'s ud_fds_table \<Rightarrow> 's \<Rightarrow> (int \<times> 's ud_fds_table) option" where
  "fd_install t s =
     (case ud_fd_set_sock (Some t) (Some s) of
        Inr (fd, Some t') \<Rightarrow> Some (fd, t') | _ \<Rightarrow> None)"

definition fd_release :: "'s ud_fds_table \<Rightarrow> int \<Rightarrow> 's ud_fds_table option" where
  "fd_release t fd = (case ud_fd_free (Some t) fd of Inr tp \<Rightarrow> tp | Inl _ \<Rightarrow> None)"

lemma fd_look_eq: "fd_look t fd = (if fd_in_range fd then tbl_fds t (nat fd) else None)"
  by (simp add: fd_look_def fd_simps)

lemma fd_install_iff:
  "fd_install t s = Some (fd, t') \<longleftrightarrow> \<not> fd_full (tbl_fds t) \<and> fd = int (fd_scan (tbl_fds t) (Suc 0)) \<and>
     t' = t\<lparr>tbl_fds := (tbl_fds t)(fd_scan (tbl_fds t) (Suc 0) := Some s)\<rparr>"
  by (cases "fd_full (tbl_fds t)")
    (auto simp: fd_install_def ud_fd_set_sock_room ud_fd_set_sock_no_room)

lemma fd_release_iff:
  "fd_release t fd = Some t' \<longleftrightarrow>
     fd_in_range fd \<and> t' = t\<lparr>tbl_fds := (tbl_fds t)(nat fd := None)\<rparr>"
  by (auto simp: fd_release_def ud_fd_free_def fd_simps)

lemma fd_in_range_nat_eq: "fd_in_range a \<Longrightarrow> fd_in_range b \<Longrightarrow> nat a = nat b \<longleftrightarrow> a = b"
  by (auto simp: fd_in_range_def)

interpretation ud_fds: descriptor_table fd_look fd_install fd_release
proof unfold_locales
  fix t :: "'s ud_fds_table" and s fd t'
  assume i: "fd_install t s = Some (fd, t')"
  then show "fd_look t fd = None"
    using fd_scan_free [of "tbl_fds t" "Suc 0"] fd_scan_lt [of "tbl_fds t"]
    by (auto simp: fd_install_iff fd_look_eq)
  show "fd_look t' = (fd_look t)(fd := Some s)"
  proof
    fix x
    from i have r: "fd_in_range fd" and t': "t' = t\<lparr>tbl_fds := (tbl_fds t)(nat fd := Some s)\<rparr>"
      by (simp_all add: fd_install_iff fd_in_range_scan)
    then show "fd_look t' x = ((fd_look t)(fd := Some s)) x"
      using fd_in_range_nat_eq [OF r, of x] by (auto simp: fd_look_eq)
  qed
next
  fix t :: "'s ud_fds_table" and fd t'
  assume "fd_release t fd = Some t'"
  then show "fd_look t' = (fd_look t)(fd := None)"
    by (auto simp: fd_release_iff fd_look_eq fun_eq_iff fd_in_range_nat_eq)
qed

section \<open>Properties\<close>

text \<open>Client runs over the C functions: install a socket, or free a descriptor.\<close>

fun fd_run :: "'s fds_ptr \<Rightarrow> ('s + int) list \<Rightarrow> 's fds_ptr res" where
  "fd_run tp [] = Inr tp"
| "fd_run tp (Inl s # cs) = res_bind (ud_fd_set_sock tp (Some s)) (\<lambda>(fd, tp'). fd_run tp' cs)"
| "fd_run tp (Inr fd # cs) = res_bind (ud_fd_free tp fd) (\<lambda>tp'. fd_run tp' cs)"

lemma fd_run_steps:
  "fd_run (Some t) cs = Inr tp' \<Longrightarrow> \<exists>t'. tp' = Some t' \<and> ud_fds.steps t cs = Some t'"
proof (induction cs arbitrary: t)
  case (Cons c cs)
  show ?case
  proof (cases c)
    case (Inl s)
    with Cons.prems obtain fd tp1 where set: "ud_fd_set_sock (Some t) (Some s) = Inr (fd, tp1)"
      and run: "fd_run tp1 cs = Inr tp'"
      by auto
    from set obtain t1 where "tp1 = Some t1"
      by (elim ud_fd_set_sock_InrE)
    with set run have "fd_install t s = Some (fd, t1)" "fd_run (Some t1) cs = Inr tp'"
      by (simp_all add: fd_install_def)
    with Inl Cons.IH show ?thesis by (auto simp: ud_fds.step_def)
  next
    case (Inr fd)
    with Cons.prems obtain t1 where "ud_fd_free (Some t) fd = Inr (Some t1)"
      and "fd_run (Some t1) cs = Inr tp'"
      by (auto simp: ud_fd_free_def fd_simps split: if_splits)
    then have "fd_release t fd = Some t1" "fd_run (Some t1) cs = Inr tp'"
      by (simp_all add: fd_release_def)
    with Inr Cons.IH show ?thesis by (auto simp: ud_fds.step_def)
  qed
qed auto

text \<open>
  C31. Installing a socket in a table with a free slot returns the least free descriptor,
  never 0, stores the socket there and changes no other slot.
\<close>

theorem ud_fd_set_sock_least:
  assumes "tbl_fds t j = None" and "1 \<le> j" and "j < UD_SOCKET_DESC_MAX"
  shows "\<exists>fd t'. ud_fd_set_sock (Some t) (Some s) = Inr (fd, Some t') \<and>
    1 \<le> fd \<and> fd \<le> int j \<and> tbl_fds t (nat fd) = None \<and>
    (\<forall>i. 1 \<le> i \<and> int i < fd \<longrightarrow> tbl_fds t i \<noteq> None) \<and>
    ud_fd_get_sock (Some t') fd = Inr (Some s) \<and>
    (\<forall>i. int i \<noteq> fd \<longrightarrow> tbl_fds t' i = tbl_fds t i)"
proof -
  let ?k = "fd_scan (tbl_fds t) (Suc 0)"
  have nf: "\<not> fd_full (tbl_fds t)"
    using assms by (auto simp: fd_full_def)
  then have k: "1 \<le> ?k" "?k < UD_SOCKET_DESC_MAX" and r: "fd_in_range (int ?k)"
    using fd_scan_lt fd_in_range_scan by auto
  have skip: "\<And>i. 1 \<le> i \<Longrightarrow> i < ?k \<Longrightarrow> tbl_fds t i \<noteq> None"
    by (rule fd_scan_skips [of "Suc 0"]) simp_all
  with assms have "?k \<le> j" by (meson not_le_imp_less)
  moreover have "tbl_fds t ?k = None"
    using k by (intro fd_scan_free)
  ultimately show ?thesis
    using k r skip by (simp add: ud_fd_set_sock_room [OF nf] fd_simps)
qed

theorem ud_fd_set_sock_least_witness:
  "\<exists>fd t'. ud_fd_set_sock (Some (zero_table :: nat ud_fds_table)) (Some 7) = Inr (fd, Some t') \<and>
    1 \<le> fd \<and> fd \<le> 1 \<and> ud_fd_get_sock (Some t') fd = Inr (Some 7)"
  using ud_fd_set_sock_least [of "zero_table :: nat ud_fds_table" 1 7]
  by (auto simp: zero_table_def)

text \<open>
  A table whose descriptors are all taken does not make \<^verbatim>\<open>ud_fd_set_sock\<close> fail: the
  test for \<open>-1\<close> never holds, because \<^verbatim>\<open>ud_fd_get_free\<close> returns
  \<^verbatim>\<open>UD_SOCKET_DESC_MAX\<close>, and the socket is stored one slot past the array.
\<close>

theorem ud_fd_set_sock_full:
  assumes "\<forall>i. 1 \<le> i \<and> i < UD_SOCKET_DESC_MAX \<longrightarrow> tbl_fds t i \<noteq> None"
  shows "ud_fd_get_free (Some t) = Inr (int UD_SOCKET_DESC_MAX) \<and>
    ud_fd_set_sock (Some t) s = Inl Out_of_bounds"
proof -
  from assms have f: "fd_full (tbl_fds t)" by (simp add: fd_full_def)
  then show ?thesis
    using fd_scan_full_iff [of "tbl_fds t"]
    by (simp add: ud_fd_set_sock_no_room ud_fd_get_free_def)
qed

theorem ud_fd_set_sock_full_witness:
  "ud_fd_set_sock (Some \<lparr>tbl_num = 0, tbl_fds = (\<lambda>_. Some (1::nat))\<rparr>) (Some 2) = Inl Out_of_bounds"
  using ud_fd_set_sock_full [of "\<lparr>tbl_num = 0, tbl_fds = (\<lambda>_. Some (1::nat))\<rparr>" "Some 2"] by simp

text \<open>
  C30. A socket stays reachable under the descriptor it was given through any sequence of
  further installations and frees that does not free that descriptor: no operation of the
  table overwrites a live slot.
\<close>

theorem fd_live_until_freed:
  assumes "ud_fd_set_sock (Some t) (Some s) = Inr (fd, tp)"
    and "fd_run tp cs = Inr tp'"
    and "Inr fd \<notin> set cs"
  shows "ud_fd_get_sock tp' fd = Inr (Some s)"
proof -
  from assms(1) obtain t1 where tp: "tp = Some t1" and i: "fd_install t s = Some (fd, t1)"
    and r: "fd_in_range fd"
    by (elim ud_fd_set_sock_InrE) (simp add: fd_install_iff fd_in_range_scan)
  from assms(2) tp obtain t' where "tp' = Some t'" "ud_fds.steps t1 cs = Some t'"
    using fd_run_steps by blast
  with i assms(3) r show ?thesis
    using ud_fds.installed_stays [of t s fd t1 cs t'] by (simp add: fd_look_eq fd_simps)
qed

lemma fd_scan_unfold:
  "i < UD_SOCKET_DESC_MAX \<Longrightarrow> f i = None \<Longrightarrow> fd_scan f i = i"
  "i < UD_SOCKET_DESC_MAX \<Longrightarrow> f i \<noteq> None \<Longrightarrow> fd_scan f i = fd_scan f (Suc i)"
  by (auto simp: fd_scan.simps [of f i])

theorem fd_live_until_freed_witness:
  "\<exists>tp tp'. ud_fd_set_sock (Some (zero_table :: nat ud_fds_table)) (Some 7) = Inr (1, tp) \<and>
     fd_run tp [Inl 8, Inr 2] = Inr tp' \<and> ud_fd_get_sock tp' 1 = Inr (Some 7)"
proof -
  define t1 :: "nat ud_fds_table" where "t1 = zero_table\<lparr>tbl_fds := (\<lambda>_. None)(Suc 0 := Some 7)\<rparr>"
  have s0: "fd_scan (tbl_fds (zero_table :: nat ud_fds_table)) (Suc 0) = Suc 0"
    by (simp add: fd_scan_unfold zero_table_def)
  have s1: "fd_scan (tbl_fds t1) (Suc 0) = Suc (Suc 0)"
    by (simp add: fd_scan_unfold t1_def UD_SOCKET_DESC_MAX_def)
  have nf0: "\<not> fd_full (tbl_fds (zero_table :: nat ud_fds_table))"
    using fd_scan_full_iff [of "tbl_fds (zero_table :: nat ud_fds_table)"]
    by (simp add: s0 UD_SOCKET_DESC_MAX_def)
  have nf1: "\<not> fd_full (tbl_fds t1)"
    using fd_scan_full_iff [of "tbl_fds t1"] by (simp add: s1 UD_SOCKET_DESC_MAX_def)
  have a: "ud_fd_set_sock (Some (zero_table :: nat ud_fds_table)) (Some 7) = Inr (1, Some t1)"
    by (simp add: ud_fd_set_sock_room [OF nf0] s0) (simp add: t1_def zero_table_def)
  obtain tp' where b: "fd_run (Some t1) [Inl 8, Inr 2] = Inr tp'"
    by (simp add: ud_fd_set_sock_room [OF nf1] s1 ud_fd_free_def fd_simps fd_in_range_def
        UD_SOCKET_DESC_MAX_def)
  from fd_live_until_freed [OF a b] have "ud_fd_get_sock tp' 1 = Inr (Some 7)"
    by simp
  with a b show ?thesis by blast
qed

end
