(* ===== verification/Errno.thy ===== *)
theory Errno
  imports Prelude
begin

text \<open>
  Error numbers. The stack reports FreeBSD numbers, named \<^verbatim>\<open>UINET_E*\<close> in
  \<^verbatim>\<open>src/lib/libuinet/api_include/uinet_api_errno.h\<close>; applications expect the host's.
  Two translations exist in the sources: \<^verbatim>\<open>uinet_errno_to_os\<close>
  (\<^verbatim>\<open>src/lib/libuinet/uinet_api_errno.c\<close>), a switch, and \<^verbatim>\<open>errno_map\<close> with
  \<^verbatim>\<open>ud_set_errno\<close> (\<^verbatim>\<open>src/lib/libudsock/ud_socket.c\<close>), a table. This theory models
  both and compares them.
\<close>

section \<open>The host's numbers (Linux)\<close>

abbreviation (input) EPERM :: int where "EPERM \<equiv> 1"
abbreviation (input) ENOENT :: int where "ENOENT \<equiv> 2"
abbreviation (input) ESRCH :: int where "ESRCH \<equiv> 3"
abbreviation (input) EINTR :: int where "EINTR \<equiv> 4"
abbreviation (input) EIO :: int where "EIO \<equiv> 5"
abbreviation (input) ENXIO :: int where "ENXIO \<equiv> 6"
abbreviation (input) E2BIG :: int where "E2BIG \<equiv> 7"
abbreviation (input) ENOEXEC :: int where "ENOEXEC \<equiv> 8"
abbreviation (input) EBADF :: int where "EBADF \<equiv> 9"
abbreviation (input) ECHILD :: int where "ECHILD \<equiv> 10"
abbreviation (input) EAGAIN :: int where "EAGAIN \<equiv> 11"
abbreviation (input) ENOMEM :: int where "ENOMEM \<equiv> 12"
abbreviation (input) EACCES :: int where "EACCES \<equiv> 13"
abbreviation (input) EFAULT :: int where "EFAULT \<equiv> 14"
abbreviation (input) ENOTBLK :: int where "ENOTBLK \<equiv> 15"
abbreviation (input) EBUSY :: int where "EBUSY \<equiv> 16"
abbreviation (input) EEXIST :: int where "EEXIST \<equiv> 17"
abbreviation (input) EXDEV :: int where "EXDEV \<equiv> 18"
abbreviation (input) ENODEV :: int where "ENODEV \<equiv> 19"
abbreviation (input) ENOTDIR :: int where "ENOTDIR \<equiv> 20"
abbreviation (input) EISDIR :: int where "EISDIR \<equiv> 21"
abbreviation (input) EINVAL :: int where "EINVAL \<equiv> 22"
abbreviation (input) ENFILE :: int where "ENFILE \<equiv> 23"
abbreviation (input) EMFILE :: int where "EMFILE \<equiv> 24"
abbreviation (input) ENOTTY :: int where "ENOTTY \<equiv> 25"
abbreviation (input) ETXTBSY :: int where "ETXTBSY \<equiv> 26"
abbreviation (input) EFBIG :: int where "EFBIG \<equiv> 27"
abbreviation (input) ENOSPC :: int where "ENOSPC \<equiv> 28"
abbreviation (input) ESPIPE :: int where "ESPIPE \<equiv> 29"
abbreviation (input) EROFS :: int where "EROFS \<equiv> 30"
abbreviation (input) EMLINK :: int where "EMLINK \<equiv> 31"
abbreviation (input) EPIPE :: int where "EPIPE \<equiv> 32"
abbreviation (input) EDOM :: int where "EDOM \<equiv> 33"
abbreviation (input) ERANGE :: int where "ERANGE \<equiv> 34"
abbreviation (input) EDEADLK :: int where "EDEADLK \<equiv> 35"
abbreviation (input) ENAMETOOLONG :: int where "ENAMETOOLONG \<equiv> 36"
abbreviation (input) ENOLCK :: int where "ENOLCK \<equiv> 37"
abbreviation (input) ENOSYS :: int where "ENOSYS \<equiv> 38"
abbreviation (input) ENOTEMPTY :: int where "ENOTEMPTY \<equiv> 39"
abbreviation (input) ELOOP :: int where "ELOOP \<equiv> 40"
abbreviation (input) ENOMSG :: int where "ENOMSG \<equiv> 42"
abbreviation (input) EIDRM :: int where "EIDRM \<equiv> 43"
abbreviation (input) EREMOTE :: int where "EREMOTE \<equiv> 66"
abbreviation (input) ENOLINK :: int where "ENOLINK \<equiv> 67"
abbreviation (input) EPROTO :: int where "EPROTO \<equiv> 71"
abbreviation (input) EMULTIHOP :: int where "EMULTIHOP \<equiv> 72"
abbreviation (input) EBADMSG :: int where "EBADMSG \<equiv> 74"
abbreviation (input) EOVERFLOW :: int where "EOVERFLOW \<equiv> 75"
abbreviation (input) EILSEQ :: int where "EILSEQ \<equiv> 84"
abbreviation (input) EUSERS :: int where "EUSERS \<equiv> 87"
abbreviation (input) ENOTSOCK :: int where "ENOTSOCK \<equiv> 88"
abbreviation (input) EDESTADDRREQ :: int where "EDESTADDRREQ \<equiv> 89"
abbreviation (input) EMSGSIZE :: int where "EMSGSIZE \<equiv> 90"
abbreviation (input) EPROTOTYPE :: int where "EPROTOTYPE \<equiv> 91"
abbreviation (input) ENOPROTOOPT :: int where "ENOPROTOOPT \<equiv> 92"
abbreviation (input) EPROTONOSUPPORT :: int where "EPROTONOSUPPORT \<equiv> 93"
abbreviation (input) ESOCKTNOSUPPORT :: int where "ESOCKTNOSUPPORT \<equiv> 94"
abbreviation (input) EOPNOTSUPP :: int where "EOPNOTSUPP \<equiv> 95"
abbreviation (input) EPFNOSUPPORT :: int where "EPFNOSUPPORT \<equiv> 96"
abbreviation (input) EAFNOSUPPORT :: int where "EAFNOSUPPORT \<equiv> 97"
abbreviation (input) EADDRINUSE :: int where "EADDRINUSE \<equiv> 98"
abbreviation (input) EADDRNOTAVAIL :: int where "EADDRNOTAVAIL \<equiv> 99"
abbreviation (input) ENETDOWN :: int where "ENETDOWN \<equiv> 100"
abbreviation (input) ENETUNREACH :: int where "ENETUNREACH \<equiv> 101"
abbreviation (input) ENETRESET :: int where "ENETRESET \<equiv> 102"
abbreviation (input) ECONNABORTED :: int where "ECONNABORTED \<equiv> 103"
abbreviation (input) ECONNRESET :: int where "ECONNRESET \<equiv> 104"
abbreviation (input) ENOBUFS :: int where "ENOBUFS \<equiv> 105"
abbreviation (input) EISCONN :: int where "EISCONN \<equiv> 106"
abbreviation (input) ENOTCONN :: int where "ENOTCONN \<equiv> 107"
abbreviation (input) ESHUTDOWN :: int where "ESHUTDOWN \<equiv> 108"
abbreviation (input) ETOOMANYREFS :: int where "ETOOMANYREFS \<equiv> 109"
abbreviation (input) ETIMEDOUT :: int where "ETIMEDOUT \<equiv> 110"
abbreviation (input) ECONNREFUSED :: int where "ECONNREFUSED \<equiv> 111"
abbreviation (input) EHOSTDOWN :: int where "EHOSTDOWN \<equiv> 112"
abbreviation (input) EHOSTUNREACH :: int where "EHOSTUNREACH \<equiv> 113"
abbreviation (input) EALREADY :: int where "EALREADY \<equiv> 114"
abbreviation (input) EINPROGRESS :: int where "EINPROGRESS \<equiv> 115"
abbreviation (input) ESTALE :: int where "ESTALE \<equiv> 116"
abbreviation (input) EDQUOT :: int where "EDQUOT \<equiv> 122"
abbreviation (input) ECANCELED :: int where "ECANCELED \<equiv> 125"
abbreviation (input) EWOULDBLOCK :: int where "EWOULDBLOCK \<equiv> EAGAIN"
abbreviation (input) ENOTSUP :: int where "ENOTSUP \<equiv> EOPNOTSUPP"

section \<open>The stack's numbers\<close>

abbreviation (input) UINET_EPERM :: int where "UINET_EPERM \<equiv> 1"
abbreviation (input) UINET_ENOENT :: int where "UINET_ENOENT \<equiv> 2"
abbreviation (input) UINET_ESRCH :: int where "UINET_ESRCH \<equiv> 3"
abbreviation (input) UINET_EINTR :: int where "UINET_EINTR \<equiv> 4"
abbreviation (input) UINET_EIO :: int where "UINET_EIO \<equiv> 5"
abbreviation (input) UINET_ENXIO :: int where "UINET_ENXIO \<equiv> 6"
abbreviation (input) UINET_E2BIG :: int where "UINET_E2BIG \<equiv> 7"
abbreviation (input) UINET_ENOEXEC :: int where "UINET_ENOEXEC \<equiv> 8"
abbreviation (input) UINET_EBADF :: int where "UINET_EBADF \<equiv> 9"
abbreviation (input) UINET_ECHILD :: int where "UINET_ECHILD \<equiv> 10"
abbreviation (input) UINET_EDEADLK :: int where "UINET_EDEADLK \<equiv> 11"
abbreviation (input) UINET_ENOMEM :: int where "UINET_ENOMEM \<equiv> 12"
abbreviation (input) UINET_EACCES :: int where "UINET_EACCES \<equiv> 13"
abbreviation (input) UINET_EFAULT :: int where "UINET_EFAULT \<equiv> 14"
abbreviation (input) UINET_ENOTBLK :: int where "UINET_ENOTBLK \<equiv> 15"
abbreviation (input) UINET_EBUSY :: int where "UINET_EBUSY \<equiv> 16"
abbreviation (input) UINET_EEXIST :: int where "UINET_EEXIST \<equiv> 17"
abbreviation (input) UINET_EXDEV :: int where "UINET_EXDEV \<equiv> 18"
abbreviation (input) UINET_ENODEV :: int where "UINET_ENODEV \<equiv> 19"
abbreviation (input) UINET_ENOTDIR :: int where "UINET_ENOTDIR \<equiv> 20"
abbreviation (input) UINET_EISDIR :: int where "UINET_EISDIR \<equiv> 21"
abbreviation (input) UINET_EINVAL :: int where "UINET_EINVAL \<equiv> 22"
abbreviation (input) UINET_ENFILE :: int where "UINET_ENFILE \<equiv> 23"
abbreviation (input) UINET_EMFILE :: int where "UINET_EMFILE \<equiv> 24"
abbreviation (input) UINET_ENOTTY :: int where "UINET_ENOTTY \<equiv> 25"
abbreviation (input) UINET_ETXTBSY :: int where "UINET_ETXTBSY \<equiv> 26"
abbreviation (input) UINET_EFBIG :: int where "UINET_EFBIG \<equiv> 27"
abbreviation (input) UINET_ENOSPC :: int where "UINET_ENOSPC \<equiv> 28"
abbreviation (input) UINET_ESPIPE :: int where "UINET_ESPIPE \<equiv> 29"
abbreviation (input) UINET_EROFS :: int where "UINET_EROFS \<equiv> 30"
abbreviation (input) UINET_EMLINK :: int where "UINET_EMLINK \<equiv> 31"
abbreviation (input) UINET_EPIPE :: int where "UINET_EPIPE \<equiv> 32"
abbreviation (input) UINET_EDOM :: int where "UINET_EDOM \<equiv> 33"
abbreviation (input) UINET_ERANGE :: int where "UINET_ERANGE \<equiv> 34"
abbreviation (input) UINET_EAGAIN :: int where "UINET_EAGAIN \<equiv> 35"
abbreviation (input) UINET_EWOULDBLOCK :: int where "UINET_EWOULDBLOCK \<equiv> UINET_EAGAIN"
abbreviation (input) UINET_EINPROGRESS :: int where "UINET_EINPROGRESS \<equiv> 36"
abbreviation (input) UINET_EALREADY :: int where "UINET_EALREADY \<equiv> 37"
abbreviation (input) UINET_ENOTSOCK :: int where "UINET_ENOTSOCK \<equiv> 38"
abbreviation (input) UINET_EDESTADDRREQ :: int where "UINET_EDESTADDRREQ \<equiv> 39"
abbreviation (input) UINET_EMSGSIZE :: int where "UINET_EMSGSIZE \<equiv> 40"
abbreviation (input) UINET_EPROTOTYPE :: int where "UINET_EPROTOTYPE \<equiv> 41"
abbreviation (input) UINET_ENOPROTOOPT :: int where "UINET_ENOPROTOOPT \<equiv> 42"
abbreviation (input) UINET_EPROTONOSUPPORT :: int where "UINET_EPROTONOSUPPORT \<equiv> 43"
abbreviation (input) UINET_ESOCKTNOSUPPORT :: int where "UINET_ESOCKTNOSUPPORT \<equiv> 44"
abbreviation (input) UINET_EOPNOTSUPP :: int where "UINET_EOPNOTSUPP \<equiv> 45"
abbreviation (input) UINET_ENOTSUP :: int where "UINET_ENOTSUP \<equiv> UINET_EOPNOTSUPP"
abbreviation (input) UINET_EPFNOSUPPORT :: int where "UINET_EPFNOSUPPORT \<equiv> 46"
abbreviation (input) UINET_EAFNOSUPPORT :: int where "UINET_EAFNOSUPPORT \<equiv> 47"
abbreviation (input) UINET_EADDRINUSE :: int where "UINET_EADDRINUSE \<equiv> 48"
abbreviation (input) UINET_EADDRNOTAVAIL :: int where "UINET_EADDRNOTAVAIL \<equiv> 49"
abbreviation (input) UINET_ENETDOWN :: int where "UINET_ENETDOWN \<equiv> 50"
abbreviation (input) UINET_ENETUNREACH :: int where "UINET_ENETUNREACH \<equiv> 51"
abbreviation (input) UINET_ENETRESET :: int where "UINET_ENETRESET \<equiv> 52"
abbreviation (input) UINET_ECONNABORTED :: int where "UINET_ECONNABORTED \<equiv> 53"
abbreviation (input) UINET_ECONNRESET :: int where "UINET_ECONNRESET \<equiv> 54"
abbreviation (input) UINET_ENOBUFS :: int where "UINET_ENOBUFS \<equiv> 55"
abbreviation (input) UINET_EISCONN :: int where "UINET_EISCONN \<equiv> 56"
abbreviation (input) UINET_ENOTCONN :: int where "UINET_ENOTCONN \<equiv> 57"
abbreviation (input) UINET_ESHUTDOWN :: int where "UINET_ESHUTDOWN \<equiv> 58"
abbreviation (input) UINET_ETOOMANYREFS :: int where "UINET_ETOOMANYREFS \<equiv> 59"
abbreviation (input) UINET_ETIMEDOUT :: int where "UINET_ETIMEDOUT \<equiv> 60"
abbreviation (input) UINET_ECONNREFUSED :: int where "UINET_ECONNREFUSED \<equiv> 61"
abbreviation (input) UINET_ELOOP :: int where "UINET_ELOOP \<equiv> 62"
abbreviation (input) UINET_ENAMETOOLONG :: int where "UINET_ENAMETOOLONG \<equiv> 63"
abbreviation (input) UINET_EHOSTDOWN :: int where "UINET_EHOSTDOWN \<equiv> 64"
abbreviation (input) UINET_EHOSTUNREACH :: int where "UINET_EHOSTUNREACH \<equiv> 65"
abbreviation (input) UINET_ENOTEMPTY :: int where "UINET_ENOTEMPTY \<equiv> 66"
abbreviation (input) UINET_EPROCLIM :: int where "UINET_EPROCLIM \<equiv> 67"
abbreviation (input) UINET_EUSERS :: int where "UINET_EUSERS \<equiv> 68"
abbreviation (input) UINET_EDQUOT :: int where "UINET_EDQUOT \<equiv> 69"
abbreviation (input) UINET_ESTALE :: int where "UINET_ESTALE \<equiv> 70"
abbreviation (input) UINET_EREMOTE :: int where "UINET_EREMOTE \<equiv> 71"
abbreviation (input) UINET_EBADRPC :: int where "UINET_EBADRPC \<equiv> 72"
abbreviation (input) UINET_ERPCMISMATCH :: int where "UINET_ERPCMISMATCH \<equiv> 73"
abbreviation (input) UINET_EPROGUNAVAIL :: int where "UINET_EPROGUNAVAIL \<equiv> 74"
abbreviation (input) UINET_EPROGMISMATCH :: int where "UINET_EPROGMISMATCH \<equiv> 75"
abbreviation (input) UINET_EPROCUNAVAIL :: int where "UINET_EPROCUNAVAIL \<equiv> 76"
abbreviation (input) UINET_ENOLCK :: int where "UINET_ENOLCK \<equiv> 77"
abbreviation (input) UINET_ENOSYS :: int where "UINET_ENOSYS \<equiv> 78"
abbreviation (input) UINET_EFTYPE :: int where "UINET_EFTYPE \<equiv> 79"
abbreviation (input) UINET_EAUTH :: int where "UINET_EAUTH \<equiv> 80"
abbreviation (input) UINET_ENEEDAUTH :: int where "UINET_ENEEDAUTH \<equiv> 81"
abbreviation (input) UINET_EIDRM :: int where "UINET_EIDRM \<equiv> 82"
abbreviation (input) UINET_ENOMSG :: int where "UINET_ENOMSG \<equiv> 83"
abbreviation (input) UINET_EOVERFLOW :: int where "UINET_EOVERFLOW \<equiv> 84"
abbreviation (input) UINET_ECANCELED :: int where "UINET_ECANCELED \<equiv> 85"
abbreviation (input) UINET_EILSEQ :: int where "UINET_EILSEQ \<equiv> 86"
abbreviation (input) UINET_ENOATTR :: int where "UINET_ENOATTR \<equiv> 87"
abbreviation (input) UINET_EDOOFUS :: int where "UINET_EDOOFUS \<equiv> 88"
abbreviation (input) UINET_EBADMSG :: int where "UINET_EBADMSG \<equiv> 89"
abbreviation (input) UINET_EMULTIHOP :: int where "UINET_EMULTIHOP \<equiv> 90"
abbreviation (input) UINET_ENOLINK :: int where "UINET_ENOLINK \<equiv> 91"
abbreviation (input) UINET_EPROTO :: int where "UINET_EPROTO \<equiv> 92"
abbreviation (input) UINET_ENOTCAPABLE :: int where "UINET_ENOTCAPABLE \<equiv> 93"
abbreviation (input) UINET_ECAPMODE :: int where "UINET_ECAPMODE \<equiv> 94"
abbreviation (input) UINET_ELAST :: int where "UINET_ELAST \<equiv> 94"

section \<open>The switch\<close>

definition uinet_errno_to_os :: "int \<Rightarrow> int" where
  "uinet_errno_to_os e =
     (if e = UINET_EPERM then EPERM
     else if e = UINET_ENOENT then ENOENT
     else if e = UINET_ESRCH then ESRCH
     else if e = UINET_EINTR then EINTR
     else if e = UINET_EIO then EIO
     else if e = UINET_ENXIO then ENXIO
     else if e = UINET_E2BIG then E2BIG
     else if e = UINET_ENOEXEC then ENOEXEC
     else if e = UINET_EBADF then EBADF
     else if e = UINET_ECHILD then ECHILD
     else if e = UINET_EDEADLK then EDEADLK
     else if e = UINET_ENOMEM then ENOMEM
     else if e = UINET_EACCES then EACCES
     else if e = UINET_EFAULT then EFAULT
     else if e = UINET_ENOTBLK then ENOTBLK
     else if e = UINET_EBUSY then EBUSY
     else if e = UINET_EEXIST then EEXIST
     else if e = UINET_EXDEV then EXDEV
     else if e = UINET_ENODEV then ENODEV
     else if e = UINET_ENOTDIR then ENOTDIR
     else if e = UINET_EISDIR then EISDIR
     else if e = UINET_EINVAL then EINVAL
     else if e = UINET_ENFILE then ENFILE
     else if e = UINET_EMFILE then EMFILE
     else if e = UINET_ENOTTY then ENOTTY
     else if e = UINET_ETXTBSY then ETXTBSY
     else if e = UINET_EFBIG then EFBIG
     else if e = UINET_ENOSPC then ENOSPC
     else if e = UINET_ESPIPE then ESPIPE
     else if e = UINET_EROFS then EROFS
     else if e = UINET_EMLINK then EMLINK
     else if e = UINET_EPIPE then EPIPE
     else if e = UINET_EDOM then EDOM
     else if e = UINET_ERANGE then ERANGE
     else if e = UINET_EWOULDBLOCK then EWOULDBLOCK
     else if e = UINET_EINPROGRESS then EINPROGRESS
     else if e = UINET_EALREADY then EALREADY
     else if e = UINET_ENOTSOCK then ENOTSOCK
     else if e = UINET_EDESTADDRREQ then EDESTADDRREQ
     else if e = UINET_EMSGSIZE then EMSGSIZE
     else if e = UINET_EPROTOTYPE then EPROTOTYPE
     else if e = UINET_ENOPROTOOPT then ENOPROTOOPT
     else if e = UINET_EPROTONOSUPPORT then EPROTONOSUPPORT
     else if e = UINET_ESOCKTNOSUPPORT then ESOCKTNOSUPPORT
     else if e = UINET_ENOTSUP then ENOTSUP
     else if e = UINET_EPFNOSUPPORT then EPFNOSUPPORT
     else if e = UINET_EAFNOSUPPORT then EAFNOSUPPORT
     else if e = UINET_EADDRINUSE then EADDRINUSE
     else if e = UINET_EADDRNOTAVAIL then EADDRNOTAVAIL
     else if e = UINET_ENETDOWN then ENETDOWN
     else if e = UINET_ENETUNREACH then ENETUNREACH
     else if e = UINET_ENETRESET then ENETRESET
     else if e = UINET_ECONNABORTED then ECONNABORTED
     else if e = UINET_ECONNRESET then ECONNRESET
     else if e = UINET_ENOBUFS then ENOBUFS
     else if e = UINET_EISCONN then EISCONN
     else if e = UINET_ENOTCONN then ENOTCONN
     else if e = UINET_ESHUTDOWN then ESHUTDOWN
     else if e = UINET_ETOOMANYREFS then ETOOMANYREFS
     else if e = UINET_ETIMEDOUT then ETIMEDOUT
     else if e = UINET_ECONNREFUSED then ECONNREFUSED
     else if e = UINET_ELOOP then ELOOP
     else if e = UINET_ENAMETOOLONG then ENAMETOOLONG
     else if e = UINET_EHOSTDOWN then EHOSTDOWN
     else if e = UINET_EHOSTUNREACH then EHOSTUNREACH
     else if e = UINET_ENOTEMPTY then ENOTEMPTY
     else if e = UINET_EUSERS then EUSERS
     else if e = UINET_EDQUOT then EDQUOT
     else if e = UINET_ESTALE then ESTALE
     else if e = UINET_EREMOTE then EREMOTE
     else if e = UINET_ENOLCK then ENOLCK
     else if e = UINET_ENOSYS then ENOSYS
     else if e = UINET_EIDRM then EIDRM
     else if e = UINET_ENOMSG then ENOMSG
     else if e = UINET_EOVERFLOW then EOVERFLOW
     else if e = UINET_ECANCELED then ECANCELED
     else if e = UINET_EILSEQ then EILSEQ
     else if e = UINET_EBADMSG then EBADMSG
     else if e = UINET_EMULTIHOP then EMULTIHOP
     else if e = UINET_ENOLINK then ENOLINK
     else if e = UINET_EPROTO then EPROTO
     else e)"

section \<open>The table\<close>

definition errno_map :: "int list" where
  "errno_map =
    [0, EPERM, ENOENT, ESRCH, EINTR, EIO, ENXIO, E2BIG, ENOEXEC, EBADF, ECHILD,
     EDEADLK, ENOMEM, EACCES, EFAULT, ENOTBLK, EBUSY, EEXIST, EXDEV, ENODEV, ENOTDIR,
     EISDIR, EINVAL, ENFILE, EMFILE, ENOTTY, ETXTBSY, EFBIG, ENOSPC, ESPIPE, EROFS,
     EMLINK, EPIPE, EDOM, ERANGE, EAGAIN, EINPROGRESS, EALREADY, ENOTSOCK,
     EDESTADDRREQ, EMSGSIZE, EPROTOTYPE, ENOPROTOOPT, EPROTONOSUPPORT,
     ESOCKTNOSUPPORT, EOPNOTSUPP, EOPNOTSUPP, EPFNOSUPPORT, EAFNOSUPPORT, EADDRINUSE,
     EADDRNOTAVAIL, ENETDOWN, ENETUNREACH, ENETRESET, ECONNABORTED, ECONNRESET,
     ENOBUFS, EISCONN, ENOTCONN, ESHUTDOWN, ETOOMANYREFS, ETIMEDOUT, ECONNREFUSED,
     ELOOP, ENAMETOOLONG]"

text \<open>\<^verbatim>\<open>sizeof(errno_map)\<close> counts bytes: four for each \<^verbatim>\<open>int\<close>.\<close>

definition sizeof_errno_map :: nat where
  "sizeof_errno_map = 4 * length errno_map"

text \<open>
  The guard \<^verbatim>\<open>error != 0 && error < sizeof(errno_map)\<close> compares an \<^verbatim>\<open>int\<close> with a
  \<^verbatim>\<open>size_t\<close>: a negative error converts to a huge number and fails it. The second
  argument is the \<^verbatim>\<open>errno\<close> before the call.
\<close>

definition ud_set_errno :: "int \<Rightarrow> int \<Rightarrow> int res" where
  "ud_set_errno error en =
     (if 0 < error \<and> error < int sizeof_errno_map
      then (if nat error < length errno_map then Inr (errno_map ! nat error)
            else Inl Out_of_bounds)
      else Inr en)"

section \<open>The table against the switch\<close>

lemma length_errno_map [simp]: "length errno_map = 65"
  by (simp add: errno_map_def)

lemma sizeof_errno_map_eq [simp]: "sizeof_errno_map = 260"
  by (simp add: sizeof_errno_map_def)

lemma errno_map_low:
  "list_all (\<lambda>e. errno_map ! nat e = uinet_errno_to_os e) [1..45]"
  by code_simp

lemma errno_map_high:
  "list_all (\<lambda>e. errno_map ! nat e = uinet_errno_to_os (e - 1)) [46..64]"
  by code_simp

lemma errno_map_nth:
  "1 \<le> e \<Longrightarrow> e \<le> 45 \<Longrightarrow> errno_map ! nat e = uinet_errno_to_os e"
  "46 \<le> e \<Longrightarrow> e \<le> 64 \<Longrightarrow> errno_map ! nat e = uinet_errno_to_os (e - 1)"
  using errno_map_low errno_map_high
  unfolding list_all_iff set_upto by simp_all

text \<open>
  What \<^verbatim>\<open>ud_set_errno\<close> does with every error number the stack can report, measured
  against the stack's own translation \<^verbatim>\<open>uinet_errno_to_os\<close>: up to 45 the two agree;
  from 46 to 64 the table is shifted by one (\<^verbatim>\<open>EOPNOTSUPP\<close> is entered twice), so the
  application sees the translation of the error before; from 65 to 259 the guard, which
  compares with a size in bytes, admits a read past the end of the table; anything else
  leaves \<^verbatim>\<open>errno\<close> alone.
\<close>

theorem ud_set_errno_spec:
  "ud_set_errno e en =
     (if 1 \<le> e \<and> e \<le> 45 then Inr (uinet_errno_to_os e)
      else if 46 \<le> e \<and> e \<le> 64 then Inr (uinet_errno_to_os (e - 1))
      else if 65 \<le> e \<and> e < 260 then Inl Out_of_bounds
      else Inr en)"
  by (auto simp: ud_set_errno_def errno_map_nth)

end
