(* ===== verification/Ud_Socket.thy ===== *)
theory Ud_Socket
  imports Ud_File Errno
begin

text \<open>
  The socket calls of the library, \<^verbatim>\<open>src/lib/libudsock/ud_socket.c\<close> and
  \<^verbatim>\<open>ud_unistd.c\<close>: they look a descriptor up, translate arguments from the host's
  conventions to the stack's, call the stack and translate the answer back.

  The stack behind \<^verbatim>\<open>uinet_api.h\<close> is a parameter: a record of the operations these
  files call, over an arbitrary state \<open>'w\<close> of the stack. \<open>'s\<close> is the type of socket
  addresses and \<open>'b\<close> the type of buffer addresses.
\<close>

unbundle bit_operations_syntax

named_theorems ud_simps

section \<open>Addresses, buffers and the stack's operations\<close>

text \<open>\<^verbatim>\<open>struct sockaddr_in\<close> of the host and of the stack (the padding bytes are left out).\<close>

record sockaddr_in =
  lsin_family :: u16
  lsin_port :: u16
  lsin_addr :: u32

record uinet_sockaddr_in =
  sin_len :: u8
  sin_family :: u8
  sin_port :: u16
  sin_addr :: u32

record 'b uinet_uio =
  iov_base :: 'b
  iov_len :: u64
  uio_iovcnt :: int
  uio_offset :: u64
  uio_resid :: u64

record ('s, 'b, 'w) uinet_ops =
  uinet_socreate :: "int \<Rightarrow> int \<Rightarrow> int \<Rightarrow> 'w \<Rightarrow> (int \<times> 's option) \<times> 'w"
  uinet_soaccept :: "'s \<Rightarrow> 'w \<Rightarrow> (int \<times> uinet_sockaddr_in option \<times> 's option) \<times> 'w"
  uinet_sobind :: "'s \<Rightarrow> uinet_sockaddr_in \<Rightarrow> 'w \<Rightarrow> int \<times> 'w"
  uinet_soconnect :: "'s \<Rightarrow> uinet_sockaddr_in \<Rightarrow> 'w \<Rightarrow> int \<times> 'w"
  uinet_soreceive :: "'s \<Rightarrow> 'b uinet_uio \<Rightarrow> u32 \<Rightarrow> 'w \<Rightarrow>
    (int \<times> uinet_sockaddr_in option \<times> 'b uinet_uio) \<times> 'w"
  uinet_solisten :: "'s \<Rightarrow> int \<Rightarrow> 'w \<Rightarrow> int \<times> 'w"
  uinet_sosend :: "'s \<Rightarrow> uinet_sockaddr_in option \<Rightarrow> 'b uinet_uio \<Rightarrow> u32 \<Rightarrow> 'w \<Rightarrow>
    (int \<times> 'b uinet_uio) \<times> 'w"
  uinet_sosetsockopt :: "'s \<Rightarrow> int \<Rightarrow> int \<Rightarrow> 'b \<Rightarrow> u32 \<Rightarrow> 'w \<Rightarrow> int \<times> 'w"
  uinet_sogetsockopt :: "'s \<Rightarrow> int \<Rightarrow> int \<Rightarrow> 'b \<Rightarrow> u32 \<Rightarrow> 'w \<Rightarrow> (int \<times> u32) \<times> 'w"
  uinet_sogetsockaddr :: "'s \<Rightarrow> 'w \<Rightarrow> (int \<times> uinet_sockaddr_in option) \<times> 'w"
  uinet_soreadable :: "'s \<Rightarrow> int \<Rightarrow> 'w \<Rightarrow> int \<times> 'w"
  uinet_sowritable :: "'s \<Rightarrow> int \<Rightarrow> 'w \<Rightarrow> int \<times> 'w"
  uinet_sosetnonblocking :: "'s \<Rightarrow> int \<Rightarrow> 'w \<Rightarrow> 'w"
  uinet_soclose :: "'s \<Rightarrow> 'w \<Rightarrow> int \<times> 'w"

text \<open>
  The library's state: the descriptor table, \<^verbatim>\<open>errno\<close>, the number of socket addresses
  the stack allocated for the library that it has not freed, and the stack.
\<close>

record ('s, 'w) ud_state =
  ud_table :: "'s fds_ptr"
  ud_errno :: int
  ud_sa_live :: int
  ud_world :: 'w

definition sa_count :: "uinet_sockaddr_in option \<Rightarrow> int" where
  "sa_count p = (if p = None then 0 else 1)"

definition fd_sock :: "('s, 'w) ud_state \<Rightarrow> int \<Rightarrow> 's option res" where
  "fd_sock st fd = ud_fd_get_sock (ud_table st) fd"

section \<open>Flags and options\<close>

definition MSG_DONTWAIT :: u32 where "MSG_DONTWAIT = 0x40"
definition UINET_MSG_DONTWAIT :: u32 where "UINET_MSG_DONTWAIT = 0x80"

definition map_flags :: "u32 \<Rightarrow> u32" where
  "map_flags flags =
     (let (flags, ret) =
        (if flags AND MSG_DONTWAIT \<noteq> 0
         then (flags AND NOT MSG_DONTWAIT, 0 OR UINET_MSG_DONTWAIT)
         else (flags, 0))
      in if flags \<noteq> 0 then -1 else ret)"

definition UINET_SOL_SOCKET :: int where "UINET_SOL_SOCKET = 0xffff"

text \<open>The options of the stack, as numbered in \<^verbatim>\<open>uinet_api_types.h\<close>.\<close>

abbreviation (input) UINET_SO_DEBUG :: int where "UINET_SO_DEBUG \<equiv> 0x1"
abbreviation (input) UINET_SO_REUSEADDR :: int where "UINET_SO_REUSEADDR \<equiv> 0x4"
abbreviation (input) UINET_SO_KEEPALIVE :: int where "UINET_SO_KEEPALIVE \<equiv> 0x8"
abbreviation (input) UINET_SO_DONTROUTE :: int where "UINET_SO_DONTROUTE \<equiv> 0x10"
abbreviation (input) UINET_SO_BROADCAST :: int where "UINET_SO_BROADCAST \<equiv> 0x20"
abbreviation (input) UINET_SO_LINGER :: int where "UINET_SO_LINGER \<equiv> 0x80"
abbreviation (input) UINET_SO_OOBINLINE :: int where "UINET_SO_OOBINLINE \<equiv> 0x100"
abbreviation (input) UINET_SO_REUSEPORT :: int where "UINET_SO_REUSEPORT \<equiv> 0x200"
abbreviation (input) UINET_SO_SNDBUF :: int where "UINET_SO_SNDBUF \<equiv> 0x1001"
abbreviation (input) UINET_SO_RCVBUF :: int where "UINET_SO_RCVBUF \<equiv> 0x1002"
abbreviation (input) UINET_SO_ERROR :: int where "UINET_SO_ERROR \<equiv> 0x1007"
abbreviation (input) UINET_SO_TYPE :: int where "UINET_SO_TYPE \<equiv> 0x1008"
abbreviation (input) UINET_TCP_NODELAY :: int where "UINET_TCP_NODELAY \<equiv> 0x1"
abbreviation (input) UINET_TCP_MAXSEG :: int where "UINET_TCP_MAXSEG \<equiv> 0x2"
abbreviation (input) UINET_TCP_MD5SIG :: int where "UINET_TCP_MD5SIG \<equiv> 0x10"
abbreviation (input) UINET_TCP_INFO :: int where "UINET_TCP_INFO \<equiv> 0x20"
abbreviation (input) UINET_TCP_CONGESTION :: int where "UINET_TCP_CONGESTION \<equiv> 0x40"
abbreviation (input) UINET_TCP_KEEPIDLE :: int where "UINET_TCP_KEEPIDLE \<equiv> 0x100"
abbreviation (input) UINET_TCP_KEEPINTVL :: int where "UINET_TCP_KEEPINTVL \<equiv> 0x200"
abbreviation (input) UINET_TCP_KEEPCNT :: int where "UINET_TCP_KEEPCNT \<equiv> 0x400"

text \<open>An array with fewer initialisers than elements is filled with zeros.\<close>

definition ud_soopts :: "int list" where
  "ud_soopts =
    [0, UINET_SO_DEBUG, UINET_SO_REUSEADDR, UINET_SO_TYPE, UINET_SO_ERROR,
     UINET_SO_DONTROUTE, UINET_SO_BROADCAST, UINET_SO_SNDBUF, UINET_SO_RCVBUF,
     UINET_SO_KEEPALIVE, UINET_SO_OOBINLINE, 0, 0, UINET_SO_LINGER] @ replicate 16 0"

definition ud_tcpopts :: "int list" where
  "ud_tcpopts =
    [0, UINET_TCP_NODELAY, UINET_TCP_MAXSEG, 0, UINET_TCP_KEEPIDLE, UINET_TCP_KEEPINTVL,
     UINET_TCP_KEEPCNT, 0, 0, 0, 0, UINET_TCP_INFO, 0, UINET_TCP_CONGESTION,
     UINET_TCP_MD5SIG, 0] @ replicate 15 0"

text \<open>
  Both branches compare the option, an \<^verbatim>\<open>int\<close>, with the size in bytes of
  \<^verbatim>\<open>ud_tcpopts\<close>; a negative option converts to a huge unsigned number and is refused.
\<close>

definition sizeof_ud_tcpopts :: int where
  "sizeof_ud_tcpopts = 4 * int (length ud_tcpopts)"

definition opt_lookup :: "int list \<Rightarrow> int \<Rightarrow> int option res" where
  "opt_lookup tbl opt =
     (if opt < 0 \<or> opt > sizeof_ud_tcpopts then Inr None
      else if nat opt < length tbl
           then Inr (if tbl ! nat opt = 0 then None else Some (tbl ! nat opt))
           else Inl Out_of_bounds)"

text \<open>The result is \<open>None\<close> for \<open>-1\<close>, or the new level and option.\<close>

definition ud_maplevelopt :: "int \<Rightarrow> int \<Rightarrow> (int \<times> int) option res" where
  "ud_maplevelopt level opt =
     (if level = 1 then
        res_bind (opt_lookup ud_soopts opt) (\<lambda>r. Inr (map_option (Pair UINET_SOL_SOCKET) r))
      else if level = 6 then
        res_bind (opt_lookup ud_tcpopts opt) (\<lambda>r. Inr (map_option (Pair UINET_SOL_SOCKET) r))
      else Inr (Some (level, opt)))"

section \<open>Addresses\<close>

definition to_uaddr :: "sockaddr_in \<Rightarrow> uinet_sockaddr_in" where
  "to_uaddr a =
     \<lparr>sin_len = 16, sin_family = ucast (lsin_family a), sin_port = lsin_port a,
      sin_addr = lsin_addr a\<rparr>"

definition from_uaddr :: "uinet_sockaddr_in \<Rightarrow> sockaddr_in" where
  "from_uaddr u =
     \<lparr>lsin_family = ucast (sin_family u), lsin_port = sin_port u, lsin_addr = sin_addr u\<rparr>"

definition mk_uio :: "'b \<Rightarrow> u64 \<Rightarrow> 'b uinet_uio" where
  "mk_uio buf len =
     \<lparr>iov_base = buf, iov_len = len, uio_iovcnt = 1, uio_offset = 0, uio_resid = len\<rparr>"

section \<open>Creating and accepting\<close>

text \<open>Store a new socket under a descriptor, as \<^verbatim>\<open>return ud_fd_set_sock(so)\<close> does.\<close>

definition give_fd :: "('s, 'w) ud_state \<Rightarrow> 's option \<Rightarrow> (int \<times> ('s, 'w) ud_state) res" where
  "give_fd st so =
     res_bind (ud_fd_set_sock (ud_table st) so) (\<lambda>(fd, t). Inr (fd, st\<lparr>ud_table := t\<rparr>))"

definition ud_socket ::
  "('s, 'b, 'w) uinet_ops \<Rightarrow> ('s, 'w) ud_state \<Rightarrow> int \<Rightarrow> int \<Rightarrow> int \<Rightarrow>
     (int \<times> ('s, 'w) ud_state) res" where
  "ud_socket ops st domain type protocol =
     (let ((error, so), w) = uinet_socreate ops domain type 0 (ud_world st);
          st = st\<lparr>ud_world := w\<rparr>
      in if error = 0 then give_fd st so else Inr (error, st))"

text \<open>
  \<^verbatim>\<open>uinet_soaccept\<close> receives the address of the local copy of the parameter
  \<^verbatim>\<open>addr\<close>, so the peer's address it allocates never reaches the caller and is not
  freed; \<^verbatim>\<open>addrlen\<close> is not used.
\<close>

definition ud_accept ::
  "('s, 'b, 'w) uinet_ops \<Rightarrow> ('s, 'w) ud_state \<Rightarrow> int \<Rightarrow> (int \<times> ('s, 'w) ud_state) res" where
  "ud_accept ops st sockfd =
     res_bind (fd_sock st sockfd) (\<lambda>so. case so of
       None \<Rightarrow> Inr (-1, st)
     | Some so \<Rightarrow>
         (let ((error, nam, newso), w) = uinet_soaccept ops so (ud_world st);
              st = st\<lparr>ud_world := w, ud_sa_live := ud_sa_live st + sa_count nam\<rparr>
          in if error = 0 then give_fd st newso else Inr (error, st)))"

section \<open>Naming and connecting\<close>

definition ud_bind ::
  "('s, 'b, 'w) uinet_ops \<Rightarrow> ('s, 'w) ud_state \<Rightarrow> int \<Rightarrow> sockaddr_in option \<Rightarrow>
     (int \<times> ('s, 'w) ud_state) res" where
  "ud_bind ops st sockfd addr =
     res_bind (fd_sock st sockfd) (\<lambda>so.
     res_bind (deref addr) (\<lambda>iaddr.
       let uaddr = to_uaddr iaddr in
       case so of
         Some so \<Rightarrow>
           (let (r, w) = uinet_sobind ops so uaddr (ud_world st) in Inr (r, st\<lparr>ud_world := w\<rparr>))
       | None \<Rightarrow> Inr (-1, st)))"

definition ud_connect ::
  "('s, 'b, 'w) uinet_ops \<Rightarrow> ('s, 'w) ud_state \<Rightarrow> int \<Rightarrow> sockaddr_in option \<Rightarrow>
     (int \<times> ('s, 'w) ud_state) res" where
  "ud_connect ops st sockfd addr =
     res_bind (fd_sock st sockfd) (\<lambda>so. case so of
       None \<Rightarrow> Inr (-1, st\<lparr>ud_errno := EBADF\<rparr>)
     | Some so \<Rightarrow>
         res_bind (deref addr) (\<lambda>iaddr.
           let (r, w) = uinet_soconnect ops so (to_uaddr iaddr) (ud_world st)
           in Inr (r, st\<lparr>ud_world := w\<rparr>)))"

definition ud_listen ::
  "('s, 'b, 'w) uinet_ops \<Rightarrow> ('s, 'w) ud_state \<Rightarrow> int \<Rightarrow> int \<Rightarrow> (int \<times> ('s, 'w) ud_state) res" where
  "ud_listen ops st sockfd backlog =
     res_bind (fd_sock st sockfd) (\<lambda>so. case so of
       None \<Rightarrow> Inr (-1, st\<lparr>ud_errno := EBADF\<rparr>)
     | Some so \<Rightarrow>
         (let (r, w) = uinet_solisten ops so backlog (ud_world st)
          in Inr (r, st\<lparr>ud_world := w\<rparr>)))"

section \<open>Receiving and sending\<close>

text \<open>The path \<^verbatim>\<open>ud_set_errno(e); goto ERR\<close>.\<close>

definition fail_with :: "int \<Rightarrow> ('s, 'w) ud_state \<Rightarrow> ('s, 'w) ud_state res" where
  "fail_with e st = res_bind (ud_set_errno e (ud_errno st)) (\<lambda>en. Inr (st\<lparr>ud_errno := en\<rparr>))"

text \<open>
  The caller's \<^verbatim>\<open>from\<close> and \<^verbatim>\<open>fromlen\<close> are pointers: \<open>None\<close> when null, otherwise what they
  point to. The result is the byte count or \<open>-1\<close>, and the two after the call.
\<close>

definition ud_recvfrom ::
  "('s, 'b, 'w) uinet_ops \<Rightarrow> ('s, 'w) ud_state \<Rightarrow> int \<Rightarrow> 'b \<Rightarrow> u64 \<Rightarrow> u32 \<Rightarrow>
     sockaddr_in option \<Rightarrow> u32 option \<Rightarrow>
     ((u64 \<times> sockaddr_in option \<times> u32 option) \<times> ('s, 'w) ud_state) res" where
  "ud_recvfrom ops st sockfd buf len flags from fromlen =
     res_bind (fd_sock st sockfd) (\<lambda>so. case so of
       None \<Rightarrow> Inr ((-1, from, fromlen), st\<lparr>ud_errno := EBADF\<rparr>)
     | Some so \<Rightarrow>
         (let flags = map_flags flags in
          if flags <s 0 then
            res_bind (fail_with UINET_EINVAL st) (\<lambda>st. Inr ((-1, from, fromlen), st))
          else
            (let ((error, uaddr, uio), w) =
                   uinet_soreceive ops so (mk_uio buf len) flags (ud_world st);
                 st = st\<lparr>ud_world := w, ud_sa_live := ud_sa_live st + sa_count uaddr\<rparr>
             in if error \<noteq> 0 then
                  res_bind (fail_with error st) (\<lambda>st. Inr ((-1, from, fromlen), st))
                else
                  case (from, uaddr) of
                    (Some _, Some u) \<Rightarrow>
                      res_bind (deref fromlen) (\<lambda>_.
                        Inr ((len - uio_resid uio, Some (from_uaddr u), Some 16),
                             st\<lparr>ud_sa_live := ud_sa_live st - 1, ud_errno := 0\<rparr>))
                  | _ \<Rightarrow> Inr ((len - uio_resid uio, from, fromlen), st\<lparr>ud_errno := 0\<rparr>))))"

definition ud_recv ::
  "('s, 'b, 'w) uinet_ops \<Rightarrow> ('s, 'w) ud_state \<Rightarrow> int \<Rightarrow> 'b \<Rightarrow> u64 \<Rightarrow> u32 \<Rightarrow>
     (u64 \<times> ('s, 'w) ud_state) res" where
  "ud_recv ops st sockfd buf len flags =
     res_bind (ud_recvfrom ops st sockfd buf len flags None None) (\<lambda>((r, _, _), st). Inr (r, st))"

text \<open>The common part of \<^verbatim>\<open>ud_send\<close> and \<^verbatim>\<open>ud_sendto\<close>; the descriptor is not checked.\<close>

definition send_common ::
  "('s, 'b, 'w) uinet_ops \<Rightarrow> ('s, 'w) ud_state \<Rightarrow> int \<Rightarrow> 'b \<Rightarrow> u64 \<Rightarrow> u32 \<Rightarrow>
     uinet_sockaddr_in option \<Rightarrow> (u64 \<times> ('s, 'w) ud_state) res" where
  "send_common ops st sockfd buf len flags uaddr =
     (let flags = map_flags flags in
      if flags <s 0 then res_bind (fail_with UINET_EINVAL st) (\<lambda>st. Inr (-1, st))
      else
        res_bind (fd_sock st sockfd) (\<lambda>so.
        res_bind (deref so) (\<lambda>so.
          let ((error, uio), w) = uinet_sosend ops so uaddr (mk_uio buf len) flags (ud_world st);
              st = st\<lparr>ud_world := w\<rparr>
          in if error \<noteq> 0 then res_bind (fail_with error st) (\<lambda>st. Inr (-1, st))
             else Inr (len - uio_resid uio, st\<lparr>ud_errno := 0\<rparr>))))"

definition ud_send ::
  "('s, 'b, 'w) uinet_ops \<Rightarrow> ('s, 'w) ud_state \<Rightarrow> int \<Rightarrow> 'b \<Rightarrow> u64 \<Rightarrow> u32 \<Rightarrow>
     (u64 \<times> ('s, 'w) ud_state) res" where
  "ud_send ops st sockfd buf len flags = send_common ops st sockfd buf len flags None"

definition ud_sendto ::
  "('s, 'b, 'w) uinet_ops \<Rightarrow> ('s, 'w) ud_state \<Rightarrow> int \<Rightarrow> 'b \<Rightarrow> u64 \<Rightarrow> u32 \<Rightarrow>
     sockaddr_in option \<Rightarrow> (u64 \<times> ('s, 'w) ud_state) res" where
  "ud_sendto ops st sockfd buf len flags addr =
     res_bind (deref addr) (\<lambda>iaddr.
       send_common ops st sockfd buf len flags (Some (to_uaddr iaddr)))"

text \<open>Bodies without a \<^verbatim>\<open>return\<close> statement.\<close>

definition ud_recvmsg :: "int \<Rightarrow> u64 res" where
  "ud_recvmsg sockfd = Inl No_return_value"

definition ud_sendmsg :: "int \<Rightarrow> u64 res" where
  "ud_sendmsg sockfd = Inl No_return_value"

section \<open>Socket options\<close>

definition ud_setsockopt ::
  "('s, 'b, 'w) uinet_ops \<Rightarrow> ('s, 'w) ud_state \<Rightarrow> int \<Rightarrow> int \<Rightarrow> int \<Rightarrow> 'b \<Rightarrow> u32 \<Rightarrow>
     (int \<times> ('s, 'w) ud_state) res" where
  "ud_setsockopt ops st sockfd level optname optval optlen =
     res_bind (fd_sock st sockfd) (\<lambda>so. case so of
       None \<Rightarrow> Inr (-1, st\<lparr>ud_errno := EBADF\<rparr>)
     | Some so \<Rightarrow>
         res_bind (ud_maplevelopt level optname) (\<lambda>m. case m of
           None \<Rightarrow> Inr (-1, st)
         | Some (level, optname) \<Rightarrow>
             (let (error, w) = uinet_sosetsockopt ops so level optname optval optlen (ud_world st);
                  st = st\<lparr>ud_world := w\<rparr>
              in if error \<noteq> 0
                 then res_bind (fail_with UINET_EINVAL st) (\<lambda>st. Inr (-1, st))
                 else Inr (error, st))))"

text \<open>\<^verbatim>\<open>uinet_sogetsockopt\<close> reads \<^verbatim>\<open>*optlen\<close> before anything else.\<close>

definition ud_getsockopt ::
  "('s, 'b, 'w) uinet_ops \<Rightarrow> ('s, 'w) ud_state \<Rightarrow> int \<Rightarrow> int \<Rightarrow> int \<Rightarrow> 'b \<Rightarrow> u32 option \<Rightarrow>
     ((int \<times> u32 option) \<times> ('s, 'w) ud_state) res" where
  "ud_getsockopt ops st sockfd level optname optval optlen =
     res_bind (fd_sock st sockfd) (\<lambda>so. case so of
       None \<Rightarrow> Inr ((-1, optlen), st\<lparr>ud_errno := EBADF\<rparr>)
     | Some so \<Rightarrow>
         res_bind (ud_maplevelopt level optname) (\<lambda>m. case m of
           None \<Rightarrow> Inr ((-1, optlen), st)
         | Some (level, optname) \<Rightarrow>
             res_bind (deref optlen) (\<lambda>l.
               let ((error, l), w) =
                     uinet_sogetsockopt ops so level optname optval l (ud_world st);
                   st = st\<lparr>ud_world := w\<rparr>
               in if error \<noteq> 0
                  then res_bind (fail_with UINET_EINVAL st) (\<lambda>st. Inr ((-1, Some l), st))
                  else Inr ((error, Some l), st))))"

definition ud_shutdown :: "int \<Rightarrow> int \<Rightarrow> int" where
  "ud_shutdown sockfd how = -1"

section \<open>Names of a socket\<close>

text \<open>
  \<^verbatim>\<open>ud_getpeername\<close> calls \<^verbatim>\<open>uinet_sogetsockaddr\<close>, the operation for the local address,
  and assigns to its copy of the parameter \<^verbatim>\<open>addrlen\<close>, which the caller does not see.
\<close>

definition ud_getpeername ::
  "('s, 'b, 'w) uinet_ops \<Rightarrow> ('s, 'w) ud_state \<Rightarrow> int \<Rightarrow> sockaddr_in option \<Rightarrow> u32 option \<Rightarrow>
     ((int \<times> sockaddr_in option \<times> u32 option) \<times> ('s, 'w) ud_state) res" where
  "ud_getpeername ops st sockfd addr addrlen =
     res_bind (fd_sock st sockfd) (\<lambda>so. case so of
       None \<Rightarrow> Inr ((-1, addr, addrlen), st\<lparr>ud_errno := EBADF\<rparr>)
     | Some so \<Rightarrow>
         (let ((error, uaddr), w) = uinet_sogetsockaddr ops so (ud_world st);
              st = st\<lparr>ud_world := w, ud_sa_live := ud_sa_live st + sa_count uaddr\<rparr>
          in if error \<noteq> 0 then Inr ((-1, addr, addrlen), st)
             else case (addr, uaddr) of
                    (Some _, Some u) \<Rightarrow>
                      Inr ((0, Some (from_uaddr u), addrlen),
                           st\<lparr>ud_sa_live := ud_sa_live st - 1\<rparr>)
                  | _ \<Rightarrow> Inr ((0, addr, addrlen), st)))"

definition ud_getsockname ::
  "('s, 'b, 'w) uinet_ops \<Rightarrow> ('s, 'w) ud_state \<Rightarrow> int \<Rightarrow> sockaddr_in option \<Rightarrow> u32 option \<Rightarrow>
     ((int \<times> sockaddr_in option \<times> u32 option) \<times> ('s, 'w) ud_state) res" where
  "ud_getsockname ops st sockfd addr addrlen =
     res_bind (fd_sock st sockfd) (\<lambda>so. case so of
       None \<Rightarrow> Inr ((-1, addr, addrlen), st\<lparr>ud_errno := EBADF\<rparr>)
     | Some so \<Rightarrow>
         (let ((error, uaddr), w) = uinet_sogetsockaddr ops so (ud_world st);
              st = st\<lparr>ud_world := w, ud_sa_live := ud_sa_live st + sa_count uaddr\<rparr>
          in if error \<noteq> 0 then Inr ((-1, addr, addrlen), st)
             else case (addr, uaddr) of
                    (Some _, Some u) \<Rightarrow>
                      res_bind (deref addrlen) (\<lambda>_.
                        Inr ((0, Some (from_uaddr u), Some 16),
                             st\<lparr>ud_sa_live := ud_sa_live st - 1\<rparr>))
                  | _ \<Rightarrow> Inr ((0, addr, addrlen), st)))"

section \<open>The calls of ud\_unistd.c\<close>

definition ud_write ::
  "('s, 'b, 'w) uinet_ops \<Rightarrow> ('s, 'w) ud_state \<Rightarrow> int \<Rightarrow> 'b \<Rightarrow> u64 \<Rightarrow> (u64 \<times> ('s, 'w) ud_state) res" where
  "ud_write ops st fd buf count = ud_send ops st fd buf count 0"

definition ud_read ::
  "('s, 'b, 'w) uinet_ops \<Rightarrow> ('s, 'w) ud_state \<Rightarrow> int \<Rightarrow> 'b \<Rightarrow> u64 \<Rightarrow> (u64 \<times> ('s, 'w) ud_state) res" where
  "ud_read ops st fd buf count =
     res_bind (ud_recvfrom ops st fd buf count 0 None None) (\<lambda>((r, _, _), st). Inr (r, st))"

definition ud_fcntl ::
  "('s, 'b, 'w) uinet_ops \<Rightarrow> ('s, 'w) ud_state \<Rightarrow> int \<Rightarrow> int \<Rightarrow> (int \<times> ('s, 'w) ud_state) res" where
  "ud_fcntl ops st fd cmd =
     res_bind (fd_sock st fd) (\<lambda>so. case so of
       None \<Rightarrow> Inr (-1, st\<lparr>ud_errno := EBADF\<rparr>)
     | Some so \<Rightarrow>
         Inr (-1, st\<lparr>ud_world := uinet_sosetnonblocking ops so 1 (ud_world st)\<rparr>))"

definition ud_close ::
  "('s, 'b, 'w) uinet_ops \<Rightarrow> ('s, 'w) ud_state \<Rightarrow> int \<Rightarrow> (int \<times> ('s, 'w) ud_state) res" where
  "ud_close ops st sockfd =
     res_bind (fd_sock st sockfd) (\<lambda>so.
     res_bind (ud_fd_free (ud_table st) sockfd) (\<lambda>t.
     res_bind (deref so) (\<lambda>so.
       let (r, w) = uinet_soclose ops so (ud_world st)
       in Inr (r, st\<lparr>ud_table := t, ud_world := w\<rparr>))))"

section \<open>Translations\<close>

lemma bit_MSG_DONTWAIT: "bit MSG_DONTWAIT n \<longleftrightarrow> n = 6"
proof -
  have eq: "MSG_DONTWAIT = 2 ^ 6" by (simp add: MSG_DONTWAIT_def)
  show ?thesis unfolding eq bit_exp_iff by auto
qed

lemma map_flags_cases:
  assumes "f AND MSG_DONTWAIT \<noteq> 0" and "f AND NOT MSG_DONTWAIT = 0"
  shows "f = MSG_DONTWAIT"
proof (rule bit_word_eqI)
  fix n
  assume n: "n < LENGTH(32)"
  have "bit f 6"
  proof (rule ccontr)
    assume "\<not> bit f 6"
    then have "f AND MSG_DONTWAIT = 0"
      by (intro bit_word_eqI) (auto simp: bit_simps bit_MSG_DONTWAIT)
    with assms(1) show False by simp
  qed
  moreover have "bit f n \<Longrightarrow> n = 6"
    using arg_cong [OF assms(2), of "\<lambda>w. bit w n"] n by (auto simp: bit_simps bit_MSG_DONTWAIT)
  ultimately show "bit f n = bit MSG_DONTWAIT n" by (auto simp: bit_MSG_DONTWAIT)
qed

lemma MSG_DONTWAIT_and [simp]:
  "MSG_DONTWAIT AND MSG_DONTWAIT \<noteq> 0" "MSG_DONTWAIT AND NOT MSG_DONTWAIT = 0"
  by (simp_all add: MSG_DONTWAIT_def)

lemma map_flags_eq:
  "map_flags f = (if f = 0 then 0 else if f = MSG_DONTWAIT then UINET_MSG_DONTWAIT else -1)"
  using map_flags_cases [of f] by (auto simp: map_flags_def Let_def)

lemma map_flags_good: "f = 0 \<or> f = MSG_DONTWAIT \<Longrightarrow> \<not> map_flags f <s 0"
  by (auto simp: map_flags_eq UINET_MSG_DONTWAIT_def word_sless_alt)

text \<open>
  \<^verbatim>\<open>map_flags\<close> accepts exactly two flag words: none, and \<^verbatim>\<open>MSG_DONTWAIT\<close> alone, which
  becomes the stack's \<^verbatim>\<open>UINET_MSG_DONTWAIT\<close>; everything else is refused with \<open>-1\<close>.
\<close>

theorem map_flags_spec:
  "map_flags f = (if f = 0 then 0 else if f = MSG_DONTWAIT then UINET_MSG_DONTWAIT else -1)"
  by (rule map_flags_eq)

lemma length_opts [simp]: "length ud_soopts = 30" "length ud_tcpopts = 31"
  by (simp_all add: ud_soopts_def ud_tcpopts_def)

lemma sizeof_ud_tcpopts_eq [simp]: "sizeof_ud_tcpopts = 124"
  by (simp add: sizeof_ud_tcpopts_def)

text \<open>
  What \<^verbatim>\<open>ud_maplevelopt\<close> makes of a socket option (level 1) and of a TCP option
  (level 6). The bound it checks is the size of the TCP table in bytes: an option number
  from the end of the table up to 124 is read past its end. Both levels are mapped to
  \<^verbatim>\<open>UINET_SOL_SOCKET\<close>.
\<close>

theorem ud_maplevelopt_spec:
  "(ud_maplevelopt 1 opt =
     (if opt < 0 \<or> 124 < opt then Inr None
      else if 30 \<le> opt then Inl Out_of_bounds
      else if ud_soopts ! nat opt = 0 then Inr None
      else Inr (Some (UINET_SOL_SOCKET, ud_soopts ! nat opt)))) \<and>
   (ud_maplevelopt 6 opt =
     (if opt < 0 \<or> 124 < opt then Inr None
      else if 31 \<le> opt then Inl Out_of_bounds
      else if ud_tcpopts ! nat opt = 0 then Inr None
      else Inr (Some (UINET_SOL_SOCKET, ud_tcpopts ! nat opt))))"
  by (auto simp: ud_maplevelopt_def opt_lookup_def)

text \<open>
  A TCP option therefore reaches the stack as a socket option: setting
  \<^verbatim>\<open>TCP_NODELAY\<close> (level 6, option 1) is setting \<^verbatim>\<open>SO_DEBUG\<close> (level 1, option 1), in every
  state and for every stack.
\<close>

theorem tcp_nodelay_is_so_debug:
  "ud_setsockopt ops st fd 6 1 optval optlen = ud_setsockopt ops st fd 1 1 optval optlen"
proof -
  have "ud_maplevelopt 6 1 = ud_maplevelopt 1 1"
    by (simp add: ud_maplevelopt_def opt_lookup_def ud_soopts_def ud_tcpopts_def)
  then show ?thesis unfolding ud_setsockopt_def by (rule ssubst) (rule refl)
qed

lemma ucast_u8_u16: "(x :: u16) < 256 \<Longrightarrow> ucast (ucast x :: u8) = x"
  by (simp add: word_eq_iff_unsigned unsigned_ucast_eq take_bit_eq_mod mod_word_less)

text \<open>
  Translating an address to the stack's form and back gives the address again, for
  every address family that fits the stack's one-byte field.
\<close>

theorem uaddr_roundtrip: "lsin_family a < 256 \<Longrightarrow> from_uaddr (to_uaddr a) = a"
  by (simp add: from_uaddr_def to_uaddr_def ucast_u8_u16)

theorem uaddr_roundtrip_witness:
  "from_uaddr (to_uaddr \<lparr>lsin_family = 2, lsin_port = 80, lsin_addr = 0x0100007f\<rparr>) =
     \<lparr>lsin_family = 2, lsin_port = 80, lsin_addr = 0x0100007f\<rparr>"
  by (rule uaddr_roundtrip) simp

section \<open>A small stack for the witnesses\<close>

text \<open>
  The stack as a concrete function, used only to show that the hypotheses of the properties
  below can hold: every socket is the number 7, a datagram from a fixed address is always
  waiting, and a send takes ten bytes.
\<close>

definition tiny_addr :: uinet_sockaddr_in where
  "tiny_addr = \<lparr>sin_len = 16, sin_family = 2, sin_port = 80, sin_addr = 1\<rparr>"

definition tiny_ops :: "(nat, unit, unit) uinet_ops" where
  "tiny_ops =
     \<lparr>uinet_socreate = \<lambda>dom type proto w. (if dom = 2 then (0, Some 7) else (UINET_EAFNOSUPPORT, None), w),
      uinet_soaccept = \<lambda>so w. ((0, Some tiny_addr, Some 7), w),
      uinet_sobind = \<lambda>so a w. (0, w),
      uinet_soconnect = \<lambda>so a w. (UINET_ECONNREFUSED, w),
      uinet_soreceive = \<lambda>so uio flags w. ((0, Some tiny_addr, uio\<lparr>uio_resid := 0\<rparr>), w),
      uinet_solisten = \<lambda>so n w. (0, w),
      uinet_sosend = \<lambda>so a uio flags w.
        (if uio_resid uio < 10 then (0, uio\<lparr>uio_resid := 0\<rparr>) else (0, uio\<lparr>uio_resid := uio_resid uio - 10\<rparr>), w),
      uinet_sosetsockopt = \<lambda>so l n v len w. (0, w),
      uinet_sogetsockopt = \<lambda>so l n v len w. ((0, len), w),
      uinet_sogetsockaddr = \<lambda>so w. ((0, Some tiny_addr), w),
      uinet_soreadable = \<lambda>so u w. (if so = 7 then 1 else 0, w),
      uinet_sowritable = \<lambda>so u w. (0, w),
      uinet_sosetnonblocking = \<lambda>so n w. w,
      uinet_soclose = \<lambda>so w. (0, w)\<rparr>"

text \<open>Socket 7 under descriptor 3, socket 8 under descriptor 4.\<close>

definition tiny_state :: "(nat, unit) ud_state" where
  "tiny_state =
     \<lparr>ud_table = Some \<lparr>tbl_num = 0, tbl_fds = (\<lambda>_. None)(3 := Some 7, 4 := Some 8)\<rparr>,
      ud_errno = 0, ud_sa_live = 0, ud_world = ()\<rparr>"

lemma tiny_fds [simp]:
  "fd_sock tiny_state 3 = Inr (Some 7)" "fd_sock tiny_state 4 = Inr (Some 8)"
  "fd_sock tiny_state 5 = Inr None"
  by (simp_all add: fd_sock_def tiny_state_def fd_simps fd_in_range_def UD_SOCKET_DESC_MAX_def)

lemma tiny_ops_simps [simp]:
  "uinet_socreate tiny_ops 10 type proto w = ((UINET_EAFNOSUPPORT, None), w)"
  "uinet_soreceive tiny_ops so uio flags w = ((0, Some tiny_addr, uio\<lparr>uio_resid := 0\<rparr>), w)"
  "10 \<le> uio_resid uio \<Longrightarrow>
    uinet_sosend tiny_ops so a uio flags w = ((0, uio\<lparr>uio_resid := uio_resid uio - 10\<rparr>), w)"
  "uinet_soreadable tiny_ops so u w = (if so = 7 then 1 else 0, w)"
  "uinet_sowritable tiny_ops so u w = (0, w)"
  by (simp_all add: tiny_ops_def)

lemma tiny_state_simps [simp]: "ud_sa_live tiny_state = 0" "ud_errno tiny_state = 0"
  by (simp_all add: tiny_state_def)

section \<open>The calls\<close>

text \<open>
  A successful receive stores the sender's address and its length when the caller gave
  room for them, returns the number of bytes the stack consumed from the buffer, clears
  \<^verbatim>\<open>errno\<close>, and leaves the number of live socket addresses unchanged; when the caller gave
  no room for the address, the address the stack allocated is leaked.
\<close>

theorem ud_recvfrom_success:
  assumes "fd_sock st fd = Inr (Some so)"
    and "flags = 0 \<or> flags = MSG_DONTWAIT"
    and "uinet_soreceive ops so (mk_uio buf len) (map_flags flags) (ud_world st) = ((0, uaddr, uio), w)"
    and "from = None \<longleftrightarrow> fromlen = None"
  shows "ud_recvfrom ops st fd buf len flags from fromlen =
    Inr ((len - uio_resid uio,
          (if from = None then None else case uaddr of None \<Rightarrow> from | Some u \<Rightarrow> Some (from_uaddr u)),
          (if from = None then None else case uaddr of None \<Rightarrow> fromlen | Some u \<Rightarrow> Some 16)),
         st\<lparr>ud_errno := 0, ud_world := w,
            ud_sa_live := ud_sa_live st + (if from = None then sa_count uaddr else 0)\<rparr>)"
proof -
  from assms(2) have "\<not> map_flags flags <s 0" by (rule map_flags_good)
  with assms show ?thesis
    by (cases "from"; cases uaddr; cases fromlen)
      (simp_all add: ud_recvfrom_def sa_count_def Let_def)
qed

theorem ud_recvfrom_success_witness:
  "\<exists>st'. ud_recvfrom tiny_ops tiny_state 3 () 100 0 None None = Inr ((100, None, None), st') \<and>
     ud_sa_live st' = 1"
  using ud_recvfrom_success [of tiny_state 3 7 0 tiny_ops "()" 100 "Some tiny_addr"
      "(mk_uio () 100)\<lparr>uio_resid := 0\<rparr>" "()" None None]
  by (simp add: sa_count_def)

text \<open>
  A send through a descriptor that names a socket returns the number of bytes the stack
  took, at most the number offered, and clears \<^verbatim>\<open>errno\<close>, whenever the stack accepts the
  data and reports no more bytes left than it was given.
\<close>

theorem ud_send_success:
  assumes "fd_sock st fd = Inr (Some so)"
    and "flags = 0 \<or> flags = MSG_DONTWAIT"
    and "uinet_sosend ops so None (mk_uio buf len) (map_flags flags) (ud_world st) = ((0, uio), w)"
    and "uio_resid uio \<le> len"
  shows "ud_send ops st fd buf len flags =
      Inr (len - uio_resid uio, st\<lparr>ud_errno := 0, ud_world := w\<rparr>) \<and>
    unat (len - uio_resid uio) = unat len - unat (uio_resid uio)"
proof -
  from assms(2) have "\<not> map_flags flags <s 0" by (rule map_flags_good)
  with assms show ?thesis
    by (simp add: ud_send_def send_common_def Let_def unat_sub)
qed

theorem ud_send_success_witness:
  "\<exists>st'. ud_send tiny_ops tiny_state 3 () 25 0 = Inr (10, st') \<and> ud_errno st' = 0"
  using ud_send_success [of tiny_state 3 7 0 tiny_ops "()" 25 "(mk_uio () 25)\<lparr>uio_resid := 15\<rparr>" "()"]
  by (simp add: mk_uio_def)

text \<open>
  Every call that looks its descriptor up and checks it fails with \<open>-1\<close> on a descriptor
  in range that names no socket, setting \<^verbatim>\<open>EBADF\<close>. \<^verbatim>\<open>ud_send\<close>, \<^verbatim>\<open>ud_write\<close> and
  \<^verbatim>\<open>ud_close\<close> do not check: they hand the null pointer to the stack, which dereferences it.
\<close>

theorem bad_descriptor:
  assumes "fd_sock st fd = Inr None"
  shows "ud_connect ops st fd addr = Inr (-1, st\<lparr>ud_errno := EBADF\<rparr>) \<and>
    ud_listen ops st fd backlog = Inr (-1, st\<lparr>ud_errno := EBADF\<rparr>) \<and>
    ud_setsockopt ops st fd level opt v l = Inr (-1, st\<lparr>ud_errno := EBADF\<rparr>) \<and>
    ud_recv ops st fd buf len flags = Inr (-1, st\<lparr>ud_errno := EBADF\<rparr>) \<and>
    ud_fcntl ops st fd cmd = Inr (-1, st\<lparr>ud_errno := EBADF\<rparr>) \<and>
    ud_send ops st fd buf len 0 = Inl Null_deref \<and>
    ud_write ops st fd buf len = Inl Null_deref \<and>
    ud_close ops st fd = Inl Null_deref"
proof -
  obtain t where "ud_table st = Some t" and "fd_in_range fd"
    using assms by (auto simp: fd_sock_def ud_fd_get_sock_def split: if_splits)
  moreover have "\<not> map_flags 0 <s 0" by (rule map_flags_good) simp
  ultimately show ?thesis
    using assms
    by (simp add: ud_connect_def ud_listen_def ud_setsockopt_def ud_recv_def ud_recvfrom_def
        ud_fcntl_def ud_write_def ud_send_def send_common_def ud_close_def ud_fd_free_def fd_simps)
qed

theorem bad_descriptor_witness:
  "ud_send tiny_ops tiny_state 5 () 1 0 = Inl Null_deref \<and>
   ud_listen tiny_ops tiny_state 5 1 = Inr (-1, tiny_state\<lparr>ud_errno := EBADF\<rparr>)"
  using bad_descriptor [of tiny_state 5 tiny_ops] by simp

text \<open>
  \<^verbatim>\<open>ud_getpeername\<close> answers with the socket's own address: with room for the address
  and its length, it returns the same code, address and final state as
  \<^verbatim>\<open>ud_getsockname\<close>; only the length it should have set is left as it was.
\<close>

theorem ud_getpeername_is_getsockname:
  "ud_getpeername ops st fd (Some a) (Some l) =
     res_bind (ud_getsockname ops st fd (Some a) (Some l)) (\<lambda>((r, a', _), st'). Inr ((r, a', Some l), st'))"
  by (auto simp: ud_getpeername_def ud_getsockname_def res_bind_def Let_def
      split: sum.splits option.splits prod.splits)

text \<open>
  When the stack refuses to create a socket, \<^verbatim>\<open>ud_socket\<close> returns the stack's positive
  error number, and \<^verbatim>\<open>ud_accept\<close> likewise: \<^verbatim>\<open>errno\<close> and the table are unchanged, and the
  caller sees a number that some state returns as a good descriptor.
\<close>

theorem ud_socket_error_is_a_descriptor:
  assumes "uinet_socreate ops domain type 0 (ud_world st) = ((e, so), w)"
    and "0 < e" and "e < int UD_SOCKET_DESC_MAX"
  shows "ud_socket ops st domain type protocol = Inr (e, st\<lparr>ud_world := w\<rparr>) \<and>
    (\<exists>t t'. ud_fd_set_sock (Some t) (Some s) = Inr (e, Some t') \<and>
       ud_fd_get_sock (Some t') e = Inr (Some s))"
proof -
  let ?f = "\<lambda>i. if int i < e then Some s else None"
  let ?t = "\<lparr>tbl_num = 0, tbl_fds = ?f\<rparr>"
  have "?f (nat e) = None" "1 \<le> nat e" "nat e < UD_SOCKET_DESC_MAX"
    using assms(2,3) by auto
  then have nf: "\<not> fd_full ?f" unfolding fd_full_def by blast
  have "\<not> fd_scan ?f (Suc 0) < nat e"
    using fd_scan_free [of ?f "Suc 0"] fd_scan_lt [OF nf] by (auto split: if_splits)
  moreover have "\<not> nat e < fd_scan ?f (Suc 0)"
    using fd_scan_skips [of "Suc 0" "nat e" ?f] \<open>1 \<le> nat e\<close> assms(2) by auto
  ultimately have "int (fd_scan ?f (Suc 0)) = e"
    using assms(2) by linarith
  then have "\<exists>t'. ud_fd_set_sock (Some ?t) (Some s) = Inr (e, Some t') \<and>
      ud_fd_get_sock (Some t') e = Inr (Some s)"
    using nf assms(2,3) ud_fd_set_sock_room [of ?t "Some s"]
    by (auto simp: fd_simps fd_in_range_def)
  then show ?thesis
    using assms(1,2) by (auto simp: ud_socket_def)
qed

theorem ud_socket_error_is_a_descriptor_witness:
  "ud_socket tiny_ops tiny_state 10 1 0 = Inr (47, tiny_state\<lparr>ud_world := ()\<rparr>)"
  using ud_socket_error_is_a_descriptor [of tiny_ops 10 1 tiny_state 47 None "()" 0 "7 :: nat"]
  by (simp add: UD_SOCKET_DESC_MAX_def)

end
