(* ===== verification/Ud_Select.thy ===== *)
theory Ud_Select
  imports Ud_Socket "HOL-Library.While_Combinator"
begin

text \<open>
  \<^verbatim>\<open>ud_select\<close>, \<^verbatim>\<open>src/lib/libudsock/ud_select.c\<close>: a polling implementation of
  \<^verbatim>\<open>select\<close>. It scans the requested descriptors, and scans again for ever when no timeout
  is given, or once more after sleeping for the timeout. The scan is a recursion over the
  descriptors; the restarts are a \<^const>\<open>while_option\<close> loop, whose value \<open>None\<close> means that
  the call does not return.
\<close>

section \<open>Descriptor sets\<close>

type_synonym fd_set = "nat \<Rightarrow> bool"

definition FD_SETSIZE :: nat where "FD_SETSIZE = 1024"

definition FD_ISSET :: "nat \<Rightarrow> fd_set \<Rightarrow> bool res" where
  "FD_ISSET i s = (if i < FD_SETSIZE then Inr (s i) else Inl Out_of_bounds)"

definition FD_ZERO :: fd_set where "FD_ZERO = (\<lambda>_. False)"

definition FD_SET :: "nat \<Rightarrow> fd_set \<Rightarrow> fd_set" where "FD_SET i s = s(i := True)"

section \<open>One scan\<close>

text \<open>
  One of the two halves of the loop body, for the operation \<open>opn\<close> that asks the stack
  whether a socket is ready: \<open>None\<close> is the jump to \<^verbatim>\<open>ERR\<close> with \<^verbatim>\<open>EBADF\<close>.
\<close>

definition select_half ::
  "('s \<Rightarrow> int \<Rightarrow> 'w \<Rightarrow> int \<times> 'w) \<Rightarrow> fd_set option \<Rightarrow> nat \<Rightarrow> ('s, 'w) ud_state \<Rightarrow>
     (bool option \<times> ('s, 'w) ud_state) res" where
  "select_half opn fds i st =
     (case fds of
        None \<Rightarrow> Inr (Some False, st)
      | Some s \<Rightarrow>
          res_bind (FD_ISSET i s) (\<lambda>b.
            if \<not> b then Inr (Some False, st)
            else res_bind (fd_sock st (int i)) (\<lambda>so. case so of
                   None \<Rightarrow> Inr (None, st\<lparr>ud_errno := EBADF\<rparr>)
                 | Some so \<Rightarrow>
                     (let (r, w) = opn so 0 (ud_world st)
                      in Inr (Some (r > 0), st\<lparr>ud_world := w\<rparr>)))))"

text \<open>The accumulator is \<^verbatim>\<open>retval\<close>, \<^verbatim>\<open>res_read\<close> and \<^verbatim>\<open>res_write\<close>.\<close>

type_synonym select_acc = "nat \<times> fd_set \<times> fd_set"

definition acc_read :: "nat \<Rightarrow> bool \<Rightarrow> select_acc \<Rightarrow> select_acc" where
  "acc_read i b acc = (case acc of (n, rr, rw) \<Rightarrow> if b then (Suc n, FD_SET i rr, rw) else acc)"

definition acc_write :: "nat \<Rightarrow> bool \<Rightarrow> select_acc \<Rightarrow> select_acc" where
  "acc_write i b acc = (case acc of (n, rr, rw) \<Rightarrow> if b then (Suc n, rr, FD_SET i rw) else acc)"

fun select_scan ::
  "('s, 'b, 'w) uinet_ops \<Rightarrow> fd_set option \<Rightarrow> fd_set option \<Rightarrow> nat list \<Rightarrow> select_acc \<Rightarrow>
     ('s, 'w) ud_state \<Rightarrow> (select_acc option \<times> ('s, 'w) ud_state) res" where
  "select_scan ops readfds writefds [] acc st = Inr (Some acc, st)"
| "select_scan ops readfds writefds (i # is) acc st =
     res_bind (select_half (uinet_soreadable ops) readfds i st) (\<lambda>(r, st). case r of
       None \<Rightarrow> Inr (None, st)
     | Some br \<Rightarrow>
         res_bind (select_half (uinet_sowritable ops) writefds i st) (\<lambda>(r, st). case r of
           None \<Rightarrow> Inr (None, st)
         | Some bw \<Rightarrow>
             select_scan ops readfds writefds is (acc_write i bw (acc_read i br acc)) st))"

section \<open>The call\<close>

text \<open>
  \<open>nanosleep\<close> is the host's \<^verbatim>\<open>clock_nanosleep\<close> on the given timeout. The result is the
  return value and the caller's sets after the call; \<^verbatim>\<open>exceptfds\<close> is not used.
\<close>

type_synonym timeval = "int \<times> int"

type_synonym ('s, 'w) select_result =
  "((int \<times> fd_set option \<times> fd_set option) \<times> ('s, 'w) ud_state) res"

text \<open>
  One pass from the label \<^verbatim>\<open>RESTART\<close>, with \<^verbatim>\<open>restarted\<close>, the accumulator and the state:
  \<open>Inl\<close> is a return, \<open>Inr\<close> a jump back to the label.
\<close>

type_synonym ('s, 'w) select_cfg = "bool \<times> select_acc \<times> ('s, 'w) ud_state"

definition select_pass ::
  "('s, 'b, 'w) uinet_ops \<Rightarrow> (timeval \<Rightarrow> 'w \<Rightarrow> int \<times> 'w) \<Rightarrow> int \<Rightarrow> fd_set option \<Rightarrow>
     fd_set option \<Rightarrow> timeval option \<Rightarrow> ('s, 'w) select_cfg \<Rightarrow>
     ('s, 'w) select_result + ('s, 'w) select_cfg" where
  "select_pass ops nanosleep nfds readfds writefds timeout cfg =
     (case cfg of (restarted, acc, st) \<Rightarrow>
      case select_scan ops readfds writefds [0..<nat nfds] acc st of
        Inl e \<Rightarrow> Inl (Inl e)
      | Inr (None, st) \<Rightarrow> Inl (Inr ((-1, readfds, writefds), st))
      | Inr (Some (n, rr, rw), st) \<Rightarrow>
          if n = 0 then
            (case timeout of
               None \<Rightarrow> Inr (restarted, (n, rr, rw), st)
             | Some (tv_sec, tv_usec) \<Rightarrow>
                 if \<not> restarted \<and> (tv_sec \<noteq> 0 \<or> tv_usec \<noteq> 0) then
                   (case nanosleep (tv_sec, tv_usec) (ud_world st) of (r, w) \<Rightarrow>
                      if r \<noteq> 0 then Inl (Inr ((-1, readfds, writefds), st\<lparr>ud_world := w\<rparr>))
                      else Inr (True, (n, rr, rw), st\<lparr>ud_world := w\<rparr>))
                 else Inl (Inr ((0, readfds, writefds), st)))
          else
            (case (readfds, writefds) of
               (Some _, Some _) \<Rightarrow> Inl (Inr ((int n, Some rr, Some rw), st))
             | _ \<Rightarrow> Inl (Inl Null_deref)))"

definition ud_select ::
  "('s, 'b, 'w) uinet_ops \<Rightarrow> (timeval \<Rightarrow> 'w \<Rightarrow> int \<times> 'w) \<Rightarrow> ('s, 'w) ud_state \<Rightarrow> int \<Rightarrow>
     fd_set option \<Rightarrow> fd_set option \<Rightarrow> timeval option \<Rightarrow> ('s, 'w) select_result option" where
  "ud_select ops nanosleep st nfds readfds writefds timeout =
     map_option projl
       (while_option (\<lambda>x. \<not> isl x)
          (\<lambda>x. select_pass ops nanosleep nfds readfds writefds timeout (projr x))
          (Inr (False, (0, FD_ZERO, FD_ZERO), st)))"

section \<open>What a scan computes\<close>

text \<open>The counter counts the bits of the two result sets, which stay inside the request.\<close>

definition acc_ok :: "fd_set option \<Rightarrow> fd_set option \<Rightarrow> nat set \<Rightarrow> select_acc \<Rightarrow> bool" where
  "acc_ok readfds writefds seen acc =
     (case acc of (n, rr, rw) \<Rightarrow>
        finite seen \<and> {i. rr i} \<subseteq> seen \<and> {i. rw i} \<subseteq> seen \<and>
        n = card {i. rr i} + card {i. rw i} \<and>
        (\<forall>i. rr i \<longrightarrow> (\<exists>s. readfds = Some s \<and> s i)) \<and>
        (\<forall>i. rw i \<longrightarrow> (\<exists>s. writefds = Some s \<and> s i)))"

lemma acc_ok_init: "acc_ok readfds writefds {} (0, FD_ZERO, FD_ZERO)"
  by (simp add: acc_ok_def FD_ZERO_def)

lemma select_half_Some:
  "select_half opn fds i st = Inr (Some True, st') \<Longrightarrow> \<exists>s. fds = Some s \<and> s i"
  by (auto simp: select_half_def FD_ISSET_def split: option.splits if_splits)

lemma Collect_upd_True: "Collect (s(i := True)) = insert i (Collect s)"
  by auto

lemma acc_ok_mono:
  assumes "acc_ok readfds writefds seen (n, rr, rw)" and "i \<notin> seen"
    and "br \<Longrightarrow> \<exists>s. readfds = Some s \<and> s i" and "bw \<Longrightarrow> \<exists>s. writefds = Some s \<and> s i"
  shows "acc_ok readfds writefds (insert i seen) (acc_write i bw (acc_read i br (n, rr, rw)))"
proof -
  from assms(1) have f: "finite {j. rr j}" "finite {j. rw j}"
    by (auto simp: acc_ok_def intro: finite_subset)
  from assms(1,2) have ni: "\<not> rr i" "\<not> rw i"
    by (auto simp: acc_ok_def)
  with assms f show ?thesis
    by (cases br; cases bw)
      (auto simp: acc_ok_def acc_read_def acc_write_def FD_SET_def Collect_upd_True split: if_splits)
qed

lemma select_scan_ok:
  assumes "select_scan ops readfds writefds is acc st = Inr (Some acc', st')"
    and "acc_ok readfds writefds seen acc" and "distinct is" and "set is \<inter> seen = {}"
  shows "acc_ok readfds writefds (seen \<union> set is) acc'"
  using assms
proof (induction "is" arbitrary: acc st seen)
  case (Cons i "is")
  from Cons.prems(1) obtain br bw st1 st2 where
    r: "select_half (uinet_soreadable ops) readfds i st = Inr (Some br, st1)" and
    w: "select_half (uinet_sowritable ops) writefds i st1 = Inr (Some bw, st2)" and
    rest: "select_scan ops readfds writefds is (acc_write i bw (acc_read i br acc)) st2 =
             Inr (Some acc', st')"
    by (auto split: option.splits)
  obtain n rr rw where acc: "acc = (n, rr, rw)" by (cases acc)
  have "acc_ok readfds writefds (insert i seen) (acc_write i bw (acc_read i br acc))"
    using Cons.prems acc r w by (auto intro!: acc_ok_mono dest: select_half_Some)
  with Cons.prems rest Cons.IH [of "acc_write i bw (acc_read i br acc)" st2 "insert i seen"]
  show ?case by auto
qed auto

lemma acc_ok_zero:
  assumes "acc_ok readfds writefds seen (0, rr, rw)"
  shows "rr = FD_ZERO \<and> rw = FD_ZERO"
proof -
  from assms have "finite {i. rr i}" "finite {i. rw i}"
    by (auto simp: acc_ok_def intro: finite_subset)
  with assms show ?thesis
    by (auto simp: acc_ok_def FD_ZERO_def fun_eq_iff)
qed

lemma select_scan_upt_ok:
  assumes "select_scan ops readfds writefds [0..<m] (0, FD_ZERO, FD_ZERO) st = Inr (Some acc, st')"
  shows "acc_ok readfds writefds {0..<m} acc"
  using select_scan_ok [OF assms acc_ok_init] by simp

section \<open>What the call returns\<close>

text \<open>The invariant of the restarts: nothing was ready so far; a positive result is right.\<close>

definition select_inv ::
  "int \<Rightarrow> fd_set option \<Rightarrow> fd_set option \<Rightarrow> ('s, 'w) select_result + ('s, 'w) select_cfg \<Rightarrow> bool" where
  "select_inv nfds readfds writefds x =
     (case x of
        Inr (_, acc, _) \<Rightarrow> acc = (0, FD_ZERO, FD_ZERO)
      | Inl (Inl _) \<Rightarrow> True
      | Inl (Inr ((n, rs, ws), _)) \<Rightarrow> 0 < n \<longrightarrow>
          (\<exists>rr rw. rs = Some rr \<and> ws = Some rw \<and> readfds \<noteq> None \<and> writefds \<noteq> None \<and>
             acc_ok readfds writefds {0..<nat nfds} (nat n, rr, rw)))"

lemma select_pass_inv:
  "select_inv nfds readfds writefds
     (select_pass ops nanosleep nfds readfds writefds timeout (b, (0, FD_ZERO, FD_ZERO), st))"
proof (cases "select_scan ops readfds writefds [0..<nat nfds] (0, FD_ZERO, FD_ZERO) st")
  case (Inr p)
  show ?thesis
  proof (cases "fst p")
    case (Some acc)
    obtain n rr rw st1 where p: "p = (Some (n, rr, rw), st1)"
      using Some by (cases p; cases acc) auto
    with Inr have ok: "acc_ok readfds writefds {0..<nat nfds} (n, rr, rw)"
      using select_scan_upt_ok by blast
    then have "n = 0 \<Longrightarrow> rr = FD_ZERO \<and> rw = FD_ZERO"
      using acc_ok_zero by blast
    with Inr p ok show ?thesis
      by (auto simp: select_pass_def select_inv_def split: option.splits prod.splits)
  qed (use Inr in \<open>cases p; auto simp: select_pass_def select_inv_def\<close>)
qed (simp add: select_pass_def select_inv_def)

lemma select_inv_running:
  assumes "select_inv nfds readfds writefds x" and "\<not> isl x"
  obtains b st where "x = Inr (b, (0, FD_ZERO, FD_ZERO), st)"
  using assms by (cases x) (auto simp: select_inv_def)

lemma ud_select_inv:
  assumes "ud_select ops nanosleep st nfds readfds writefds timeout = Some r"
  shows "select_inv nfds readfds writefds (Inl r :: ('s, 'w) select_result + ('s, 'w) select_cfg)"
proof -
  let ?c = "\<lambda>x. select_pass ops nanosleep nfds readfds writefds timeout (projr x)"
  from assms obtain x where
    w: "while_option (\<lambda>x. \<not> isl x) ?c (Inr (False, (0, FD_ZERO, FD_ZERO), st)) = Some x"
    and "r = projl x"
    by (auto simp: ud_select_def)
  moreover from w have "isl x" by (auto dest: while_option_stop)
  moreover from w have "select_inv nfds readfds writefds x"
    by (rule while_option_rule [rotated])
      (auto simp: select_pass_inv elim: select_inv_running, simp add: select_inv_def)
  ultimately show ?thesis by (cases x) simp_all
qed



lemma while_option_stop_now: "\<not> b s \<Longrightarrow> while_option b c s = Some s"
  by (subst while_option_unfold) simp

lemma while_option_go: "b s \<Longrightarrow> while_option b c s = while_option b c (c s)"
  by (subst while_option_unfold) simp


text \<open>
  Without a timeout, a scan that finds nothing ready and leaves the stack as it was is
  repeated for ever: the call does not return.
\<close>

theorem ud_select_spins:
  assumes "select_scan ops readfds writefds [0..<nat nfds] (0, FD_ZERO, FD_ZERO) st =
     Inr (Some (0, FD_ZERO, FD_ZERO), st)"
  shows "ud_select ops nanosleep st nfds readfds writefds None = None"
proof (rule ccontr)
  let ?x = "Inr (False, (0, FD_ZERO, FD_ZERO), st)"
  let ?c = "\<lambda>x. select_pass ops nanosleep nfds readfds writefds None (projr x)"
  assume "ud_select ops nanosleep st nfds readfds writefds None \<noteq> None"
  then obtain x where w: "while_option (\<lambda>x. \<not> isl x) ?c ?x = Some x"
    by (auto simp: ud_select_def)
  then have "x = ?x"
    by (rule while_option_rule [where P = "\<lambda>y. y = ?x", rotated])
      (auto simp: select_pass_def assms)
  with while_option_stop [OF w] show False by simp
qed

theorem ud_select_spins_witness:
  "ud_select tiny_ops (\<lambda>tv w. (0, w)) tiny_state 5 (Some (\<lambda>i. i = 4)) (Some (\<lambda>i. i = 4)) None = None"
proof (rule ud_select_spins)
  have "tiny_state\<lparr>ud_world := ()\<rparr> = tiny_state" by (simp add: tiny_state_def)
  then show "select_scan tiny_ops (Some (\<lambda>i. i = 4)) (Some (\<lambda>i. i = 4)) [0..<nat 5]
      (0, FD_ZERO, FD_ZERO) tiny_state = Inr (Some (0, FD_ZERO, FD_ZERO), tiny_state)"
    using tiny_fds
    by (simp add: upt_conv_Cons select_half_def FD_ISSET_def FD_SETSIZE_def FD_ZERO_def
        acc_read_def acc_write_def fd_sock_def)
qed

end
