(* ===== verification/Pkt_Desc.thy ===== *)
theory Pkt_Desc
  imports Prelude
begin

text \<open>
  Packet descriptors: \<^verbatim>\<open>src/lib/libuinet/uinet_pkt_desc.h\<close>, \<^verbatim>\<open>uinet_pkt_desc.c\<close>, the
  descriptor part of \<^verbatim>\<open>api_include/uinet_api_types.h\<close> and the functions
  \<^verbatim>\<open>uinet_pd_*\<close> of \<^verbatim>\<open>uinet_api.c\<close>. A descriptor is passed by value and points to a
  context, which holds the reference count and the mbuf. This theory models the store of
  contexts, the pool table, reference counting, and the three routines that free
  contexts in batches; the ring is in \<open>Pd_Ring\<close>.
\<close>

unbundle bit_operations_syntax

named_theorems pd_simps

section \<open>Descriptors, contexts, mbufs\<close>

definition UINET_PD_INJECT :: u16 where "UINET_PD_INJECT = 0x0010"
definition UINET_PD_TO_STACK :: u16 where "UINET_PD_TO_STACK = 0x0020"
definition UINET_PD_DROP :: u16 where "UINET_PD_DROP = 0x0040"
definition UINET_PD_EXTRA_REFS :: u16 where "UINET_PD_EXTRA_REFS = 0x0080"
definition UINET_PD_MGMT_ONLY :: u16 where "UINET_PD_MGMT_ONLY = 0x0200"
definition UINET_PD_TYPE_MBUF :: u16 where "UINET_PD_TYPE_MBUF = 0x0001"
definition UINET_PD_CTX_SINGLE_REF :: u16 where "UINET_PD_CTX_SINGLE_REF = 0x0001"
definition UINET_PD_CTX_MBUF_USED :: u16 where "UINET_PD_CTX_MBUF_USED = 0x0002"

text \<open>A flag test \<^verbatim>\<open>flags & F\<close> as a condition.\<close>

definition has :: "u16 \<Rightarrow> u16 \<Rightarrow> bool" where
  "has flags f \<longleftrightarrow> flags AND f \<noteq> 0"

text \<open>Addresses of contexts, of mbufs and of reference counters.\<close>

type_synonym ctx_addr = nat
type_synonym mbuf_addr = nat
type_synonym cnt_addr = nat

record uinet_pd =
  pd_flags :: u16
  pd_length :: u16
  pd_pool_id :: u16
  pd_ref :: u64
  pd_data :: u64
  pd_ctx :: "ctx_addr option"
  pd_serialno :: u64

record uinet_pd_ctx =
  ctx_timestamp :: u64
  ctx_m :: mbuf_addr
  ctx_ref :: u64
  ctx_m_orig_len :: u16
  ctx_flags :: u16
  ctx_pool_id :: u16
  ctx_refcnt :: cnt_addr

text \<open>The routine an mbuf with external storage calls when its last reference goes.\<close>

datatype ext_free = No_free | Pd_mbuf_ext_free | Dpdk_free_rte_buf

text \<open>The fields of an mbuf that the descriptor code and the driver touch.\<close>

record pd_mbuf =
  m_next :: "mbuf_addr option"
  m_nextpkt :: "mbuf_addr option"
  m_data :: u64
  m_len :: u32
  m_flags :: u32
  m_type :: u16
  m_pkthdr_len :: u32
  m_pkthdr_rcvif :: "nat option"
  m_pkthdr_header :: u64
  m_pkthdr_flowid :: u32
  m_pkthdr_csum_flags :: u32
  m_pkthdr_csum_data :: u32
  m_pkthdr_tso_segsz :: u16
  m_pkthdr_ether_vtag :: u16
  m_tags :: "nat list"
  m_ext_buf :: u64
  m_ext_size :: u32
  m_ext_type :: nat
  m_ext_free :: ext_free
  m_ext_arg1 :: u64
  m_ext_arg2 :: "ctx_addr option"
  m_ext_ref_cnt :: cnt_addr

text \<open>A pool is known by its type, buffer size and free routine.\<close>

record pd_pool_info =
  pool_type :: u16
  pool_bufsize :: nat

text \<open>
  The store, with the table of pools, the memory zone of contexts (its state is a
  parameter) and, for the calls of the pools' free routines, the list of calls made so
  far: the pool's number and the group of contexts handed over.
\<close>

record 'z pd_state =
  pd_ctxs :: "ctx_addr \<Rightarrow> uinet_pd_ctx"
  pd_cnts :: "cnt_addr \<Rightarrow> u32"
  pd_mbufs :: "mbuf_addr \<Rightarrow> pd_mbuf"
  pd_pool_table :: "pd_pool_info option list"
  pd_zone :: 'z
  pd_freed :: "(nat \<times> ctx_addr list) list"

section \<open>The pool table\<close>

definition UINET_PD_MAX_POOLS :: nat where "UINET_PD_MAX_POOLS = 32"

fun find_free_slot :: "'a option list \<Rightarrow> nat \<Rightarrow> nat option" where
  "find_free_slot [] i = None"
| "find_free_slot (p # ps) i = (if p = None then Some i else find_free_slot ps (Suc i))"

text \<open>The result is the slot, or \<open>-1\<close> for a full table.\<close>

definition uinet_pd_pool_register ::
  "'z pd_state \<Rightarrow> pd_pool_info \<Rightarrow> int \<times> 'z pd_state" where
  "uinet_pd_pool_register s info =
     (case find_free_slot (pd_pool_table s) 0 of
        Some i \<Rightarrow> (int i, s\<lparr>pd_pool_table := (pd_pool_table s)[i := Some info]\<rparr>)
      | None \<Rightarrow> (-1, s))"

definition uinet_pd_pool_get :: "'z pd_state \<Rightarrow> nat \<Rightarrow> pd_pool_info option res" where
  "uinet_pd_pool_get s pool_id =
     (if pool_id < length (pd_pool_table s) then Inr (pd_pool_table s ! pool_id)
      else Inl Out_of_bounds)"

definition uinet_pd_pool_deregister :: "'z pd_state \<Rightarrow> nat \<Rightarrow> 'z pd_state res" where
  "uinet_pd_pool_deregister s pool_id =
     (if pool_id < length (pd_pool_table s)
      then Inr (s\<lparr>pd_pool_table := (pd_pool_table s)[pool_id := None]\<rparr>)
      else Inl Out_of_bounds)"

text \<open>\<^verbatim>\<open>pool = uinet_pd_pool_get(id); pool->free(grp, count)\<close>\<close>

definition pool_free :: "'z pd_state \<Rightarrow> nat \<Rightarrow> ctx_addr list \<Rightarrow> 'z pd_state res" where
  "pool_free s pool_id grp =
     res_bind (uinet_pd_pool_get s pool_id) (\<lambda>p.
     res_bind (deref p) (\<lambda>_. Inr (s\<lparr>pd_freed := pd_freed s @ [(pool_id, grp)]\<rparr>)))"

section \<open>Reference counting\<close>

text \<open>The number of references \<^verbatim>\<open>uinet_pd_ref_acquire\<close> adds for a descriptor.\<close>

definition pd_extra_refs :: "uinet_pd \<Rightarrow> u32 \<Rightarrow> u32" where
  "pd_extra_refs pd num_extra =
     (if pd_flags pd AND (UINET_PD_INJECT OR UINET_PD_TO_STACK) =
         (UINET_PD_INJECT OR UINET_PD_TO_STACK) then 1 else 0) +
     (if has (pd_flags pd) UINET_PD_EXTRA_REFS then num_extra else 0)"

definition pd_ref_acquire1 :: "'z pd_state \<Rightarrow> uinet_pd \<Rightarrow> u32 \<Rightarrow> 'z pd_state res" where
  "pd_ref_acquire1 s pd num_extra =
     (if has (pd_flags pd) UINET_PD_MGMT_ONLY then Inr s
      else let refs = pd_extra_refs pd num_extra in
        if refs = 0 then Inr s
        else res_bind (deref (pd_ctx pd)) (\<lambda>c.
          let x = pd_ctxs s c in
          Inr (s\<lparr>pd_ctxs := (pd_ctxs s)(c := x\<lparr>ctx_flags := ctx_flags x AND NOT UINET_PD_CTX_SINGLE_REF\<rparr>),
                 pd_cnts := (pd_cnts s)(ctx_refcnt x := pd_cnts s (ctx_refcnt x) + refs)\<rparr>)))"

fun uinet_pd_ref_acquire :: "'z pd_state \<Rightarrow> uinet_pd list \<Rightarrow> u32 \<Rightarrow> 'z pd_state res" where
  "uinet_pd_ref_acquire s [] num_extra = Inr s"
| "uinet_pd_ref_acquire s (pd # pds) num_extra =
     res_bind (pd_ref_acquire1 s pd num_extra) (\<lambda>s. uinet_pd_ref_acquire s pds num_extra)"

text \<open>
  The condition under which a context is freed, with its effect on the counter: the flag,
  or a count of one, or a decrement that found one.
\<close>

definition pd_unref :: "'z pd_state \<Rightarrow> ctx_addr \<Rightarrow> bool \<times> 'z pd_state" where
  "pd_unref s c =
     (let x = pd_ctxs s c; old = pd_cnts s (ctx_refcnt x) in
      if has (ctx_flags x) UINET_PD_CTX_SINGLE_REF then (True, s)
      else if old = 1 then (True, s)
      else (old = 1, s\<lparr>pd_cnts := (pd_cnts s)(ctx_refcnt x := old - 1)\<rparr>))"

section \<open>Freeing in batches\<close>

definition UINET_PD_FREE_BATCH_SIZE :: nat where "UINET_PD_FREE_BATCH_SIZE = 32"

text \<open>The local variables of the loop: \<^verbatim>\<open>cur_pool_id\<close> and the filled part of \<^verbatim>\<open>free_group\<close>.\<close>

type_synonym batch = "nat \<times> ctx_addr list"

definition batch_init :: batch where "batch_init = (0xffffffff, [])"

definition batch_flush :: "'z pd_state \<Rightarrow> batch \<Rightarrow> 'z pd_state res" where
  "batch_flush s b = (if snd b \<noteq> [] then pool_free s (fst b) (snd b) else Inr s)"

definition batch_add :: "'z pd_state \<Rightarrow> batch \<Rightarrow> ctx_addr \<Rightarrow> ('z pd_state \<times> batch) res" where
  "batch_add s b c =
     (let pool = unat (ctx_pool_id (pd_ctxs s c)) in
      if pool \<noteq> fst b \<or> length (snd b) = UINET_PD_FREE_BATCH_SIZE
      then res_bind (batch_flush s b) (\<lambda>s. Inr (s, (pool, [c])))
      else Inr (s, (fst b, snd b @ [c])))"

text \<open>
  The loop of the three routines, over the test \<open>sel\<close> that decides whether an item's
  context is to be freed (and may change a counter).
\<close>

fun batch_loop ::
  "('z pd_state \<Rightarrow> 'i \<Rightarrow> (ctx_addr option \<times> 'z pd_state) res) \<Rightarrow> 'z pd_state \<Rightarrow> batch \<Rightarrow> 'i list \<Rightarrow>
     'z pd_state res" where
  "batch_loop sel s b [] = batch_flush s b"
| "batch_loop sel s b (x # xs) =
     res_bind (sel s x) (\<lambda>(r, s). case r of
       None \<Rightarrow> batch_loop sel s b xs
     | Some c \<Rightarrow> res_bind (batch_add s b c) (\<lambda>(s, b). batch_loop sel s b xs))"

definition sel_release :: "'z pd_state \<Rightarrow> ctx_addr \<Rightarrow> (ctx_addr option \<times> 'z pd_state) res" where
  "sel_release s c = (let (r, s') = pd_unref s c in Inr (if r then Some c else None, s'))"

definition uinet_pd_ref_release :: "'z pd_state \<Rightarrow> ctx_addr list \<Rightarrow> 'z pd_state res" where
  "uinet_pd_ref_release s pdctx = batch_loop sel_release s batch_init pdctx"

text \<open>\<^verbatim>\<open>cur_pdctx\<close> is read only after the flag test.\<close>

definition sel_injected :: "'z pd_state \<Rightarrow> uinet_pd \<Rightarrow> (ctx_addr option \<times> 'z pd_state) res" where
  "sel_injected s pd =
     (if has (pd_flags pd) UINET_PD_INJECT
      then res_bind (deref (pd_ctx pd)) (sel_release s)
      else Inr (None, s))"

definition uinet_pd_drop_injected :: "'z pd_state \<Rightarrow> uinet_pd list \<Rightarrow> 'z pd_state res" where
  "uinet_pd_drop_injected s pds = batch_loop sel_injected s batch_init pds"

definition sel_drop :: "'z pd_state \<Rightarrow> uinet_pd \<Rightarrow> (ctx_addr option \<times> 'z pd_state) res" where
  "sel_drop s pd =
     (if has (pd_flags pd) UINET_PD_DROP
      then res_bind (deref (pd_ctx pd)) (\<lambda>c. Inr (Some c, s))
      else Inr (None, s))"

definition uinet_pd_drop :: "'z pd_state \<Rightarrow> uinet_pd list \<Rightarrow> 'z pd_state res" where
  "uinet_pd_drop s pds = batch_loop sel_drop s batch_init pds"


text \<open>
  What the batching is meant to compute: the selected contexts in order, cut into maximal
  runs of one pool, each of at most \<open>UINET_PD_FREE_BATCH_SIZE\<close>.
\<close>

fun sel_run ::
  "('z pd_state \<Rightarrow> 'i \<Rightarrow> (ctx_addr option \<times> 'z pd_state) res) \<Rightarrow> 'z pd_state \<Rightarrow> 'i list \<Rightarrow>
     (ctx_addr list \<times> 'z pd_state) res" where
  "sel_run sel s [] = Inr ([], s)"
| "sel_run sel s (x # xs) =
     res_bind (sel s x) (\<lambda>(r, s).
     res_bind (sel_run sel s xs) (\<lambda>(cs, s).
     Inr (case r of None \<Rightarrow> cs | Some c \<Rightarrow> c # cs, s)))"

function pool_groups :: "('c \<Rightarrow> nat) \<Rightarrow> 'c list \<Rightarrow> (nat \<times> 'c list) list" where
  "pool_groups pool [] = []"
| "pool_groups pool (c # cs) =
     (let g = c # take (UINET_PD_FREE_BATCH_SIZE - 1) (takeWhile (\<lambda>d. pool d = pool c) cs) in
      (pool c, g) # pool_groups pool (drop (length g) (c # cs)))"
  by pat_completeness auto
termination
  by (relation "measure (\<lambda>(pool, cs). length cs)") auto

definition ctx_pool :: "'z pd_state \<Rightarrow> ctx_addr \<Rightarrow> nat" where
  "ctx_pool s c = unat (ctx_pool_id (pd_ctxs s c))"

text \<open>Every context's pool is in the table, which has its fixed size.\<close>

definition pools_ok :: "'z pd_state \<Rightarrow> bool" where
  "pools_ok s \<longleftrightarrow>
     length (pd_pool_table s) = UINET_PD_MAX_POOLS \<and>
     (\<forall>c. ctx_pool s c < UINET_PD_MAX_POOLS \<and> pd_pool_table s ! ctx_pool s c \<noteq> None)"

section \<open>Concurrent release\<close>

text \<open>
  Several threads release a context with no \<open>SINGLE_REF\<close> flag. The plain read of the count
  and the atomic subtraction are separate steps of a thread.
\<close>

datatype release_pc = Test | Sub | Kept | Freed

record release_conf =
  rel_cnt :: u32
  rel_pcs :: "release_pc list"

inductive release_step :: "release_conf \<Rightarrow> release_conf \<Rightarrow> bool" where
  read_one: "i < length (rel_pcs s) \<Longrightarrow> rel_pcs s ! i = Test \<Longrightarrow> rel_cnt s = 1 \<Longrightarrow>
     release_step s (s\<lparr>rel_pcs := (rel_pcs s)[i := Freed]\<rparr>)"
| read_more: "i < length (rel_pcs s) \<Longrightarrow> rel_pcs s ! i = Test \<Longrightarrow> rel_cnt s \<noteq> 1 \<Longrightarrow>
     release_step s (s\<lparr>rel_pcs := (rel_pcs s)[i := Sub]\<rparr>)"
| fetchadd: "i < length (rel_pcs s) \<Longrightarrow> rel_pcs s ! i = Sub \<Longrightarrow>
     release_step s (s\<lparr>rel_cnt := rel_cnt s - 1,
                       rel_pcs := (rel_pcs s)[i := if rel_cnt s = 1 then Freed else Kept]\<rparr>)"

definition release_start :: "nat \<Rightarrow> release_conf" where
  "release_start n = \<lparr>rel_cnt = of_nat n, rel_pcs = replicate n Test\<rparr>"

definition live_pcs :: "release_conf \<Rightarrow> nat" where
  "live_pcs s = length (filter (\<lambda>p. p = Test \<or> p = Sub) (rel_pcs s))"

definition freed_pcs :: "release_conf \<Rightarrow> nat" where
  "freed_pcs s = length (filter (\<lambda>p. p = Freed) (rel_pcs s))"

definition release_inv :: "release_conf \<Rightarrow> bool" where
  "release_inv s \<longleftrightarrow>
     (if freed_pcs s = 0 then 0 < live_pcs s \<and> unat (rel_cnt s) = live_pcs s
      else freed_pcs s = 1 \<and> live_pcs s = 0)"

declare pool_groups.simps(2) [simp del]

section \<open>Lemmas on groups, pools and counters\<close>

lemma takeWhile_run: "\<forall>c\<in>set g. pool c = p \<Longrightarrow> cs = [] \<or> pool (hd cs) \<noteq> p \<Longrightarrow>
    takeWhile (\<lambda>d. pool d = p) (g @ cs) = g"
  by (induction g) (cases cs, auto)+

lemma pool_groups_cut:
  assumes "g \<noteq> []" "\<forall>c\<in>set g. pool c = p" "length g \<le> UINET_PD_FREE_BATCH_SIZE"
    and "cs = [] \<or> pool (hd cs) \<noteq> p \<or> length g = UINET_PD_FREE_BATCH_SIZE"
  shows "pool_groups pool (g @ cs) = (p, g) # pool_groups pool cs"
proof -
  obtain c g' where g: "g = c # g'" using assms(1) by (cases g) auto
  have p: "pool c = p" "\<forall>c\<in>set g'. pool c = p" using assms(2) g by auto
  have "take (UINET_PD_FREE_BATCH_SIZE - 1) (takeWhile (\<lambda>d. pool d = p) (g' @ cs)) = g'"
  proof (cases "length g = UINET_PD_FREE_BATCH_SIZE")
    case True
    have "takeWhile (\<lambda>d. pool d = p) (g' @ cs) = g' @ takeWhile (\<lambda>d. pool d = p) cs"
      using p(2) by (simp add: takeWhile_append2)
    then show ?thesis using True g by simp
  next
    case False
    then have "takeWhile (\<lambda>d. pool d = p) (g' @ cs) = g'"
      using takeWhile_run [of g' pool p cs] p(2) assms(4) by blast
    then show ?thesis using assms(3) g by simp
  qed
  then show ?thesis by (simp add: g p(1) pool_groups.simps(2) Let_def)
qed

lemma pool_groups_run:
  "g \<noteq> [] \<Longrightarrow> \<forall>c\<in>set g. pool c = p \<Longrightarrow> length g \<le> UINET_PD_FREE_BATCH_SIZE \<Longrightarrow>
   pool_groups pool g = [(p, g)]"
  using pool_groups_cut [of g pool p "[]"] by simp

lemma take_takeWhile_drop:
  "take n (takeWhile P cs) @ drop (length (take n (takeWhile P cs))) cs = cs"
  by (induction cs arbitrary: n) (auto simp: take_Cons split: nat.split)

lemma pool_groups_concat: "concat (map snd (pool_groups pool cs)) = cs"
proof (induction pool cs rule: pool_groups.induct)
  case (2 pool c cs)
  let ?xs = "take (UINET_PD_FREE_BATCH_SIZE - 1) (takeWhile (\<lambda>d. pool d = pool c) cs)"
  have "concat (map snd (pool_groups pool (drop (length ?xs) cs))) = drop (length ?xs) cs"
    using "2.IH" [OF refl] by (simp del: length_take)
  then show ?case
    using take_takeWhile_drop [of "UINET_PD_FREE_BATCH_SIZE - 1" "\<lambda>d. pool d = pool c" cs]
    by (simp add: pool_groups.simps(2) Let_def del: length_take)
qed simp

lemma pool_groups_each:
  "(p, g) \<in> set (pool_groups pool cs) \<Longrightarrow>
   g \<noteq> [] \<and> length g \<le> UINET_PD_FREE_BATCH_SIZE \<and> (\<forall>c\<in>set g. pool c = p)"
proof (induction pool cs rule: pool_groups.induct)
  case (2 pool c cs)
  let ?g = "c # take (UINET_PD_FREE_BATCH_SIZE - 1) (takeWhile (\<lambda>d. pool d = pool c) cs)"
  have "length ?g \<le> UINET_PD_FREE_BATCH_SIZE" by (simp add: UINET_PD_FREE_BATCH_SIZE_def)
  moreover have "\<forall>d\<in>set ?g. pool d = pool c"
    by (auto dest!: in_set_takeD set_takeWhileD)
  moreover have "(p, g) = (pool c, ?g) \<or> (p, g) \<in> set (pool_groups pool (drop (length ?g) (c # cs)))"
    using 2(2) by (simp add: pool_groups.simps(2) Let_def)
  ultimately show ?case using "2.IH" [OF refl] by blast
qed simp

lemmas pool_groups_spec = pool_groups_concat pool_groups_each

lemma pool_free_ok:
  "pools_ok s \<Longrightarrow> pool_free s (ctx_pool s c) g = Inr (s\<lparr>pd_freed := pd_freed s @ [(ctx_pool s c, g)]\<rparr>)"
  by (auto simp: pool_free_def uinet_pd_pool_get_def pools_ok_def)

lemma ctx_pool_log [simp]: "ctx_pool (s\<lparr>pd_freed := l\<rparr>) = ctx_pool s"
  and ctx_pool_cnts [simp]: "ctx_pool (s\<lparr>pd_cnts := f\<rparr>) = ctx_pool s"
  and pools_ok_log [simp]: "pools_ok (s\<lparr>pd_freed := l\<rparr>) = pools_ok s"
  and pools_ok_cnts [simp]: "pools_ok (s\<lparr>pd_cnts := f\<rparr>) = pools_ok s"
  by (auto simp: ctx_pool_def pools_ok_def fun_eq_iff)

lemma pools_ok_cong: "ctx_pool s' = ctx_pool s \<Longrightarrow> pd_pool_table s' = pd_pool_table s \<Longrightarrow>
    pools_ok s' = pools_ok s"
  by (simp add: pools_ok_def)

section \<open>The batching is right for every selector\<close>

text \<open>
  The interface of the loop: a test that leaves the pools and the log alone, does not
  look at the log and does not fail.
\<close>

locale batch_selector =
  fixes sel :: "'z pd_state \<Rightarrow> 'i \<Rightarrow> (ctx_addr option \<times> 'z pd_state) res"
    and good :: "'i \<Rightarrow> bool"
  assumes sel_frame:
      "sel s x = Inr (r, s') \<Longrightarrow>
       ctx_pool s' = ctx_pool s \<and> pd_pool_table s' = pd_pool_table s \<and> pd_freed s' = pd_freed s"
    and sel_log:
      "sel s x = Inr (r, s') \<Longrightarrow> sel (s\<lparr>pd_freed := l\<rparr>) x = Inr (r, s'\<lparr>pd_freed := l\<rparr>)"
    and sel_total: "good x \<Longrightarrow> \<exists>r s'. sel s x = Inr (r, s')"
begin

lemma sel_run_frame:
  "sel_run sel s xs = Inr (cs, t) \<Longrightarrow>
   ctx_pool t = ctx_pool s \<and> pd_pool_table t = pd_pool_table s \<and> pd_freed t = pd_freed s"
  by (induction xs arbitrary: s cs) (auto split: option.splits dest!: sel_frame)

lemma sel_run_log:
  "sel_run sel s xs = Inr (cs, t) \<Longrightarrow>
   sel_run sel (s\<lparr>pd_freed := l\<rparr>) xs = Inr (cs, t\<lparr>pd_freed := l\<rparr>)"
proof (induction xs arbitrary: s cs)
  case (Cons x xs)
  then obtain r s' cs' where "sel s x = Inr (r, s')" "sel_run sel s' xs = Inr (cs', t)"
    and "cs = (case r of None \<Rightarrow> cs' | Some c \<Rightarrow> c # cs')" by auto
  then show ?case using sel_log [of s x r s' l] Cons.IH [of s' cs'] by simp
qed simp

lemma sel_run_total: "list_all good xs \<Longrightarrow> \<exists>cs t. sel_run sel s xs = Inr (cs, t)"
proof (induction xs arbitrary: s)
  case (Cons x xs)
  then obtain r s' where "sel s x = Inr (r, s')" using sel_total [of x s] by auto
  moreover obtain cs t where "sel_run sel s' xs = Inr (cs, t)"
    using Cons.IH [of s'] Cons.prems by auto
  ultimately show ?case by simp
qed simp

lemma batch_loop_run:
  assumes "sel_run sel s xs = Inr (cs, t)" "pools_ok s"
    and "g \<noteq> []" "\<forall>c\<in>set g. ctx_pool s c = p" "length g \<le> UINET_PD_FREE_BATCH_SIZE"
  shows "batch_loop sel s (p, g) xs =
    Inr (t\<lparr>pd_freed := pd_freed s @ pool_groups (ctx_pool s) (g @ cs)\<rparr>)"
  using assms
proof (induction xs arbitrary: s cs t p g)
  case Nil
  have "pool_free s p g = Inr (s\<lparr>pd_freed := pd_freed s @ [(p, g)]\<rparr>)"
    using pool_free_ok [OF Nil(2), of "hd g" g] Nil(3,4) by simp
  moreover have "pool_groups (ctx_pool s) g = [(p, g)]"
    using Nil(3-5) by (rule pool_groups_run)
  ultimately show ?case using Nil(1,3) by (auto simp: batch_flush_def)
next
  case (Cons x xs)
  from Cons.prems(1) obtain r s' cs' where sel: "sel s x = Inr (r, s')"
    and run: "sel_run sel s' xs = Inr (cs', t)"
    and cs: "cs = (case r of None \<Rightarrow> cs' | Some c \<Rightarrow> c # cs')" by auto
  note fr = sel_frame [OF sel]
  have ok': "pools_ok s'" using pools_ok_cong fr Cons.prems(2) by blast
  show ?case
  proof (cases r)
    case None
    then show ?thesis using Cons.IH [OF run ok', of g p] Cons.prems sel cs fr by simp
  next
    case (Some c)
    have pool: "unat (ctx_pool_id (pd_ctxs s' c)) = ctx_pool s c"
      using fr by (metis ctx_pool_def)
    have fl: "pool_free s' p g = Inr (s'\<lparr>pd_freed := pd_freed s' @ [(p, g)]\<rparr>)"
      using pool_free_ok [OF ok', of "hd g" g] Cons.prems(3,4) fr by simp
    show ?thesis
    proof (cases "ctx_pool s c \<noteq> p \<or> length g = UINET_PD_FREE_BATCH_SIZE")
      case True
      let ?s = "s'\<lparr>pd_freed := pd_freed s' @ [(p, g)]\<rparr>"
      have "batch_loop sel ?s (ctx_pool s c, [c]) xs =
          Inr (t\<lparr>pd_freed := pd_freed ?s @ pool_groups (ctx_pool ?s) ([c] @ cs')\<rparr>)"
        using Cons.IH [OF sel_run_log [OF run], of "pd_freed s' @ [(p, g)]" "[c]" "ctx_pool s c"]
          ok' fr by (simp add: UINET_PD_FREE_BATCH_SIZE_def)
      moreover have "pool_groups (ctx_pool s) (g @ c # cs') =
          (p, g) # pool_groups (ctx_pool s) (c # cs')"
        using True Cons.prems(3-5) by (intro pool_groups_cut) auto
      ultimately show ?thesis
        using True Cons.prems(3) sel cs Some fl fr
        by (simp add: batch_add_def batch_flush_def pool Let_def)
    next
      case False
      then show ?thesis
        using Cons.IH [OF run ok', of "g @ [c]" p] Cons.prems sel cs Some fr
        by (auto simp add: batch_add_def pool Let_def)
    qed
  qed
qed

lemma batch_loop_spec:
  assumes "sel_run sel s xs = Inr (cs, t)" "pools_ok s"
  shows "batch_loop sel s batch_init xs =
    Inr (t\<lparr>pd_freed := pd_freed s @ pool_groups (ctx_pool s) cs\<rparr>)"
  using assms
proof (induction xs arbitrary: s cs)
  case (Cons x xs)
  from Cons.prems(1) obtain r s' cs' where sel: "sel s x = Inr (r, s')"
    and run: "sel_run sel s' xs = Inr (cs', t)"
    and cs: "cs = (case r of None \<Rightarrow> cs' | Some c \<Rightarrow> c # cs')" by auto
  note fr = sel_frame [OF sel]
  have ok': "pools_ok s'" using pools_ok_cong fr Cons.prems(2) by blast
  show ?case
  proof (cases r)
    case (Some c)
    have pool: "unat (ctx_pool_id (pd_ctxs s' c)) = ctx_pool s c"
      using fr by (metis ctx_pool_def)
    have "ctx_pool s c < UINET_PD_MAX_POOLS" using Cons.prems(2) by (simp add: pools_ok_def)
    then have "ctx_pool s c \<noteq> fst batch_init"
      by (simp add: UINET_PD_MAX_POOLS_def batch_init_def)
    then show ?thesis
      using batch_loop_run [OF run ok', of "[c]" "ctx_pool s c"] sel cs Some fr
      by (simp add: batch_add_def batch_flush_def batch_init_def pool Let_def
          UINET_PD_FREE_BATCH_SIZE_def)
  qed (use Cons.IH [OF run ok'] sel cs fr in simp)
qed (simp add: batch_flush_def batch_init_def)

lemma batch_loop_groups:
  assumes "list_all good xs" "pools_ok s"
  shows "\<exists>cs t gs. sel_run sel s xs = Inr (cs, t) \<and>
     batch_loop sel s batch_init xs = Inr (t\<lparr>pd_freed := pd_freed s @ gs\<rparr>) \<and>
     concat (map snd gs) = cs \<and>
     (\<forall>(p, g)\<in>set gs. g \<noteq> [] \<and> length g \<le> UINET_PD_FREE_BATCH_SIZE \<and> (\<forall>c\<in>set g. ctx_pool s c = p))"
proof -
  obtain cs t where "sel_run sel s xs = Inr (cs, t)" using sel_run_total assms(1) by blast
  moreover have "\<forall>(p, g)\<in>set (pool_groups (ctx_pool s) cs).
      g \<noteq> [] \<and> length g \<le> UINET_PD_FREE_BATCH_SIZE \<and> (\<forall>c\<in>set g. ctx_pool s c = p)"
    using pool_groups_each by fast
  ultimately show ?thesis
    using batch_loop_spec [OF _ assms(2)] pool_groups_concat [of "ctx_pool s" cs]
    by (intro exI [of _ cs] exI [of _ t] exI [of _ "pool_groups (ctx_pool s) cs"]) simp
qed

end

lemma pd_unref_frame [simp]:
  "ctx_pool (snd (pd_unref s c)) = ctx_pool s"
  "pd_pool_table (snd (pd_unref s c)) = pd_pool_table s"
  "pd_freed (snd (pd_unref s c)) = pd_freed s"
  by (simp_all add: pd_unref_def Let_def)

lemma pd_unref_log [simp]:
  "fst (pd_unref (s\<lparr>pd_freed := l\<rparr>) c) = fst (pd_unref s c)"
  "snd (pd_unref (s\<lparr>pd_freed := l\<rparr>) c) = (snd (pd_unref s c))\<lparr>pd_freed := l\<rparr>"
  by (simp_all add: pd_unref_def Let_def)

lemma sel_release_eq:
  "sel_release s c = Inr (if fst (pd_unref s c) then Some c else None, snd (pd_unref s c))"
  by (simp add: sel_release_def case_prod_beta)

interpretation release_sel: batch_selector sel_release "\<lambda>_. True"
  by unfold_locales (auto simp: sel_release_eq)

interpretation injected_sel: batch_selector sel_injected
    "\<lambda>pd. has (pd_flags pd) UINET_PD_INJECT \<longrightarrow> pd_ctx pd \<noteq> None"
  by unfold_locales (auto simp: sel_injected_def sel_release_eq split: if_splits)

interpretation drop_sel: batch_selector sel_drop
    "\<lambda>pd. has (pd_flags pd) UINET_PD_DROP \<longrightarrow> pd_ctx pd \<noteq> None"
  by unfold_locales (auto simp: sel_drop_def split: if_splits)


section \<open>Properties of freeing\<close>

lemma sel_run_append:
  "sel_run sel s (xs @ ys) =
   res_bind (sel_run sel s xs) (\<lambda>(cs, s). res_bind (sel_run sel s ys) (\<lambda>(ds, s). Inr (cs @ ds, s)))"
proof (induction xs arbitrary: s)
  case Nil
  show ?case by (cases "sel_run sel s ys") auto
next
  case (Cons x xs)
  show ?case
  proof (cases "sel s x")
    case (Inr a)
    obtain r s' where a: "a = (r, s')" by fastforce
    show ?thesis
      by (cases "sel_run sel s' xs"; cases r)
         (auto simp: Inr a Cons.IH case_prod_beta res_bind_def split: sum.splits)
  qed simp
qed

lemma sel_run_drop:
  "list_all (\<lambda>pd. has (pd_flags pd) UINET_PD_DROP \<longrightarrow> pd_ctx pd \<noteq> None) pds \<Longrightarrow>
   sel_run sel_drop s pds =
     Inr (map (the \<circ> pd_ctx) (filter (\<lambda>pd. has (pd_flags pd) UINET_PD_DROP) pds), s)"
  by (induction pds) (auto simp: sel_drop_def)

lemma sel_run_injected:
  "list_all (\<lambda>pd. has (pd_flags pd) UINET_PD_INJECT \<longrightarrow> pd_ctx pd \<noteq> None) pds \<Longrightarrow>
   sel_run sel_injected s pds =
     sel_run sel_release s (map (the \<circ> pd_ctx) (filter (\<lambda>pd. has (pd_flags pd) UINET_PD_INJECT) pds))"
  by (induction pds arbitrary: s) (auto simp: sel_injected_def sel_release_eq)

lemma sel_run_many:
  assumes "\<not> has (ctx_flags (pd_ctxs s c)) UINET_PD_CTX_SINGLE_REF"
    and "k < unat (pd_cnts s (ctx_refcnt (pd_ctxs s c)))"
  shows "sel_run sel_release s (replicate k c) =
    Inr ([], s\<lparr>pd_cnts := (pd_cnts s)(ctx_refcnt (pd_ctxs s c) :=
                 pd_cnts s (ctx_refcnt (pd_ctxs s c)) - of_nat k)\<rparr>)"
  using assms
proof (induction k arbitrary: s)
  case (Suc k)
  let ?a = "ctx_refcnt (pd_ctxs s c)"
  let ?s = "s\<lparr>pd_cnts := (pd_cnts s)(?a := pd_cnts s ?a - 1)\<rparr>"
  have n1: "pd_cnts s ?a \<noteq> 1" and n0: "pd_cnts s ?a \<noteq> 0" using Suc.prems(2) by auto
  have "unat (pd_cnts s ?a - 1) = unat (pd_cnts s ?a) - 1" using n0 by (rule unat_minus_one)
  then have "sel_run sel_release ?s (replicate k c) =
      Inr ([], s\<lparr>pd_cnts := (pd_cnts s)(?a := pd_cnts s ?a - 1 - of_nat k)\<rparr>)"
    using Suc.IH [of ?s] Suc.prems by (simp add: fun_upd_def cong: if_cong)
  moreover have "sel_release s c = Inr (None, ?s)"
    using Suc.prems(1) n1 by (simp add: sel_release_def pd_unref_def Let_def)
  ultimately show ?case by (simp add: diff_diff_eq fun_upd_def)
qed simp

lemma release_total: "pools_ok s \<Longrightarrow> \<exists>s'. uinet_pd_ref_release s cs = Inr s'"
  using release_sel.batch_loop_groups [of cs s] by (auto simp: uinet_pd_ref_release_def list_all_iff)

lemma uinet_pd_drop_injected_is_release':
  assumes "pools_ok s"
    and "list_all (\<lambda>pd. has (pd_flags pd) UINET_PD_INJECT \<longrightarrow> pd_ctx pd \<noteq> None) pds"
  shows "uinet_pd_drop_injected s pds =
     uinet_pd_ref_release s (map (the \<circ> pd_ctx) (filter (\<lambda>pd. has (pd_flags pd) UINET_PD_INJECT) pds))"
proof -
  obtain cs t where run: "sel_run sel_injected s pds = Inr (cs, t)"
    using injected_sel.sel_run_total [OF assms(2)] by blast
  show ?thesis
    unfolding uinet_pd_drop_injected_def uinet_pd_ref_release_def
    using injected_sel.batch_loop_spec [OF run assms(1)]
      release_sel.batch_loop_spec [OF run [unfolded sel_run_injected [OF assms(2)]] assms(1)]
    by simp
qed





section \<open>Properties of the reference count\<close>

lemma release_none:
  "sel_run sel_release s pdctx = Inr ([], t) \<Longrightarrow> pools_ok s \<Longrightarrow>
   \<exists>s2. uinet_pd_ref_release s pdctx = Inr s2 \<and> pd_freed s2 = pd_freed s"
  using release_sel.batch_loop_spec [of s pdctx "[]" t] by (simp add: uinet_pd_ref_release_def)

lemma release_one:
  "sel_run sel_release s pdctx = Inr ([c], t) \<Longrightarrow> pools_ok s \<Longrightarrow>
   \<exists>s3. uinet_pd_ref_release s pdctx = Inr s3 \<and> pd_freed s3 = pd_freed s @ [(ctx_pool s c, [c])]"
  using release_sel.batch_loop_spec [of s pdctx "[c]" t]
  by (simp add: uinet_pd_ref_release_def pool_groups_run [of _ _ "ctx_pool s c"]
      UINET_PD_FREE_BATCH_SIZE_def)

lemma counted_release:
  assumes "pools_ok s" "\<not> has (ctx_flags (pd_ctxs s c)) UINET_PD_CTX_SINGLE_REF"
    and "pd_cnts s (ctx_refcnt (pd_ctxs s c)) = 1 + r" "r \<noteq> - 1"
  shows "\<forall>k \<le> unat r. \<exists>s2. uinet_pd_ref_release s (replicate k c) = Inr s2 \<and> pd_freed s2 = pd_freed s"
    and "\<exists>s3. uinet_pd_ref_release s (replicate (Suc (unat r)) c) = Inr s3 \<and>
          pd_freed s3 = pd_freed s @ [(ctx_pool s c, [c])]"
proof -
  have unat: "unat (1 + r) = Suc (unat r)"
    using assms(4) by (metis add.commute add_eq_0_iff unatSuc)
  have run: "sel_run sel_release s (replicate k c) =
      Inr ([], s\<lparr>pd_cnts := (pd_cnts s)(ctx_refcnt (pd_ctxs s c) := 1 + r - of_nat k)\<rparr>)"
    if "k \<le> unat r" for k
    using sel_run_many [OF assms(2), of k] unat that assms(3) by simp
  then show "\<forall>k \<le> unat r. \<exists>s2. uinet_pd_ref_release s (replicate k c) = Inr s2 \<and> pd_freed s2 = pd_freed s"
    using release_none assms(1) by blast
  let ?s = "s\<lparr>pd_cnts := (pd_cnts s)(ctx_refcnt (pd_ctxs s c) := 1)\<rparr>"
  have "sel_run sel_release s (replicate (unat r) c @ [c]) = Inr ([c], ?s)"
    using run [OF order_refl] assms(2)
    by (simp add: sel_run_append sel_release_eq pd_unref_def Let_def)
  then have "sel_run sel_release s (replicate (Suc (unat r)) c) = Inr ([c], ?s)"
    using replicate_append_same [of "unat r" c] by (simp only: replicate_Suc)
  then show "\<exists>s3. uinet_pd_ref_release s (replicate (Suc (unat r)) c) = Inr s3 \<and>
      pd_freed s3 = pd_freed s @ [(ctx_pool s c, [c])]"
    using release_one assms(1) by blast
qed



section \<open>Properties of concurrent release\<close>

inductive_cases release_stepE: "release_step s s'"

lemma release_inv_start: "0 < n \<Longrightarrow> n < 2 ^ 32 \<Longrightarrow> release_inv (release_start n)"
  by (simp add: release_inv_def release_start_def live_pcs_def freed_pcs_def unsigned_of_nat
      take_bit_nat_eq_self)

lemma pcs_update:
  "i < length (rel_pcs s) \<Longrightarrow>
   live_pcs (s\<lparr>rel_pcs := (rel_pcs s)[i := y]\<rparr>) + of_bool (rel_pcs s ! i = Test \<or> rel_pcs s ! i = Sub) =
   live_pcs s + of_bool (y = Test \<or> y = Sub)"
  "i < length (rel_pcs s) \<Longrightarrow>
   freed_pcs (s\<lparr>rel_pcs := (rel_pcs s)[i := y]\<rparr>) + of_bool (rel_pcs s ! i = Freed) =
   freed_pcs s + of_bool (y = Freed)"
  using length_filter_update [of i "rel_pcs s" "\<lambda>p. p = Test \<or> p = Sub" y]
    length_filter_update [of i "rel_pcs s" "\<lambda>p. p = Freed" y]
  by (simp_all add: live_pcs_def freed_pcs_def of_bool_def)

lemma pcs_cnt [simp]:
  "live_pcs (s\<lparr>rel_cnt := k\<rparr>) = live_pcs s" "freed_pcs (s\<lparr>rel_cnt := k\<rparr>) = freed_pcs s"
  by (simp_all add: live_pcs_def freed_pcs_def)

lemma live_pcs_pos:
  "i < length (rel_pcs s) \<Longrightarrow> rel_pcs s ! i = Test \<or> rel_pcs s ! i = Sub \<Longrightarrow> 0 < live_pcs s"
  unfolding live_pcs_def by (rule length_filter_pos)

lemma release_inv_step:
  assumes "release_step s s'" "release_inv s"
  shows "release_inv s'"
proof -
  from assms(1) obtain i where i: "i < length (rel_pcs s)" "rel_pcs s ! i = Test \<or> rel_pcs s ! i = Sub"
    by (auto elim: release_stepE)
  have live: "0 < live_pcs s" using live_pcs_pos i by blast
  then have none: "freed_pcs s = 0" and cnt: "unat (rel_cnt s) = live_pcs s"
    using assms(2) by (auto simp: release_inv_def split: if_splits)
  have one: "rel_cnt s = 1 \<longleftrightarrow> live_pcs s = 1"
    using cnt by (metis unat_1 unsigned_word_eqI)
  have dec: "unat (rel_cnt s - 1) = live_pcs s - 1"
    using cnt live by (metis gr_implies_not_zero unat_0 unat_minus_one)
  show ?thesis
    using assms(1)
  proof cases
    case (read_one j)
    then show ?thesis
      using pcs_update [of j s Freed] none one by (simp add: release_inv_def)
  next
    case (read_more j)
    then show ?thesis
      using pcs_update [of j s Sub] none cnt live by (simp add: release_inv_def)
  next
    case (fetchadd j)
    let ?y = "if rel_cnt s = 1 then Freed else Kept"
    let ?s = "s\<lparr>rel_pcs := (rel_pcs s)[j := ?y]\<rparr>"
    have "live_pcs ?s = live_pcs s - 1" "freed_pcs ?s = of_bool (rel_cnt s = 1)"
      using pcs_update [of j s ?y] none live fetchadd by (auto split: if_splits)
    moreover have "s' = ?s\<lparr>rel_cnt := rel_cnt s - 1\<rparr>" using fetchadd by simp
    ultimately show ?thesis using dec one live by (auto simp: release_inv_def)
  qed
qed

text \<open>
  C11. As many threads as there are references release a context at the same time. In
  every interleaving at most one of them frees it, no thread is still to touch the count
  once it is freed, and when all have finished exactly one has freed it.
\<close>

theorem concurrent_release_safe:
  assumes "0 < n" "n < 2 ^ 32" "release_step\<^sup>*\<^sup>* (release_start n) s"
  shows "freed_pcs s \<le> 1 \<and> (0 < freed_pcs s \<longrightarrow> live_pcs s = 0) \<and> (live_pcs s = 0 \<longrightarrow> freed_pcs s = 1)"
proof -
  from assms(3) have "release_inv s"
    by (induction rule: rtranclp_induct) (use assms(1,2) release_inv_start release_inv_step in blast)+
  then show ?thesis by (auto simp: release_inv_def split: if_splits)
qed

section \<open>Instances\<close>

definition demo_state :: "unit pd_state" where
  "demo_state = \<lparr>pd_ctxs = (\<lambda>c. \<lparr>ctx_timestamp = 0, ctx_m = c, ctx_ref = 0, ctx_m_orig_len = 0,
      ctx_flags = 1, ctx_pool_id = 0, ctx_refcnt = c\<rparr>),
    pd_cnts = (\<lambda>_. 1),
    pd_mbufs = (\<lambda>_. \<lparr>m_next = None, m_nextpkt = None, m_data = 0, m_len = 0, m_flags = 0, m_type = 0,
      m_pkthdr_len = 0, m_pkthdr_rcvif = None, m_pkthdr_header = 0,
      m_pkthdr_flowid = 0, m_pkthdr_csum_flags = 0, m_pkthdr_csum_data = 0, m_pkthdr_tso_segsz = 0,
      m_pkthdr_ether_vtag = 0, m_tags = [], m_ext_buf = 0, m_ext_size = 0,
      m_ext_type = 0, m_ext_free = No_free, m_ext_arg1 = 0, m_ext_arg2 = None, m_ext_ref_cnt = 0\<rparr>),
    pd_pool_table = Some \<lparr>pool_type = 1, pool_bufsize = 2048\<rparr> # replicate 31 None,
    pd_zone = (), pd_freed = []\<rparr>"

definition demo_pd :: "u16 \<Rightarrow> nat \<Rightarrow> uinet_pd" where
  "demo_pd flags c = \<lparr>pd_flags = flags, pd_length = 60, pd_pool_id = 0, pd_ref = 0, pd_data = 0,
     pd_ctx = Some c, pd_serialno = 0\<rparr>"

lemma demo_pools_ok: "pools_ok demo_state"
  by (simp add: pools_ok_def demo_state_def ctx_pool_def UINET_PD_MAX_POOLS_def)





theorem concurrent_release_safe_witness:
  "release_step\<^sup>*\<^sup>* (release_start 1) \<lparr>rel_cnt = 1, rel_pcs = [Freed]\<rparr> \<and>
   freed_pcs \<lparr>rel_cnt = 1, rel_pcs = [Freed]\<rparr> = 1"
proof -
  have "release_step (release_start 1) \<lparr>rel_cnt = 1, rel_pcs = [Freed]\<rparr>"
    using release_step.read_one [of 0 "release_start 1"] by (simp add: release_start_def)
  then have r: "release_step\<^sup>*\<^sup>* (release_start 1) \<lparr>rel_cnt = 1, rel_pcs = [Freed]\<rparr>" by blast
  have "live_pcs \<lparr>rel_cnt = 1, rel_pcs = [Freed]\<rparr> = 0" by (simp add: live_pcs_def)
  then show ?thesis using concurrent_release_safe [OF _ _ r] r by simp
qed

end
