(* ===== verification/Pd_Mbuf.thy ===== *)
theory Pd_Mbuf
  imports Pkt_Desc Errno
begin

text \<open>
  The pool of mbuf packet descriptors of \<^verbatim>\<open>src/lib/libuinet/uinet_pkt_desc.c\<close>: contexts that
  own a preallocated cluster mbuf, with the zone's init, fini, constructor and destructor,
  the two ways a context goes back to the pool (the descriptor interface, and the mbuf
  interface through \<^verbatim>\<open>mb_free_ext\<close>), and the delivery of received descriptors to the stack.
  Of \<^verbatim>\<open>sys/kern\<close> it models \<^verbatim>\<open>mb_ctor_pack\<close>, \<^verbatim>\<open>m_pkthdr_init\<close>, \<^verbatim>\<open>m_extadd\<close> and
  \<^verbatim>\<open>mb_free_ext\<close>. The zone allocator itself is a parameter.
\<close>

section \<open>Constants and the allocator\<close>

definition M_EXT :: u32 where "M_EXT = 0x1"
definition M_PKTHDR :: u32 where "M_PKTHDR = 0x2"
definition M_NOFREE :: u32 where "M_NOFREE = 0x40000"
definition MT_DATA :: u16 where "MT_DATA = 1"
definition MCLBYTES :: u16 where "MCLBYTES = 2048"

definition EXT_CLUSTER :: nat where "EXT_CLUSTER = 1"
definition EXT_SFBUF :: nat where "EXT_SFBUF = 2"
definition EXT_JUMBOP :: nat where "EXT_JUMBOP = 3"
definition EXT_JUMBO9 :: nat where "EXT_JUMBO9 = 4"
definition EXT_JUMBO16 :: nat where "EXT_JUMBO16 = 5"
definition EXT_PACKET :: nat where "EXT_PACKET = 6"
definition EXT_NET_DRV :: nat where "EXT_NET_DRV = 100"
definition EXT_MOD_TYPE :: nat where "EXT_MOD_TYPE = 200"
definition EXT_DISPOSABLE :: nat where "EXT_DISPOSABLE = 300"
definition EXT_EXTREF :: nat where "EXT_EXTREF = 400"

datatype uma_zone = Zone_pd_mbuf_ctx | Zone_pack | Zone_clust | Zone_jumbop | Zone_jumbo9
  | Zone_jumbo16 | Zone_ext_refcnt | Zone_mbuf

text \<open>
  The allocator: an item of the context zone (with whether it comes fresh from the keg,
  so that the zone's init is still to run), its return after a failed init, an mbuf of the
  packet zone, the free routine of each zone, the release of a DPDK buffer, and the
  address of the data area inside an mbuf.
\<close>

record 'z uma_ops =
  uo_ctx_get :: "'z \<Rightarrow> (ctx_addr \<times> bool) option \<times> 'z"
  uo_ctx_unget :: "ctx_addr \<Rightarrow> 'z \<Rightarrow> 'z"
  uo_pack_get :: "'z \<Rightarrow> mbuf_addr option \<times> 'z"
  uo_zfree :: "uma_zone \<Rightarrow> nat \<Rightarrow> 'z \<Rightarrow> 'z"
  uo_dh_free_desc :: "u64 \<Rightarrow> 'z \<Rightarrow> 'z"
  uo_pktdat :: "mbuf_addr \<Rightarrow> u64"

definition upd_mbuf :: "mbuf_addr \<Rightarrow> (pd_mbuf \<Rightarrow> pd_mbuf) \<Rightarrow> 'z pd_state \<Rightarrow> 'z pd_state" where
  "upd_mbuf a f s = s\<lparr>pd_mbufs := (pd_mbufs s)(a := f (pd_mbufs s a))\<rparr>"

definition upd_ctx :: "ctx_addr \<Rightarrow> (uinet_pd_ctx \<Rightarrow> uinet_pd_ctx) \<Rightarrow> 'z pd_state \<Rightarrow> 'z pd_state" where
  "upd_ctx c f s = s\<lparr>pd_ctxs := (pd_ctxs s)(c := f (pd_ctxs s c))\<rparr>"

definition set_cnt :: "cnt_addr \<Rightarrow> u32 \<Rightarrow> 'z pd_state \<Rightarrow> 'z pd_state" where
  "set_cnt a v s = s\<lparr>pd_cnts := (pd_cnts s)(a := v)\<rparr>"

definition upd_zone :: "('z \<Rightarrow> 'z) \<Rightarrow> 'z pd_state \<Rightarrow> 'z pd_state" where
  "upd_zone f s = s\<lparr>pd_zone := f (pd_zone s)\<rparr>"

section \<open>Mbufs\<close>

definition m_pkthdr_clear :: "pd_mbuf \<Rightarrow> pd_mbuf" where
  "m_pkthdr_clear m = m\<lparr>m_tags := [], m_pkthdr_rcvif := None, m_pkthdr_header := 0,
     m_pkthdr_len := 0, m_pkthdr_flowid := 0, m_pkthdr_csum_flags := 0, m_pkthdr_csum_data := 0,
     m_pkthdr_tso_segsz := 0, m_pkthdr_ether_vtag := 0\<rparr>"

definition mb_ctor_pack :: "u32 \<Rightarrow> u16 \<Rightarrow> pd_mbuf \<Rightarrow> pd_mbuf" where
  "mb_ctor_pack flags type m =
     (let m = m\<lparr>m_next := None, m_nextpkt := None, m_data := m_ext_buf m, m_len := 0,
               m_flags := flags OR M_EXT, m_type := type\<rparr> in
      if flags AND M_PKTHDR \<noteq> 0 then m_pkthdr_clear m else m)"

definition m_getcl :: "'z uma_ops \<Rightarrow> u16 \<Rightarrow> u32 \<Rightarrow> 'z pd_state \<Rightarrow> mbuf_addr option \<times> 'z pd_state" where
  "m_getcl ops type flags s =
     (let (r, z) = uo_pack_get ops (pd_zone s); s = s\<lparr>pd_zone := z\<rparr> in
      case r of None \<Rightarrow> (None, s) | Some a \<Rightarrow> (Some a, upd_mbuf a (mb_ctor_pack flags type) s))"

definition m_pkthdr_init :: "'z uma_ops \<Rightarrow> mbuf_addr \<Rightarrow> 'z pd_state \<Rightarrow> int \<times> 'z pd_state" where
  "m_pkthdr_init ops a s = (0, upd_mbuf a (\<lambda>m. m_pkthdr_clear (m\<lparr>m_data := uo_pktdat ops a\<rparr>)) s)"

text \<open>The external reference count is the caller's for \<open>EXT_EXTREF\<close>, the only type used here.\<close>

definition m_extadd_extref ::
  "mbuf_addr \<Rightarrow> u64 \<Rightarrow> u32 \<Rightarrow> ext_free \<Rightarrow> u64 \<Rightarrow> ctx_addr option \<Rightarrow> u32 \<Rightarrow> 'z pd_state \<Rightarrow> 'z pd_state"
where
  "m_extadd_extref a buf sz freef arg1 arg2 flags s =
     upd_mbuf a (\<lambda>m. m\<lparr>m_flags := m_flags m OR (M_EXT OR flags), m_ext_buf := buf, m_data := buf,
        m_ext_size := sz, m_ext_free := freef, m_ext_arg1 := arg1, m_ext_arg2 := arg2,
        m_ext_type := EXT_EXTREF\<rparr>)
       (set_cnt (m_ext_ref_cnt (pd_mbufs s a)) 1 s)"

section \<open>The context zone\<close>



definition uinet_pd_mbuf_zinit_pd_ctx ::
  "'z uma_ops \<Rightarrow> u16 \<Rightarrow> ctx_addr \<Rightarrow> 'z pd_state \<Rightarrow> int \<times> 'z pd_state" where
  "uinet_pd_mbuf_zinit_pd_ctx ops pd_mbuf_ctx_pool_id c s =
     (let (r, s) = m_getcl ops MT_DATA M_PKTHDR s in
      case r of None \<Rightarrow> (UINET_ENOMEM, s)
      | Some a \<Rightarrow>
          let s = upd_mbuf a (\<lambda>m. m\<lparr>m_ext_type := EXT_EXTREF, m_ext_free := Pd_mbuf_ext_free,
                      m_ext_arg2 := Some c\<rparr>) s
          in (0, upd_ctx c (\<lambda>x. x\<lparr>ctx_m := a, ctx_refcnt := m_ext_ref_cnt (pd_mbufs s a),
                      ctx_pool_id := pd_mbuf_ctx_pool_id\<rparr>) s))"

definition uinet_pd_mbuf_zfini_pd_ctx :: "'z uma_ops \<Rightarrow> ctx_addr \<Rightarrow> 'z pd_state \<Rightarrow> 'z pd_state" where
  "uinet_pd_mbuf_zfini_pd_ctx ops c s =
     (let a = ctx_m (pd_ctxs s c);
          s = upd_mbuf a (\<lambda>m. m\<lparr>m_ext_type := EXT_PACKET, m_ext_free := No_free, m_ext_arg2 := None\<rparr>) s;
          r = m_ext_ref_cnt (pd_mbufs s a);
          s = (if pd_cnts s r = 0 then set_cnt r 1 s else s)
      in upd_zone (uo_zfree ops Zone_pack a) s)"

definition uinet_pd_mbuf_ctor_pd_ctx :: "'z uma_ops \<Rightarrow> ctx_addr \<Rightarrow> 'z pd_state \<Rightarrow> int \<times> 'z pd_state" where
  "uinet_pd_mbuf_ctor_pd_ctx ops c s =
     (let a = ctx_m (pd_ctxs s c); (error, s) = m_pkthdr_init ops a s in
      if error \<noteq> 0 then (error, s)
      else
        let s = upd_mbuf a (\<lambda>m. m\<lparr>m_next := None, m_nextpkt := None, m_data := m_ext_buf m, m_len := 0,
                  m_flags := (M_PKTHDR OR M_NOFREE) OR M_EXT, m_type := MT_DATA\<rparr>) s;
            s = upd_ctx c (\<lambda>x. x\<lparr>ctx_flags := UINET_PD_CTX_SINGLE_REF, ctx_timestamp := 0\<rparr>) s
        in (0, set_cnt (ctx_refcnt (pd_ctxs s c)) 1 s))"

definition uinet_pd_mbuf_dtor_pd_ctx :: "ctx_addr \<Rightarrow> 'z pd_state \<Rightarrow> 'z pd_state" where
  "uinet_pd_mbuf_dtor_pd_ctx c s =
     (let a = ctx_m (pd_ctxs s c) in
      if m_flags (pd_mbufs s a) AND M_PKTHDR \<noteq> 0 then upd_mbuf a (\<lambda>m. m\<lparr>m_tags := []\<rparr>) s else s)"

text \<open>
  \<^verbatim>\<open>uma_zalloc(zone_pd_mbuf_ctx, M_NOWAIT)\<close> with the zone's hooks: init for an item fresh
  from the keg, then the constructor.
\<close>

definition zalloc_pd_ctx ::
  "'z uma_ops \<Rightarrow> u16 \<Rightarrow> 'z pd_state \<Rightarrow> ctx_addr option \<times> 'z pd_state" where
  "zalloc_pd_ctx ops pool s =
     (let (r, z) = uo_ctx_get ops (pd_zone s); s = s\<lparr>pd_zone := z\<rparr> in
      case r of None \<Rightarrow> (None, s)
      | Some (c, fresh) \<Rightarrow>
          let (error, s) = (if fresh then uinet_pd_mbuf_zinit_pd_ctx ops pool c s else (0, s)) in
          if error \<noteq> 0 then (None, upd_zone (uo_ctx_unget ops c) s)
          else
            let (error, s) = uinet_pd_mbuf_ctor_pd_ctx ops c s in
            if error \<noteq> 0 then (None, upd_zone (uo_ctx_unget ops c) s) else (Some c, s))"

text \<open>\<^verbatim>\<open>uma_zfree\<close> does nothing for a null item and runs the destructor otherwise.\<close>

definition uinet_pd_mbuf_free_ctx :: "'z uma_ops \<Rightarrow> ctx_addr option \<Rightarrow> 'z pd_state \<Rightarrow> 'z pd_state" where
  "uinet_pd_mbuf_free_ctx ops pdctx s =
     (case pdctx of None \<Rightarrow> s
      | Some c \<Rightarrow> upd_zone (uo_zfree ops Zone_pd_mbuf_ctx c) (uinet_pd_mbuf_dtor_pd_ctx c s))"

definition uinet_pd_mbuf_ext_free ::
  "'z uma_ops \<Rightarrow> u64 \<Rightarrow> ctx_addr option \<Rightarrow> 'z pd_state \<Rightarrow> 'z pd_state" where
  "uinet_pd_mbuf_ext_free ops arg1 arg2 s =
     uinet_pd_mbuf_free_ctx ops (if arg1 = 0 then None else Some (unat arg1)) s"

fun uinet_pd_mbuf_free_descs :: "'z uma_ops \<Rightarrow> ctx_addr option list \<Rightarrow> 'z pd_state \<Rightarrow> 'z pd_state" where
  "uinet_pd_mbuf_free_descs ops [] s = s"
| "uinet_pd_mbuf_free_descs ops (c # cs) s =
     uinet_pd_mbuf_free_descs ops cs (uinet_pd_mbuf_free_ctx ops c s)"

text \<open>\<^verbatim>\<open>if_dpdk_free_rte_buf\<close> of \<^verbatim>\<open>uinet_if_dpdk.c\<close>, the driver's free routine.\<close>

definition if_dpdk_free_rte_buf ::
  "'z uma_ops \<Rightarrow> u64 \<Rightarrow> ctx_addr option \<Rightarrow> 'z pd_state \<Rightarrow> 'z pd_state" where
  "if_dpdk_free_rte_buf ops base dummy s =
     uinet_pd_mbuf_free_descs ops [dummy] (upd_zone (uo_dh_free_desc ops base) s)"

definition call_ext_free ::
  "'z uma_ops \<Rightarrow> ext_free \<Rightarrow> u64 \<Rightarrow> ctx_addr option \<Rightarrow> 'z pd_state \<Rightarrow> 'z pd_state res" where
  "call_ext_free ops f arg1 arg2 s =
     (case f of No_free \<Rightarrow> Inl Null_deref
      | Pd_mbuf_ext_free \<Rightarrow> Inr (uinet_pd_mbuf_ext_free ops arg1 arg2 s)
      | Dpdk_free_rte_buf \<Rightarrow> Inr (if_dpdk_free_rte_buf ops arg1 arg2 s))"

section \<open>Freeing an mbuf with external storage\<close>

text \<open>The switch on the storage type; the flag says that the function returns here.\<close>

definition mb_free_ext_storage :: "'z uma_ops \<Rightarrow> mbuf_addr \<Rightarrow> 'z pd_state \<Rightarrow> (bool \<times> 'z pd_state) res" where
  "mb_free_ext_storage ops a s =
     (let m = pd_mbufs s a; t = m_ext_type m; r = m_ext_ref_cnt m;
          zf = (\<lambda>zone. Inr (False, upd_zone (uo_zfree ops zone (unat (m_ext_buf m))) s));
          fr = (\<lambda>s. res_bind (call_ext_free ops (m_ext_free m) (m_ext_arg1 m) (m_ext_arg2 m) s)
                             (\<lambda>s. Inr (False, s)))
      in
      if t = EXT_PACKET then
        Inr (True, upd_zone (uo_zfree ops Zone_pack a) (if pd_cnts s r = 0 then set_cnt r 1 s else s))
      else if t = EXT_CLUSTER then zf Zone_clust
      else if t = EXT_JUMBOP then zf Zone_jumbop
      else if t = EXT_JUMBO9 then zf Zone_jumbo9
      else if t = EXT_JUMBO16 then zf Zone_jumbo16
      else if t = EXT_SFBUF \<or> t = EXT_NET_DRV \<or> t = EXT_MOD_TYPE \<or> t = EXT_DISPOSABLE then
        fr (upd_zone (uo_zfree ops Zone_ext_refcnt r) (set_cnt r 0 s))
      else if t = EXT_EXTREF then fr s
      else Inr (False, s))"

definition mb_free_ext :: "'z uma_ops \<Rightarrow> mbuf_addr \<Rightarrow> 'z pd_state \<Rightarrow> 'z pd_state res" where
  "mb_free_ext ops a s =
     (let skipmbuf = m_flags (pd_mbufs s a) AND M_NOFREE \<noteq> 0;
          r = m_ext_ref_cnt (pd_mbufs s a); old = pd_cnts s r;
          last = (old = 1);
          s = (if last then s else set_cnt r (old - 1) s)
      in
      res_bind (if last then mb_free_ext_storage ops a s else Inr (False, s)) (\<lambda>(ret, s).
      if ret \<or> skipmbuf then Inr s
      else
        Inr (upd_zone (uo_zfree ops Zone_mbuf a)
          (upd_mbuf a (\<lambda>m. m\<lparr>m_ext_buf := 0, m_ext_free := No_free, m_ext_arg1 := 0, m_ext_arg2 := None,
             m_ext_ref_cnt := 0, m_ext_size := 0, m_ext_type := 0,
             m_flags := m_flags m AND NOT M_EXT\<rparr>) s))))"

section \<open>Lists of descriptors\<close>

text \<open>
  \<^verbatim>\<open>struct uinet_pd_list\<close>: the count, and the array behind it at its allocated length.
\<close>

record uinet_pd_list =
  num_descs :: u32
  descs :: "uinet_pd list"

definition fill_pd :: "'z pd_state \<Rightarrow> ctx_addr \<Rightarrow> uinet_pd \<Rightarrow> uinet_pd" where
  "fill_pd s c pd = pd\<lparr>pd_flags := UINET_PD_TYPE_MBUF, pd_length := MCLBYTES,
     pd_pool_id := ctx_pool_id (pd_ctxs s c), pd_ref := of_nat (ctx_m (pd_ctxs s c)),
     pd_data := m_data (pd_mbufs s (ctx_m (pd_ctxs s c))), pd_ctx := Some c\<rparr>"

fun alloc_descs_loop ::
  "'z uma_ops \<Rightarrow> u16 \<Rightarrow> 'z pd_state \<Rightarrow> uinet_pd list \<Rightarrow> nat \<Rightarrow> nat \<Rightarrow> (nat \<times> 'z pd_state \<times> uinet_pd list) res"
where
  "alloc_descs_loop ops pool s ds pos 0 = Inr (0, s, ds)"
| "alloc_descs_loop ops pool s ds pos (Suc n) =
     (let (r, s) = zalloc_pd_ctx ops pool s in
      case r of None \<Rightarrow> Inr (0, s, ds)
      | Some c \<Rightarrow>
          if pos < length ds
          then res_bind (alloc_descs_loop ops pool s (ds[pos := fill_pd s c (ds ! pos)]) (Suc pos) n)
                 (\<lambda>(i, s, ds). Inr (Suc i, s, ds))
          else Inl Out_of_bounds)"

definition uinet_pd_mbuf_alloc_descs ::
  "'z uma_ops \<Rightarrow> u16 \<Rightarrow> 'z pd_state \<Rightarrow> uinet_pd_list \<Rightarrow> u32 \<Rightarrow> (u32 \<times> 'z pd_state \<times> uinet_pd_list) res"
where
  "uinet_pd_mbuf_alloc_descs ops pool s to n =
     res_bind (alloc_descs_loop ops pool s (descs to) (unat (num_descs to)) (unat n)) (\<lambda>(i, s, ds).
     Inr (of_nat i, s, to\<lparr>num_descs := num_descs to + of_nat i, descs := ds\<rparr>))"

text \<open>\<^verbatim>\<open>malloc\<close> leaves the array as it finds it: \<open>junk\<close>.\<close>

definition uinet_pd_list_alloc :: "uinet_pd list option \<Rightarrow> u32 \<Rightarrow> uinet_pd_list option" where
  "uinet_pd_list_alloc junk n = map_option (\<lambda>ds. \<lparr>num_descs = n, descs = ds\<rparr>) junk"

section \<open>Delivery to the stack\<close>

text \<open>The interface's \<^verbatim>\<open>if_input\<close> is the parameter \<open>input\<close>.\<close>

definition deliver1 ::
  "('z pd_state \<Rightarrow> mbuf_addr \<Rightarrow> 'z pd_state) \<Rightarrow> nat \<Rightarrow> uinet_pd \<Rightarrow> 'z pd_state \<Rightarrow> 'z pd_state res" where
  "deliver1 input ifp pd s =
     (if has (pd_flags pd) UINET_PD_TO_STACK
      then res_bind (deref (pd_ctx pd)) (\<lambda>c.
        let s = upd_ctx c (\<lambda>x. x\<lparr>ctx_flags := (ctx_flags x AND NOT UINET_PD_CTX_SINGLE_REF)
                                   OR UINET_PD_CTX_MBUF_USED, ctx_m_orig_len := pd_length pd\<rparr>) s;
            a = ctx_m (pd_ctxs s c);
            s = upd_mbuf a (\<lambda>m. m\<lparr>m_pkthdr_len := ucast (pd_length pd), m_len := ucast (pd_length pd),
                                  m_pkthdr_rcvif := Some ifp\<rparr>) s
        in Inr (input s a))
      else Inr s)"

fun deliver_loop ::
  "('z pd_state \<Rightarrow> mbuf_addr \<Rightarrow> 'z pd_state) \<Rightarrow> nat \<Rightarrow> uinet_pd list \<Rightarrow> 'z pd_state \<Rightarrow> 'z pd_state res" where
  "deliver_loop input ifp [] s = Inr s"
| "deliver_loop input ifp (pd # pds) s = res_bind (deliver1 input ifp pd s) (deliver_loop input ifp pds)"

definition uinet_pd_deliver_to_stack ::
  "('z pd_state \<Rightarrow> mbuf_addr \<Rightarrow> 'z pd_state) \<Rightarrow> nat \<Rightarrow> uinet_pd_list \<Rightarrow> 'z pd_state \<Rightarrow> 'z pd_state res" where
  "uinet_pd_deliver_to_stack input ifp pkts s =
     (if unat (num_descs pkts) \<le> length (descs pkts)
      then deliver_loop input ifp (take (unat (num_descs pkts)) (descs pkts)) s
      else Inl Out_of_bounds)"


section \<open>Lemmas\<close>

lemmas upd_defs = upd_mbuf_def upd_ctx_def set_cnt_def upd_zone_def

text \<open>What the constructor leaves: a context with one reference and an empty mbuf.\<close>

definition ctx_clean :: "'z pd_state \<Rightarrow> ctx_addr \<Rightarrow> bool" where
  "ctx_clean s c \<longleftrightarrow>
     (let x = pd_ctxs s c; m = pd_mbufs s (ctx_m x) in
      ctx_flags x = UINET_PD_CTX_SINGLE_REF \<and> ctx_timestamp x = 0 \<and> pd_cnts s (ctx_refcnt x) = 1 \<and>
      m_next m = None \<and> m_nextpkt m = None \<and> m_len m = 0 \<and> m_data m = m_ext_buf m \<and>
      m_flags m = (M_PKTHDR OR M_NOFREE) OR M_EXT \<and> m_type m = MT_DATA \<and> m_pkthdr_clear m = m)"

lemma ctor_clean:
  "uinet_pd_mbuf_ctor_pd_ctx ops c s = (e, s') \<Longrightarrow>
   e = 0 \<and> ctx_clean s' c \<and>
   ctx_m (pd_ctxs s' c) = ctx_m (pd_ctxs s c) \<and> ctx_refcnt (pd_ctxs s' c) = ctx_refcnt (pd_ctxs s c) \<and>
   m_ext_buf (pd_mbufs s' (ctx_m (pd_ctxs s c))) = m_ext_buf (pd_mbufs s (ctx_m (pd_ctxs s c))) \<and>
   m_ext_type (pd_mbufs s' (ctx_m (pd_ctxs s c))) = m_ext_type (pd_mbufs s (ctx_m (pd_ctxs s c))) \<and>
   m_ext_free (pd_mbufs s' (ctx_m (pd_ctxs s c))) = m_ext_free (pd_mbufs s (ctx_m (pd_ctxs s c))) \<and>
   m_ext_arg1 (pd_mbufs s' (ctx_m (pd_ctxs s c))) = m_ext_arg1 (pd_mbufs s (ctx_m (pd_ctxs s c))) \<and>
   m_ext_ref_cnt (pd_mbufs s' (ctx_m (pd_ctxs s c))) = m_ext_ref_cnt (pd_mbufs s (ctx_m (pd_ctxs s c)))"
  by (auto simp: uinet_pd_mbuf_ctor_pd_ctx_def m_pkthdr_init_def Let_def upd_defs ctx_clean_def
      m_pkthdr_clear_def)

lemma zalloc_clean: "zalloc_pd_ctx ops pool s = (Some c, s') \<Longrightarrow> ctx_clean s' c"
  by (auto simp: zalloc_pd_ctx_def Let_def dest!: ctor_clean split: prod.splits option.splits if_splits)

text \<open>A descriptor as the allocation leaves it: the serial number keeps its old value.\<close>

definition fresh_pd :: "uinet_pd \<Rightarrow> uinet_pd \<Rightarrow> bool" where
  "fresh_pd old pd \<longleftrightarrow> pd_flags pd = UINET_PD_TYPE_MBUF \<and> pd_length pd = MCLBYTES \<and>
     pd_ctx pd \<noteq> None \<and> pd_serialno pd = pd_serialno old"

lemma alloc_descs_loop_spec:
  "pos + n \<le> length ds \<Longrightarrow>
   \<exists>i s' ds'. alloc_descs_loop ops pool s ds pos n = Inr (i, s', ds') \<and> i \<le> n \<and> length ds' = length ds \<and>
     (\<forall>j. (pos \<le> j \<and> j < pos + i \<longrightarrow> fresh_pd (ds ! j) (ds' ! j)) \<and>
          (\<not> (pos \<le> j \<and> j < pos + i) \<longrightarrow> ds' ! j = ds ! j))"
proof (induction n arbitrary: s ds pos)
  case (Suc n)
  obtain r s1 where z: "zalloc_pd_ctx ops pool s = (r, s1)" by fastforce
  show ?case
  proof (cases r)
    case (Some c)
    let ?ds = "ds[pos := fill_pd s1 c (ds ! pos)]"
    obtain i s' ds' where IH: "alloc_descs_loop ops pool s1 ?ds (Suc pos) n = Inr (i, s', ds')"
      "i \<le> n" "length ds' = length ?ds"
      "\<And>j. Suc pos \<le> j \<and> j < Suc pos + i \<Longrightarrow> fresh_pd (?ds ! j) (ds' ! j)"
      "\<And>j. \<not> (Suc pos \<le> j \<and> j < Suc pos + i) \<Longrightarrow> ds' ! j = ?ds ! j"
      using Suc.IH [of "Suc pos" ?ds s1] Suc.prems by auto
    have at: "fresh_pd (ds ! pos) (ds' ! pos)"
      using IH(5) [of pos] Suc.prems by (simp add: fresh_pd_def fill_pd_def)
    have "fresh_pd (ds ! j) (ds' ! j)" if "pos \<le> j \<and> j < pos + Suc i" for j
      using at IH(4) [of j] that by (cases "j = pos") auto
    moreover have "ds' ! j = ds ! j" if "\<not> (pos \<le> j \<and> j < pos + Suc i)" for j
      using IH(5) [of j] that by (cases "j = pos") auto
    ultimately show ?thesis using IH(1-3) Suc.prems z Some by simp
  qed (use z in auto)
qed auto

lemma mb_free_ext_more:
  "pd_cnts s (m_ext_ref_cnt (pd_mbufs s a)) \<noteq> 1 \<Longrightarrow> m_flags (pd_mbufs s a) AND M_NOFREE \<noteq> 0 \<Longrightarrow>
   mb_free_ext ops a s =
     Inr (set_cnt (m_ext_ref_cnt (pd_mbufs s a)) (pd_cnts s (m_ext_ref_cnt (pd_mbufs s a)) - 1) s)"
  by (simp add: mb_free_ext_def Let_def)

lemma mb_free_ext_last:
  "pd_cnts s (m_ext_ref_cnt (pd_mbufs s a)) = 1 \<Longrightarrow> m_flags (pd_mbufs s a) AND M_NOFREE \<noteq> 0 \<Longrightarrow>
   m_ext_type (pd_mbufs s a) = EXT_EXTREF \<Longrightarrow>
   mb_free_ext ops a s =
     call_ext_free ops (m_ext_free (pd_mbufs s a)) (m_ext_arg1 (pd_mbufs s a)) (m_ext_arg2 (pd_mbufs s a)) s"
  by (cases "call_ext_free ops (m_ext_free (pd_mbufs s a)) (m_ext_arg1 (pd_mbufs s a))
        (m_ext_arg2 (pd_mbufs s a)) s")
     (simp_all add: mb_free_ext_def mb_free_ext_storage_def Let_def EXT_EXTREF_def EXT_PACKET_def
        EXT_CLUSTER_def EXT_JUMBOP_def EXT_JUMBO9_def EXT_JUMBO16_def EXT_SFBUF_def EXT_NET_DRV_def
        EXT_MOD_TYPE_def EXT_DISPOSABLE_def)

lemma nofree_flags: "(M_PKTHDR OR M_NOFREE) OR M_EXT = 0x40003" "(0x40003 :: u32) AND M_NOFREE \<noteq> 0"
  by (simp_all add: M_PKTHDR_def M_NOFREE_def M_EXT_def)


section \<open>Properties\<close>

text \<open>
  Allocating \<open>n\<close> descriptors into a list with room for them appends some number of
  fresh ones, at most \<open>n\<close>, counts exactly those, and leaves every other entry of the array
  as it was.
\<close>

theorem uinet_pd_mbuf_alloc_descs_spec:
  assumes "unat (num_descs to) + unat n \<le> length (descs to)"
  shows "\<exists>i s' to'. uinet_pd_mbuf_alloc_descs ops pool s to n = Inr (of_nat i, s', to') \<and>
     i \<le> unat n \<and> num_descs to' = num_descs to + of_nat i \<and> length (descs to') = length (descs to) \<and>
     (\<forall>j. if unat (num_descs to) \<le> j \<and> j < unat (num_descs to) + i
          then fresh_pd (descs to ! j) (descs to' ! j) else descs to' ! j = descs to ! j)"
  using alloc_descs_loop_spec [OF assms, of ops pool s]
  by (auto simp: uinet_pd_mbuf_alloc_descs_def)

text \<open>
  A context that the pool hands out has the flag of a single reference, a count of one
  and an empty mbuf at the start of its buffer, whatever the previous owner left in it.
\<close>

theorem zalloc_pd_ctx_clean:
  assumes "zalloc_pd_ctx ops pool s = (Some c, s')"
  shows "ctx_clean s' c \<and> pd_data (fill_pd s' c pd) = m_ext_buf (pd_mbufs s' (ctx_m (pd_ctxs s' c)))"
  using zalloc_clean [OF assms] by (simp add: ctx_clean_def fill_pd_def Let_def)

text \<open>
  The last reference to a descriptor of the mbuf pool released through the mbuf
  interface does not return the descriptor: the free routine looks for it in its first
  argument, the constructor of the zone stores it in the second. Neither the context nor
  the mbuf goes back to a zone.
\<close>

theorem mbuf_release_leaks_context:
  assumes "uo_ctx_get ops (pd_zone s) = (Some (c, True), z)"
    and "uo_pack_get ops z = (Some a, z')"
    and "m_ext_arg1 (pd_mbufs s a) = 0"
  shows "\<exists>s'. zalloc_pd_ctx ops pool s = (Some c, s') \<and> ctx_m (pd_ctxs s' c) = a \<and>
     mb_free_ext ops a s' = Inr s'"
proof -
  let ?s0 = "snd (uinet_pd_mbuf_zinit_pd_ctx ops pool c (s\<lparr>pd_zone := z\<rparr>))"
  obtain e s' where ctor: "uinet_pd_mbuf_ctor_pd_ctx ops c ?s0 = (e, s')" by fastforce
  have init: "uinet_pd_mbuf_zinit_pd_ctx ops pool c (s\<lparr>pd_zone := z\<rparr>) = (0, ?s0)"
    using assms by (simp add: uinet_pd_mbuf_zinit_pd_ctx_def m_getcl_def Let_def)
  have m0: "ctx_m (pd_ctxs ?s0 c) = a" "ctx_refcnt (pd_ctxs ?s0 c) = m_ext_ref_cnt (pd_mbufs ?s0 a)"
    "m_ext_type (pd_mbufs ?s0 a) = EXT_EXTREF" "m_ext_free (pd_mbufs ?s0 a) = Pd_mbuf_ext_free"
    "m_ext_arg1 (pd_mbufs ?s0 a) = 0"
    using assms by (simp_all add: uinet_pd_mbuf_zinit_pd_ctx_def m_getcl_def Let_def upd_defs
        mb_ctor_pack_def m_pkthdr_clear_def)
  note c = ctor_clean [OF ctor, unfolded m0]
  have z: "zalloc_pd_ctx ops pool s = (Some c, s')"
    using assms(1) init ctor c by (auto simp: zalloc_pd_ctx_def case_prod_beta prod_eq_iff)
  have "pd_cnts s' (m_ext_ref_cnt (pd_mbufs s' a)) = 1" "m_flags (pd_mbufs s' a) AND M_NOFREE \<noteq> 0"
    using c nofree_flags by (auto simp: ctx_clean_def Let_def)
  then have "mb_free_ext ops a s' = Inr s'"
    using mb_free_ext_last [of s' a ops] c
    by (simp add: call_ext_free_def uinet_pd_mbuf_ext_free_def uinet_pd_mbuf_free_ctx_def)
  then show ?thesis using z c by blast
qed


text \<open>
  C40. A context that has carried a received DPDK buffer keeps the buffer's address after
  the buffer is freed: when the pool hands the context out again, the new descriptor's data
  pointer is the freed buffer.
\<close>

theorem recycled_descriptor_points_to_freed_buffer:
  assumes "ctx_clean s c" "ctx_m (pd_ctxs s c) = a"
    and "s1 = m_extadd_extref a buf sz Dpdk_free_rte_buf base (Some c) 0 s"
    and "mb_free_ext ops a s1 = Inr s2"
    and "uo_ctx_get ops (pd_zone s2) = (Some (c, False), z)"
  shows "\<exists>s3. zalloc_pd_ctx ops pool s2 = (Some c, s3) \<and> pd_data (fill_pd s3 c pd) = buf"
proof -
  have flags: "m_flags (pd_mbufs s1 a) AND M_NOFREE \<noteq> 0"
    using assms(1-3) by (simp add: ctx_clean_def Let_def m_extadd_extref_def upd_defs M_PKTHDR_def
        M_EXT_def M_NOFREE_def)
  have m1: "pd_cnts s1 (m_ext_ref_cnt (pd_mbufs s1 a)) = 1" "m_ext_type (pd_mbufs s1 a) = EXT_EXTREF"
    "m_ext_free (pd_mbufs s1 a) = Dpdk_free_rte_buf" "m_ext_arg2 (pd_mbufs s1 a) = Some c"
    "m_ext_buf (pd_mbufs s1 a) = buf" "pd_ctxs s1 = pd_ctxs s"
    using assms(3) by (simp_all add: m_extadd_extref_def upd_defs)
  have m2: "m_ext_buf (pd_mbufs s2 a) = buf" "ctx_m (pd_ctxs s2 c) = a"
    using mb_free_ext_last [OF m1(1) flags m1(2), of ops] assms(2,4) m1
    by (auto simp add: call_ext_free_def if_dpdk_free_rte_buf_def uinet_pd_mbuf_free_ctx_def
        uinet_pd_mbuf_dtor_pd_ctx_def Let_def upd_defs)
  obtain e s3 where ctor: "uinet_pd_mbuf_ctor_pd_ctx ops c (s2\<lparr>pd_zone := z\<rparr>) = (e, s3)" by fastforce
  note c = ctor_clean [OF ctor]
  show ?thesis
    using c ctor assms(5) m2 by (auto simp: zalloc_pd_ctx_def fill_pd_def ctx_clean_def Let_def)
qed


section \<open>Instances\<close>

text \<open>An allocator that hands out context 7 fresh from the keg, then again from the cache.\<close>

definition one_ctx_ops :: "(bool \<times> nat) uma_ops" where
  "one_ctx_ops = \<lparr>uo_ctx_get = (\<lambda>(cached, k). (Some (7, \<not> cached), (cached, k))),
     uo_ctx_unget = (\<lambda>_ z. z), uo_pack_get = (\<lambda>z. (Some 8, z)),
     uo_zfree = (\<lambda>_ _ (_, k). (True, k)), uo_dh_free_desc = (\<lambda>_ (c, k). (c, Suc k)),
     uo_pktdat = (\<lambda>_. 0x100)\<rparr>"

lemma one_ctx_ops_simps [simp]:
  "uo_zfree one_ctx_ops zone i (b, k) = (True, k)"
  "uo_dh_free_desc one_ctx_ops base (b, k) = (b, Suc k)"
  by (simp_all add: one_ctx_ops_def)

definition one_ctx_state :: "(bool \<times> nat) pd_state" where
  "one_ctx_state = \<lparr>pd_ctxs = pd_ctxs demo_state, pd_cnts = (\<lambda>_. 1), pd_mbufs = pd_mbufs demo_state,
     pd_pool_table = pd_pool_table demo_state, pd_zone = (False, 0), pd_freed = []\<rparr>"

definition one_list :: uinet_pd_list where
  "one_list = \<lparr>num_descs = 0, descs = [demo_pd 0 1, demo_pd 0 1]\<rparr>"

theorem uinet_pd_mbuf_alloc_descs_spec_witness:
  "unat (num_descs one_list) + unat (1 :: u32) \<le> length (descs one_list) \<and>
   (\<exists>i s' to'. uinet_pd_mbuf_alloc_descs one_ctx_ops 0 one_ctx_state one_list 1 = Inr (of_nat i, s', to') \<and>
     i \<le> 1 \<and> num_descs to' = num_descs one_list + of_nat i)"
proof -
  have h: "unat (num_descs one_list) + unat (1 :: u32) \<le> length (descs one_list)"
    by (simp add: one_list_def)
  have u: "unat (1 :: u32) = 1" by simp
  show ?thesis
    using uinet_pd_mbuf_alloc_descs_spec [OF h, of one_ctx_ops 0 one_ctx_state] h unfolding u by blast
qed

lemma one_ctx_zalloc: "\<exists>s'. zalloc_pd_ctx one_ctx_ops 0 one_ctx_state = (Some 7, s') \<and>
   pd_zone s' = (False, 0) \<and> ctx_m (pd_ctxs s' 7) = 8"
  by (simp add: zalloc_pd_ctx_def one_ctx_ops_def one_ctx_state_def uinet_pd_mbuf_zinit_pd_ctx_def
      m_getcl_def uinet_pd_mbuf_ctor_pd_ctx_def m_pkthdr_init_def Let_def upd_defs)

theorem zalloc_pd_ctx_clean_witness:
  "\<exists>s'. zalloc_pd_ctx one_ctx_ops 0 one_ctx_state = (Some 7, s') \<and> ctx_clean s' 7"
  using one_ctx_zalloc zalloc_pd_ctx_clean [of one_ctx_ops 0 one_ctx_state 7] by blast

theorem mbuf_release_leaks_context_witness:
  "\<exists>s'. zalloc_pd_ctx one_ctx_ops 0 one_ctx_state = (Some 7, s') \<and> mb_free_ext one_ctx_ops 8 s' = Inr s'"
  using mbuf_release_leaks_context [of one_ctx_ops one_ctx_state 7 "(False, 0)" 8 "(False, 0)" 0]
  by (auto simp: one_ctx_ops_def one_ctx_state_def demo_state_def)


theorem recycled_descriptor_points_to_freed_buffer_witness:
  "\<exists>s s2 s3. ctx_clean s 7 \<and>
     mb_free_ext one_ctx_ops 8 (m_extadd_extref 8 0x5000 2048 Dpdk_free_rte_buf 0x4f00 (Some 7) 0 s) = Inr s2 \<and>
     zalloc_pd_ctx one_ctx_ops 0 s2 = (Some 7, s3) \<and> pd_data (fill_pd s3 7 (demo_pd 0 1)) = 0x5000"
proof -
  obtain s where s: "zalloc_pd_ctx one_ctx_ops 0 one_ctx_state = (Some 7, s)" "pd_zone s = (False, 0)"
      "ctx_m (pd_ctxs s 7) = 8"
    using one_ctx_zalloc by blast
  note c = zalloc_clean [OF s(1)]
  let ?s1 = "m_extadd_extref 8 0x5000 2048 Dpdk_free_rte_buf 0x4f00 (Some 7) 0 s"
  have flags: "m_flags (pd_mbufs ?s1 8) AND M_NOFREE \<noteq> 0"
    using c s(3) by (simp add: ctx_clean_def Let_def m_extadd_extref_def upd_defs M_PKTHDR_def
        M_EXT_def M_NOFREE_def)
  have m1: "pd_cnts ?s1 (m_ext_ref_cnt (pd_mbufs ?s1 8)) = 1" "m_ext_type (pd_mbufs ?s1 8) = EXT_EXTREF"
    by (simp_all add: m_extadd_extref_def upd_defs)
  obtain s2 where s2: "mb_free_ext one_ctx_ops 8 ?s1 = Inr s2" "pd_zone s2 = (True, 1)"
    using mb_free_ext_last [OF m1(1) flags m1(2), of one_ctx_ops] s(2)
    by (simp add: call_ext_free_def if_dpdk_free_rte_buf_def uinet_pd_mbuf_free_ctx_def
        uinet_pd_mbuf_dtor_pd_ctx_def Let_def upd_defs m_extadd_extref_def)
  have "uo_ctx_get one_ctx_ops (pd_zone s2) = (Some (7, False), (True, 1))"
    using s2(2) by (simp add: one_ctx_ops_def)
  from recycled_descriptor_points_to_freed_buffer [OF c s(3) refl s2(1) this, of 0 "demo_pd 0 1"]
  show ?thesis using c s2(1) by blast
qed

end
