(* ===== verification/Pd_Ring.thy ===== *)
theory Pd_Ring
  imports Pkt_Desc
begin

text \<open>
  The ring of packet descriptors: \<^verbatim>\<open>struct uinet_pd_ring\<close> and its inline functions in
  \<^verbatim>\<open>src/lib/libuinet/uinet_pkt_desc.h\<close>, \<^verbatim>\<open>uinet_pd_ring_alloc\<close> in \<^verbatim>\<open>uinet_pkt_desc.c\<close>.
  The ring refines a bounded first-in first-out queue.
\<close>

section \<open>The ring\<close>

record uinet_pd_ring =
  ring_num_descs :: u32
  ring_put :: u32
  ring_take :: u32
  ring_drops :: u32
  ring_descs :: "uinet_pd list"

text \<open>The variable \<^verbatim>\<open>space\<close> is a signed 32-bit integer.\<close>

definition uinet_pd_ring_space :: "uinet_pd_ring \<Rightarrow> u32" where
  "uinet_pd_ring_space r =
     (let space = ring_take r - ring_put r - 1 in
      if space <s 0 then space + ring_num_descs r else space)"

definition uinet_pd_ring_avail :: "uinet_pd_ring \<Rightarrow> u32" where
  "uinet_pd_ring_avail r = ring_num_descs r - uinet_pd_ring_space r - 1"

definition uinet_pd_ring_next :: "uinet_pd_ring \<Rightarrow> u32 \<Rightarrow> u32" where
  "uinet_pd_ring_next r cur = (if cur + 1 = ring_num_descs r then 0 else cur + 1)"

text \<open>The array comes from \<^verbatim>\<open>malloc\<close>: \<open>junk n\<close> is what \<open>n\<close> entries of it hold, if it succeeds.\<close>

definition uinet_pd_ring_alloc :: "(nat \<Rightarrow> uinet_pd list option) \<Rightarrow> u32 \<Rightarrow> uinet_pd_ring option" where
  "uinet_pd_ring_alloc junk num_descs =
     (let num_descs = (if num_descs = 0 then 1 else num_descs) in
      map_option (\<lambda>ds. \<lparr>ring_num_descs = num_descs, ring_put = 0, ring_take = 0, ring_drops = 0,
                       ring_descs = ds\<rparr>)
        (junk (unat num_descs)))"

text \<open>One turn of the producer's loop, and of the consumer's.\<close>

definition ring_store :: "uinet_pd_ring \<Rightarrow> uinet_pd \<Rightarrow> uinet_pd_ring res" where
  "ring_store r pd =
     (if unat (ring_put r) < length (ring_descs r)
      then Inr (r\<lparr>ring_descs := (ring_descs r)[unat (ring_put r) := pd],
                  ring_put := uinet_pd_ring_next r (ring_put r)\<rparr>)
      else Inl Out_of_bounds)"

definition ring_load :: "uinet_pd_ring \<Rightarrow> u32 \<Rightarrow> uinet_pd res" where
  "ring_load r i =
     (if unat i < length (ring_descs r) then Inr (ring_descs r ! unat i) else Inl Out_of_bounds)"

section \<open>Invariant and abstraction\<close>

definition ring_inv :: "uinet_pd_ring \<Rightarrow> bool" where
  "ring_inv r \<longleftrightarrow>
     0 < ring_num_descs r \<and> unat (ring_num_descs r) < 2 ^ 31 \<and>
     length (ring_descs r) = unat (ring_num_descs r) \<and>
     ring_put r < ring_num_descs r \<and> ring_take r < ring_num_descs r"

text \<open>The entries from index \<open>i\<close> up to, not including, index \<open>j\<close>, going round.\<close>

definition ring_seg :: "uinet_pd_ring \<Rightarrow> u32 \<Rightarrow> u32 \<Rightarrow> uinet_pd list" where
  "ring_seg r i j =
     (let ds = ring_descs r in
      if unat i \<le> unat j then take (unat j - unat i) (drop (unat i) ds)
      else drop (unat i) ds @ take (unat j) ds)"

definition ring_abs :: "uinet_pd_ring \<Rightarrow> uinet_pd list" where
  "ring_abs r = ring_seg r (ring_take r) (ring_put r)"

definition ring_cap :: "uinet_pd_ring \<Rightarrow> nat" where
  "ring_cap r = unat (ring_num_descs r) - 1"

text \<open>Removing the first entry.\<close>

definition ring_pop :: "uinet_pd_ring \<Rightarrow> (uinet_pd \<times> uinet_pd_ring) res" where
  "ring_pop r = res_bind (ring_load r (ring_take r)) (\<lambda>pd.
     Inr (pd, r\<lparr>ring_take := uinet_pd_ring_next r (ring_take r)\<rparr>))"


text \<open>Storing a list, and popping a number of entries.\<close>

fun enq_all :: "('q \<Rightarrow> 'a \<Rightarrow> 'q res) \<Rightarrow> 'q \<Rightarrow> 'a list \<Rightarrow> 'q res" where
  "enq_all enq q [] = Inr q"
| "enq_all enq q (x # xs) = res_bind (enq q x) (\<lambda>q. enq_all enq q xs)"

fun deq_n :: "('q \<Rightarrow> ('a \<times> 'q) res) \<Rightarrow> 'q \<Rightarrow> nat \<Rightarrow> ('a list \<times> 'q) res" where
  "deq_n deq q 0 = Inr ([], q)"
| "deq_n deq q (Suc n) =
     res_bind (deq q) (\<lambda>(x, q). res_bind (deq_n deq q n) (\<lambda>(xs, q). Inr (x # xs, q)))"

section \<open>The contract of a bounded queue\<close>

locale bounded_fifo =
  fixes inv :: "'q \<Rightarrow> bool" and items :: "'q \<Rightarrow> 'a list" and cap :: "'q \<Rightarrow> nat"
    and enq :: "'q \<Rightarrow> 'a \<Rightarrow> 'q res" and deq :: "'q \<Rightarrow> ('a \<times> 'q) res"
  assumes items_cap: "inv q \<Longrightarrow> length (items q) \<le> cap q"
    and enq_ok: "inv q \<Longrightarrow> length (items q) < cap q \<Longrightarrow>
      \<exists>q'. enq q x = Inr q' \<and> inv q' \<and> items q' = items q @ [x] \<and> cap q' = cap q"
    and deq_ok: "inv q \<Longrightarrow> items q = x # xs \<Longrightarrow>
      \<exists>q'. deq q = Inr (x, q') \<and> inv q' \<and> items q' = xs \<and> cap q' = cap q"
begin

lemma enq_all_ok:
  "inv q \<Longrightarrow> length (items q) + length xs \<le> cap q \<Longrightarrow>
   \<exists>q'. enq_all enq q xs = Inr q' \<and> inv q' \<and> items q' = items q @ xs \<and> cap q' = cap q"
proof (induction xs arbitrary: q)
  case (Cons x xs)
  then obtain q1 where "enq q x = Inr q1" "inv q1" "items q1 = items q @ [x]" "cap q1 = cap q"
    using enq_ok [of q x] by auto
  moreover from this obtain q' where "enq_all enq q1 xs = Inr q'" "inv q'" "items q' = items q1 @ xs"
      "cap q' = cap q1"
    using Cons.IH [of q1] Cons.prems by auto
  ultimately show ?case by simp
qed simp

lemma deq_n_ok:
  "inv q \<Longrightarrow> items q = xs @ ys \<Longrightarrow> n = length xs \<Longrightarrow>
   \<exists>q'. deq_n deq q n = Inr (xs, q') \<and> inv q' \<and> items q' = ys \<and> cap q' = cap q"
proof (induction xs arbitrary: q n)
  case (Cons x xs)
  then obtain q1 where "deq q = Inr (x, q1)" "inv q1" "items q1 = xs @ ys" "cap q1 = cap q"
    using deq_ok [of q x "xs @ ys"] by auto
  moreover from this obtain q' where "deq_n deq q1 (length xs) = Inr (xs, q')" "inv q'" "items q' = ys"
      "cap q' = cap q1"
    using Cons.IH [of q1 "length xs"] by auto
  ultimately show ?case using Cons.prems(3) by simp
qed simp

lemma fifo_roundtrip:
  assumes "inv q" "length (items q) + length xs \<le> cap q"
  shows "\<exists>q1 q2. enq_all enq q xs = Inr q1 \<and> deq_n deq q1 (length (items q) + length xs) =
     Inr (items q @ xs, q2) \<and> inv q2 \<and> items q2 = []"
proof -
  obtain q1 where "enq_all enq q xs = Inr q1" "inv q1" "items q1 = items q @ xs"
    using enq_all_ok [OF assms] by blast
  moreover from this deq_n_ok [of q1 "items q @ xs" "[]"] obtain q2 where
    "deq_n deq q1 (length (items q) + length xs) = Inr (items q @ xs, q2)" "inv q2" "items q2 = []"
    by auto
  ultimately show ?thesis by blast
qed

end

section \<open>The ring meets the contract\<close>

lemma ring_inv_nat:
  assumes "ring_inv r"
  shows "0 < unat (ring_num_descs r)" "unat (ring_num_descs r) < 2 ^ 31"
    "length (ring_descs r) = unat (ring_num_descs r)"
    "unat (ring_put r) < unat (ring_num_descs r)" "unat (ring_take r) < unat (ring_num_descs r)"
  using assms by (simp_all add: ring_inv_def word_less_nat_alt unat_gt_0)

lemma ring_next_unat:
  "unat cur < unat (ring_num_descs r) \<Longrightarrow>
   unat (uinet_pd_ring_next r cur) = (if Suc (unat cur) = unat (ring_num_descs r) then 0 else Suc (unat cur))"
  using u32_Suc [of cur "ring_num_descs r"] by (auto simp: uinet_pd_ring_next_def u32_eq_iff)

lemma ring_seg_take [simp]: "ring_seg (r\<lparr>ring_take := x\<rparr>) i j = ring_seg r i j"
  and ring_seg_drops [simp]: "ring_seg (r\<lparr>ring_drops := d\<rparr>) i j = ring_seg r i j"
  and ring_seg_put [simp]: "ring_seg (r\<lparr>ring_put := x\<rparr>) i j = ring_seg r i j"
  by (simp_all add: ring_seg_def)

lemma ring_seg_length:
  "unat i < length (ring_descs r) \<Longrightarrow> unat j < length (ring_descs r) \<Longrightarrow>
   length (ring_seg r i j) =
     (if unat i \<le> unat j then unat j - unat i else length (ring_descs r) - unat i + unat j)"
  by (auto simp: ring_seg_def Let_def)

lemma ring_space_unat:
  assumes "ring_inv r"
  shows "unat (uinet_pd_ring_space r) + length (ring_abs r) = ring_cap r"
proof -
  note i = ring_inv_nat [OF assms]
  have l: "length (ring_abs r) =
     (if unat (ring_take r) \<le> unat (ring_put r) then unat (ring_put r) - unat (ring_take r)
      else unat (ring_num_descs r) - unat (ring_take r) + unat (ring_put r))"
    using i by (simp add: ring_abs_def ring_seg_length)
  show ?thesis
  proof (cases "unat (ring_put r) < unat (ring_take r)")
    case True
    then have u: "unat (ring_take r - ring_put r - 1) = unat (ring_take r) - unat (ring_put r) - 1"
      by (simp add: unat_sub_if')
    then have "\<not> ring_take r - ring_put r - 1 <s 0" using i by (simp add: u32_sless_0)
    then show ?thesis using True i u l by (simp add: uinet_pd_ring_space_def ring_cap_def)
  next
    case False
    let ?k = "unat (ring_put r) - unat (ring_take r)"
    have "unat (ring_take r - ring_put r) = (if ?k = 0 then 0 else 2 ^ 32 - ?k)"
      using False by (auto simp: unat_sub_if')
    then have u: "unat (ring_take r - ring_put r - 1) = 2 ^ 32 - 1 - ?k"
      using i by (auto simp: unat_sub_if')
    then have s: "ring_take r - ring_put r - 1 <s 0" using i by (simp add: u32_sless_0)
    have "unat (ring_take r - ring_put r - 1 + ring_num_descs r) = unat (ring_num_descs r) - 1 - ?k"
    proof -
      have wrap: "4294967295 - k + n - 4294967296 = n - 1 - k \<and> \<not> 4294967295 - k + n < 4294967296"
        if "k < n" "n < 2147483648" for k n :: nat using that by arith
      have "?k < unat (ring_num_descs r)" using i(4) by (rule less_imp_diff_less)
      then show ?thesis using wrap [of ?k "unat (ring_num_descs r)"] i(2) by (simp add: u32_plus u)
    qed
    then show ?thesis using False i l s by (simp add: uinet_pd_ring_space_def ring_cap_def)
  qed
qed

lemma ring_avail_unat:
  assumes "ring_inv r"
  shows "unat (uinet_pd_ring_avail r) = length (ring_abs r)"
proof -
  have "unat (ring_num_descs r - uinet_pd_ring_space r) = unat (ring_num_descs r) - unat (uinet_pd_ring_space r)"
    using ring_space_unat [OF assms] by (simp add: unat_sub_if' ring_cap_def)
  then show ?thesis
    using ring_space_unat [OF assms] ring_inv_nat(1) [OF assms]
    by (simp add: uinet_pd_ring_avail_def u32_minus [of _ 1] ring_cap_def) linarith
qed

lemma ring_next_bound:
  "0 < unat (ring_num_descs r) \<Longrightarrow> unat cur < unat (ring_num_descs r) \<Longrightarrow>
   unat (uinet_pd_ring_next r cur) < unat (ring_num_descs r)"
  by (auto simp: ring_next_unat)

lemma ring_seg_Cons:
  assumes "ring_inv r" "unat i < unat (ring_num_descs r)" "unat j < unat (ring_num_descs r)" "i \<noteq> j"
  shows "ring_seg r i j = ring_descs r ! unat i # ring_seg r (uinet_pd_ring_next r i) j"
proof -
  note n = ring_inv_nat [OF assms(1)]
  have d: "drop (unat i) (ring_descs r) = ring_descs r ! unat i # drop (Suc (unat i)) (ring_descs r)"
    using n assms(2) by (simp add: Cons_nth_drop_Suc)
  have ne: "unat i \<noteq> unat j" using assms(4) by (simp add: u32_eq_iff)
  show ?thesis
  proof (cases "unat i < unat j")
    case True
    then have "unat j - unat i = Suc (unat j - Suc (unat i))" by simp
    then show ?thesis
      using True n assms(3) d by (simp add: ring_seg_def Let_def ring_next_unat [OF assms(2)])
  next
    case False
    then show ?thesis
      using ne n d by (auto simp: ring_seg_def Let_def ring_next_unat [OF assms(2)])
  qed
qed

lemma ring_seg_store:
  assumes "ring_inv r" "unat i < unat (ring_num_descs r)" "uinet_pd_ring_next r (ring_put r) \<noteq> i"
    and "ring_store r pd = Inr r'"
  shows "ring_seg r' i (ring_put r') = ring_seg r i (ring_put r) @ [pd]"
proof -
  note n = ring_inv_nat [OF assms(1)]
  let ?p = "unat (ring_put r)"
  have r': "ring_descs r' = (ring_descs r)[?p := pd]" "ring_put r' = uinet_pd_ring_next r (ring_put r)"
    using assms(4) n by (auto simp: ring_store_def)
  have nx: "unat (uinet_pd_ring_next r (ring_put r)) = (if Suc ?p = unat (ring_num_descs r) then 0 else Suc ?p)"
    using n by (rule_tac ring_next_unat) simp
  have ne: "unat (uinet_pd_ring_next r (ring_put r)) \<noteq> unat i" using assms(3) by (simp add: u32_eq_iff)
  have upd: "take (Suc ?p) ((ring_descs r)[?p := pd]) = take ?p (ring_descs r) @ [pd]"
    using n by (simp add: take_Suc_conv_app_nth)
  have tk: "take (Suc ?p - unat i) (drop (unat i) ((ring_descs r)[?p := pd])) =
      take (?p - unat i) (drop (unat i) (ring_descs r)) @ [pd]" if "unat i \<le> ?p"
    using that n by (simp add: drop_take [symmetric] take_drop upd)
  show ?thesis
  proof (cases "unat i \<le> ?p")
    case True
    then show ?thesis using tk nx ne r' n
      by (auto simp: ring_seg_def Let_def)
  next
    case False
    then show ?thesis using upd nx ne r' n assms(2)
      by (auto simp: ring_seg_def Let_def)
  qed
qed

lemma ring_store_ok:
  assumes "ring_inv r"
  shows "\<exists>r'. ring_store r pd = Inr r' \<and> ring_inv r' \<and> ring_take r' = ring_take r \<and>
     ring_num_descs r' = ring_num_descs r \<and> ring_drops r' = ring_drops r"
  using ring_inv_nat [OF assms] assms ring_next_bound [of r "ring_put r"]
  by (simp add: ring_store_def ring_inv_def word_less_nat_alt)

lemma ring_room:
  assumes "ring_inv r"
  shows "length (ring_abs r) < ring_cap r \<longleftrightarrow> uinet_pd_ring_next r (ring_put r) \<noteq> ring_take r"
proof -
  note n = ring_inv_nat [OF assms]
  have l: "length (ring_abs r) =
     (if unat (ring_take r) \<le> unat (ring_put r) then unat (ring_put r) - unat (ring_take r)
      else unat (ring_num_descs r) - unat (ring_take r) + unat (ring_put r))"
    using n by (simp add: ring_abs_def ring_seg_length)
  show ?thesis
    using n l by (auto simp: u32_eq_iff ring_next_unat ring_cap_def split: if_splits)
qed

interpretation ring_fifo: bounded_fifo ring_inv ring_abs ring_cap ring_store ring_pop
proof
  show "length (ring_abs r) \<le> ring_cap r" if "ring_inv r" for r
    using ring_space_unat [OF that] by simp
  show "\<exists>r'. ring_store r pd = Inr r' \<and> ring_inv r' \<and> ring_abs r' = ring_abs r @ [pd] \<and> ring_cap r' = ring_cap r"
    if "ring_inv r" "length (ring_abs r) < ring_cap r" for r pd
    using ring_store_ok [OF that(1), of pd] ring_seg_store [OF that(1) ring_inv_nat(5) [OF that(1)]]
      ring_room [OF that(1)] that(2) by (fastforce simp: ring_abs_def ring_cap_def)
  show "\<exists>r'. ring_pop r = Inr (x, r') \<and> ring_inv r' \<and> ring_abs r' = xs \<and> ring_cap r' = ring_cap r"
    if "ring_inv r" "ring_abs r = x # xs" for r x xs
  proof -
    note n = ring_inv_nat [OF that(1)]
    have "ring_take r \<noteq> ring_put r"
      using that(2) by (auto simp: ring_abs_def ring_seg_def)
    then have "ring_abs r = ring_descs r ! unat (ring_take r) #
        ring_seg r (uinet_pd_ring_next r (ring_take r)) (ring_put r)"
      unfolding ring_abs_def using n by (intro ring_seg_Cons [OF that(1)]) auto
    then show ?thesis
      using n that ring_next_bound [OF n(1,5)]
      by (simp add: ring_pop_def ring_load_def ring_abs_def ring_cap_def ring_inv_def word_less_nat_alt)
  qed
qed

section \<open>Properties\<close>

text \<open>
  C2. The ring is a first-in first-out queue of capacity one less than its size. The
  space and the number of entries it reports are those of the queue; storing with space
  left appends, taking from a non-empty ring removes the first entry; both keep the
  invariant.
\<close>

theorem ring_refines_queue:
  assumes "ring_inv r"
  shows "unat (uinet_pd_ring_space r) = ring_cap r - length (ring_abs r) \<and>
     unat (uinet_pd_ring_avail r) = length (ring_abs r) \<and>
     (uinet_pd_ring_space r \<noteq> 0 \<longrightarrow>
       (\<exists>r'. ring_store r pd = Inr r' \<and> ring_inv r' \<and> ring_abs r' = ring_abs r @ [pd])) \<and>
     (ring_abs r \<noteq> [] \<longrightarrow>
       (\<exists>r'. ring_pop r = Inr (hd (ring_abs r), r') \<and> ring_inv r' \<and> ring_abs r' = tl (ring_abs r)))"
proof -
  have sp: "unat (uinet_pd_ring_space r) = ring_cap r - length (ring_abs r)"
    using ring_space_unat [OF assms] by simp
  have "length (ring_abs r) < ring_cap r" if "uinet_pd_ring_space r \<noteq> 0"
    using ring_space_unat [OF assms] that unat_gt_0 [of "uinet_pd_ring_space r"] by linarith
  then show ?thesis
    using sp ring_avail_unat [OF assms] ring_fifo.enq_ok [OF assms, of pd]
      ring_fifo.deq_ok [OF assms, of "hd (ring_abs r)" "tl (ring_abs r)"] by fastforce
qed

text \<open>
  A new ring, of any requested size below \<open>2 ^ 31\<close>, is empty; whatever is then stored, up
  to its capacity, is taken out again in the same order and leaves it empty. A size of zero
  gives a ring that holds nothing.
\<close>

theorem ring_alloc_roundtrip:
  assumes "uinet_pd_ring_alloc junk n = Some r" "\<forall>k ds. junk k = Some ds \<longrightarrow> length ds = k"
    and "unat n < 2 ^ 31" "length xs \<le> unat n - 1"
  shows "ring_inv r \<and> ring_abs r = [] \<and>
     (\<exists>r1 r2. enq_all ring_store r xs = Inr r1 \<and> deq_n ring_pop r1 (length xs) = Inr (xs, r2) \<and>
        ring_abs r2 = [])"
proof -
  have i: "ring_inv r" "ring_abs r = []" "ring_cap r = unat n - 1"
    using assms(1-3) unat_gt_0 [of n]
    by (auto simp: uinet_pd_ring_alloc_def ring_inv_def ring_abs_def ring_seg_def ring_cap_def Let_def
        word_less_nat_alt split: if_splits)
  then show ?thesis using ring_fifo.fifo_roundtrip [of r xs] assms(4) by auto
qed

definition demo_ring :: uinet_pd_ring where
  "demo_ring = \<lparr>ring_num_descs = 3, ring_put = 2, ring_take = 1, ring_drops = 0,
     ring_descs = [demo_pd 0x10 1, demo_pd 0x10 2, demo_pd 0x10 3]\<rparr>"

theorem ring_refines_queue_witness:
  "ring_inv demo_ring \<and>
   (\<exists>r'. ring_store demo_ring (demo_pd 0x10 9) = Inr r' \<and> ring_inv r' \<and>
      ring_abs r' = [demo_pd 0x10 2, demo_pd 0x10 9])"
proof -
  have i: "ring_inv demo_ring" by (simp add: ring_inv_def demo_ring_def)
  have "ring_abs demo_ring = [demo_pd 0x10 2]"
    by (simp add: demo_ring_def ring_abs_def ring_seg_def Let_def)
  moreover have "uinet_pd_ring_space demo_ring \<noteq> 0"
    by (simp add: demo_ring_def uinet_pd_ring_space_def u32_sless_0)
  ultimately show ?thesis using ring_refines_queue [OF i, of "demo_pd 0x10 9"] i by simp
qed

theorem ring_alloc_roundtrip_witness:
  "\<exists>r r1 r2. uinet_pd_ring_alloc (\<lambda>k. Some (replicate k (demo_pd 0 1))) 3 = Some r \<and>
     enq_all ring_store r [demo_pd 0x10 4, demo_pd 0x10 5] = Inr r1 \<and>
     deq_n ring_pop r1 (Suc (Suc 0)) = Inr ([demo_pd 0x10 4, demo_pd 0x10 5], r2)"
proof -
  obtain r where r: "uinet_pd_ring_alloc (\<lambda>k. Some (replicate k (demo_pd 0 1))) 3 = Some r"
    by (simp add: uinet_pd_ring_alloc_def)
  show ?thesis
    using ring_alloc_roundtrip [OF r, of "[demo_pd 0x10 4, demo_pd 0x10 5]"] r
    by (auto simp del: enq_all.simps deq_n.simps)
qed

end
