(* ===== verification/Dpdk_Helper.thy ===== *)
theory Dpdk_Helper
  imports Prelude "HOL-Library.Monad_Syntax"
begin

text \<open>
  \<^verbatim>\<open>src/lib/libdpdk_helper/dpdk_helper.c\<close> and the host side of the driver,
  \<^verbatim>\<open>src/lib/libuinet/uinet_if_dpdk_host.c\<close>: bringing up DPDK and its ports, sending and
  receiving bursts, allocating and freeing buffers, and the two latency callbacks. The
  functions of DPDK are a parameter.
\<close>

section \<open>State and parameter\<close>

definition MAX_BURST_SIZE :: nat where "MAX_BURST_SIZE = 512"

text \<open>The fields of \<^verbatim>\<open>struct rte_mbuf\<close> the program uses; \<open>rte_data\<close> is what lies at \<^verbatim>\<open>data_off\<close>.\<close>

record rte_mbuf =
  rte_buf_addr :: u64
  rte_data_off :: u16
  rte_data_len :: u16
  rte_buf_len :: u16
  rte_pkt_len :: u32
  rte_udata64 :: u64
  rte_refcnt :: nat
  rte_data :: "u8 list"

text \<open>\<^verbatim>\<open>dh_rte_mbuf_desc\<close>; its three last pointers point into the mbuf at \<open>rm_base\<close>.\<close>

record dh_rte_mbuf_desc =
  rm_base :: u64
  rm_data :: u64
  data_len :: u32
  buf_len :: u32
  ref_cnt :: nat

record 'd dpdk_state =
  dk_dev :: 'd
  dk_mbufs :: "u64 \<Rightarrow> rte_mbuf"
  dk_mbuf_pool :: "nat option"
  dk_mbuf_pool_tx :: "nat option"
  dk_nb_ports :: u32
  dk_total_cycles :: u64
  dk_total_pkts :: u64

record 'd rte_ops =
  rte_eal_init :: "string list \<Rightarrow> 'd \<Rightarrow> int \<times> 'd"
  rte_pktmbuf_pool_create :: "string \<Rightarrow> nat \<Rightarrow> 'd \<Rightarrow> nat option \<times> 'd"
  rte_eth_dev_count :: "'d \<Rightarrow> u32"
  rte_eth_dev_configure :: "u8 \<Rightarrow> 'd \<Rightarrow> int \<times> 'd"
  rte_eth_rx_queue_setup :: "u8 \<Rightarrow> nat \<Rightarrow> nat option \<Rightarrow> 'd \<Rightarrow> int \<times> 'd"
  rte_eth_tx_queue_setup :: "u8 \<Rightarrow> nat \<Rightarrow> 'd \<Rightarrow> int \<times> 'd"
  rte_eth_dev_start :: "u8 \<Rightarrow> 'd \<Rightarrow> int \<times> 'd"
  rte_eth_macaddr_get :: "u8 \<Rightarrow> 'd \<Rightarrow> u8 list"
  rte_eth_promiscuous_enable :: "u8 \<Rightarrow> 'd \<Rightarrow> 'd"
  rte_eth_add_rx_callback :: "u8 \<Rightarrow> 'd \<Rightarrow> 'd"
  rte_eth_add_tx_callback :: "u8 \<Rightarrow> 'd \<Rightarrow> 'd"
  rte_eth_tx_burst :: "u64 list \<Rightarrow> 'd \<Rightarrow> nat \<times> 'd"
  rte_eth_rx_burst :: "nat \<Rightarrow> 'd \<Rightarrow> u64 list \<times> 'd"
  rte_pktmbuf_free :: "u64 \<Rightarrow> 'd \<Rightarrow> 'd"
  rte_pktmbuf_alloc :: "nat option \<Rightarrow> 'd \<Rightarrow> (u64 \<times> rte_mbuf) option \<times> 'd"

section \<open>Latency callbacks\<close>

fun add_timestamps :: "u64 \<Rightarrow> u64 list \<Rightarrow> (u64 \<Rightarrow> rte_mbuf) \<Rightarrow> (u64 \<Rightarrow> rte_mbuf)" where
  "add_timestamps now [] ms = ms"
| "add_timestamps now (p # ps) ms = add_timestamps now ps (ms(p := (ms p)\<lparr>rte_udata64 := now\<rparr>))"

fun sum_latency :: "u64 \<Rightarrow> u64 list \<Rightarrow> (u64 \<Rightarrow> rte_mbuf) \<Rightarrow> u64 \<Rightarrow> u64" where
  "sum_latency now [] ms cycles = cycles"
| "sum_latency now (p # ps) ms cycles = sum_latency now ps ms (cycles + (now - rte_udata64 (ms p)))"

text \<open>The second result is the latency printed, if the totals were reported and reset.\<close>

definition calc_latency :: "u64 \<Rightarrow> u64 list \<Rightarrow> 'd dpdk_state \<Rightarrow> u64 option \<times> 'd dpdk_state" where
  "calc_latency now pkts s =
     (let tc = dk_total_cycles s + sum_latency now pkts (dk_mbufs s) 0;
          tp = dk_total_pkts s + of_nat (length pkts)
      in if tp > 100 * 1000 * 1000
         then (Some (tc div tp), s\<lparr>dk_total_cycles := 0, dk_total_pkts := 0\<rparr>)
         else (None, s\<lparr>dk_total_cycles := tc, dk_total_pkts := tp\<rparr>))"

section \<open>Bringing up\<close>

definition RX_RING_SIZE :: nat where "RX_RING_SIZE = 4096"
definition TX_RING_SIZE :: nat where "TX_RING_SIZE = 2048"
definition NUM_MBUFS :: nat where "NUM_MBUFS = 16384"

text \<open>One receive and one transmit queue: each of the two loops runs once.\<close>

definition port_init :: "'d rte_ops \<Rightarrow> u8 \<Rightarrow> 'd dpdk_state \<Rightarrow> int \<times> 'd dpdk_state" where
  "port_init ops port s =
     (if ucast port \<ge> rte_eth_dev_count ops (dk_dev s) then (-1, s)
      else
        let (retval, d) = rte_eth_dev_configure ops port (dk_dev s); s = s\<lparr>dk_dev := d\<rparr> in
        if retval \<noteq> 0 then (retval, s)
        else
          let (retval, d) = rte_eth_rx_queue_setup ops port RX_RING_SIZE (dk_mbuf_pool s) (dk_dev s);
              s = s\<lparr>dk_dev := d\<rparr> in
          if retval < 0 then (retval, s)
          else
            let (retval, d) = rte_eth_tx_queue_setup ops port TX_RING_SIZE (dk_dev s);
                s = s\<lparr>dk_dev := d\<rparr> in
            if retval < 0 then (retval, s)
            else
              let (retval, d) = rte_eth_dev_start ops port (dk_dev s); s = s\<lparr>dk_dev := d\<rparr> in
              if retval < 0 then (retval, s)
              else
                (0, s\<lparr>dk_dev := rte_eth_add_tx_callback ops port (rte_eth_add_rx_callback ops port
                         (rte_eth_promiscuous_enable ops port (dk_dev s)))\<rparr>))"

text \<open>
  The loop over the ports. The loop variable is eight bits wide, so the loop does not end
  when there are more than 255 ports.
\<close>

partial_function (option) init_ports ::
  "'d rte_ops \<Rightarrow> u8 \<Rightarrow> 'd dpdk_state \<Rightarrow> ('d dpdk_state res) option" where
  "init_ports ops portid s =
     (if (ucast portid :: u32) < dk_nb_ports s then
        (let (r, s') = port_init ops portid s in
         if r \<noteq> 0 then Some (Inl Exit_failure) else init_ports ops (portid + 1) s')
      else Some (Inr s))"

text \<open>\<^verbatim>\<open>rte_exit\<close> ends the program. The result is \<open>0\<close> and the address of port 0.\<close>

definition dpdk_init ::
  "'d rte_ops \<Rightarrow> string list \<Rightarrow> 'd dpdk_state \<Rightarrow> ((int \<times> u8 list \<times> 'd dpdk_state) res) option" where
  "dpdk_init ops argv s =
     (let (ret, d) = rte_eal_init ops argv (dk_dev s) in
      if ret < 0 then Some (Inl Exit_failure)
      else
        let (p, d) = rte_pktmbuf_pool_create ops ''MBUF_POOL'' NUM_MBUFS d;
            (q, d) = rte_pktmbuf_pool_create ops ''MBUF_POOL_TX'' NUM_MBUFS d;
            s = s\<lparr>dk_mbuf_pool := p, dk_mbuf_pool_tx := q, dk_dev := d\<rparr>
        in
        if p = None \<or> q = None then Some (Inl Exit_failure)
        else
          let s = s\<lparr>dk_nb_ports := rte_eth_dev_count ops (dk_dev s)\<rparr> in
          if dk_nb_ports s < 1 then Some (Inl Exit_failure)
          else Option.bind (init_ports ops 0 s) (\<lambda>r. Some (res_bind r (\<lambda>s.
                 Inr (0, rte_eth_macaddr_get ops 0 (dk_dev s), s)))))"

definition dh_init_dpdk ::
  "'d rte_ops \<Rightarrow> string \<Rightarrow> 'd dpdk_state \<Rightarrow> ((int \<times> u8 list \<times> 'd dpdk_state) res) option" where
  "dh_init_dpdk ops ifname s = dpdk_init ops ['''', ''-c'', ''0x8'', ''-n'', ''4''] s"

section \<open>Sending and receiving\<close>

definition dh_send_pkts :: "'d rte_ops \<Rightarrow> u64 list option \<Rightarrow> u16 \<Rightarrow> 'd dpdk_state \<Rightarrow> int \<times> 'd dpdk_state" where
  "dh_send_pkts ops buf num s =
     (case buf of
        Some pkts \<Rightarrow>
          if num > 0 then
            let (n, d) = rte_eth_tx_burst ops (take (unat num) pkts) (dk_dev s)
            in (int n, s\<lparr>dk_dev := d\<rparr>)
          else (0, s)
      | None \<Rightarrow> (0, s))"

definition mbuf_desc :: "'d dpdk_state \<Rightarrow> u64 \<Rightarrow> dh_rte_mbuf_desc" where
  "mbuf_desc s p =
     (let mb = dk_mbufs s p in
      \<lparr>rm_base = p, rm_data = rte_buf_addr mb + ucast (rte_data_off mb), data_len = ucast (rte_data_len mb),
       buf_len = ucast (rte_buf_len mb), ref_cnt = rte_refcnt mb\<rparr>)"

text \<open>The first \<^verbatim>\<open>nb\<close> entries of the caller's array are the result.\<close>

definition dh_recv_pkts :: "'d rte_ops \<Rightarrow> 'd dpdk_state \<Rightarrow> dh_rte_mbuf_desc list \<times> 'd dpdk_state" where
  "dh_recv_pkts ops s =
     (let (mbufs, d) = rte_eth_rx_burst ops MAX_BURST_SIZE (dk_dev s); s = s\<lparr>dk_dev := d\<rparr>
      in (map (mbuf_desc s) mbufs, s))"

definition dh_free_desc :: "'d rte_ops \<Rightarrow> u64 \<Rightarrow> 'd dpdk_state \<Rightarrow> 'd dpdk_state" where
  "dh_free_desc ops p s = s\<lparr>dk_dev := rte_pktmbuf_free ops p (dk_dev s)\<rparr>"

text \<open>A transmit buffer comes from the receive pool.\<close>

definition dh_alloc_desc :: "'d rte_ops \<Rightarrow> 'd dpdk_state \<Rightarrow> dh_rte_mbuf_desc option \<times> 'd dpdk_state" where
  "dh_alloc_desc ops s =
     (let (r, d) = rte_pktmbuf_alloc ops (dk_mbuf_pool s) (dk_dev s); s = s\<lparr>dk_dev := d\<rparr> in
      case r of None \<Rightarrow> (None, s)
      | Some (p, mb) \<Rightarrow> let s = s\<lparr>dk_mbufs := (dk_mbufs s)(p := mb)\<rparr> in (Some (mbuf_desc s p), s))"

section \<open>The host side of the driver\<close>

record if_dpdk_host_context =
  hc_rx_isfile :: bool
  hc_tx_isfile :: bool
  hc_tx_snaplen :: u32
  hc_tx_file_per_flow :: u32
  hc_tx_dirbits :: u32
  hc_tx_epoch_no :: u32
  hc_tx_instance_index :: u32
  hc_rx_ifname :: "string option"
  hc_tx_ifname :: "string option"

text \<open>
  \<open>alloc_ok\<close> says whether \<^verbatim>\<open>calloc\<close> succeeds. When \<^verbatim>\<open>dh_init_dpdk\<close> fails the code jumps to the
  label that tests \<^verbatim>\<open>ctx\<close>, which has no value there.
\<close>

definition if_dpdk_create_handle ::
  "'d rte_ops \<Rightarrow> bool \<Rightarrow> if_dpdk_host_context \<Rightarrow> 'd dpdk_state \<Rightarrow>
     ((if_dpdk_host_context option \<times> u8 list \<times> 'd dpdk_state) res) option" where
  "if_dpdk_create_handle ops alloc_ok args s =
     Option.bind (dh_init_dpdk ops (case hc_rx_ifname args of None \<Rightarrow> '''' | Some n \<Rightarrow> n) s) (\<lambda>r.
     Some (res_bind r (\<lambda>(error, mac, s).
       if error \<noteq> 0 then Inl Uninit_read
       else if \<not> alloc_ok then Inr (None, mac, s)
       else Inr (Some args, mac, s))))"

definition if_dpdk_sendpacket :: "'d rte_ops \<Rightarrow> u64 list \<Rightarrow> u32 \<Rightarrow> 'd dpdk_state \<Rightarrow> int \<times> 'd dpdk_state" where
  "if_dpdk_sendpacket ops pkts num s = dh_send_pkts ops (Some pkts) (ucast num) s"

text \<open>The result is the descriptors, with the value stored in \<^verbatim>\<open>*wait_ns\<close>.\<close>

definition if_dpdk_getpacket ::
  "'d rte_ops \<Rightarrow> 'd dpdk_state \<Rightarrow> (dh_rte_mbuf_desc list \<times> u64) \<times> 'd dpdk_state" where
  "if_dpdk_getpacket ops s = (let (ds, s) = dh_recv_pkts ops s in ((ds, 0), s))"


section \<open>Lemmas\<close>

lemma add_timestamps_stamp:
  "rte_udata64 (add_timestamps now ps ms p) = (if p \<in> set ps then now else rte_udata64 (ms p))"
  by (induction ps arbitrary: ms) auto

lemma sum_latency_const:
  "\<forall>p\<in>set ps. rte_udata64 (ms p) = t \<Longrightarrow>
   sum_latency now ps ms c = c + of_nat (length ps) * (now - t)"
proof (induction ps arbitrary: c)
  case (Cons p ps)
  then have "sum_latency now (p # ps) ms c = c + (now - t) + of_nat (length ps) * (now - t)" by simp
  then show ?case by (simp add: algebra_simps)
qed simp

lemma port_init_nb_ports: "port_init ops p s = (r, s') \<Longrightarrow> dk_nb_ports s' = dk_nb_ports s"
  by (auto simp: port_init_def Let_def split: prod.splits if_splits)

lemma u8_ucast_nat: "unat (ucast (p :: u8) :: u32) = unat p"
proof -
  have "unat p < 2 ^ 32" by (rule order.strict_trans2 [OF unsigned_less]) simp
  then show ?thesis by (simp add: unsigned_ucast_eq take_bit_nat_eq_self)
qed

lemma init_ports_total:
  "dk_nb_ports s \<le> 255 \<Longrightarrow>
   \<exists>r. init_ports ops portid s = Some r \<and> (r = Inl Exit_failure \<or> (\<exists>s'. r = Inr s'))"
proof (induction "256 - unat portid" arbitrary: portid s rule: less_induct)
  case less
  show ?case
  proof (cases "(ucast portid :: u32) < dk_nb_ports s")
    case True
    obtain r s' where pi: "port_init ops portid s = (r, s')" by fastforce
    have "unat portid < 255"
      using True less.prems by (simp add: word_less_nat_alt word_le_nat_alt u8_ucast_nat)
    then have "256 - unat (portid + 1) < 256 - unat portid" by (simp add: unat_plus_if')
    moreover have "dk_nb_ports s' \<le> 255" using less.prems port_init_nb_ports [OF pi] by simp
    ultimately show ?thesis
      using less.hyps [of "portid + 1" s'] pi True by (subst init_ports.simps) simp
  qed (subst init_ports.simps, simp)
qed

lemma init_ports_never_done:
  assumes "init_ports ops portid s = Some r"
  shows "255 < dk_nb_ports s \<longrightarrow> r = Inl Exit_failure"
proof (rule init_ports.raw_induct [OF _ assms])
  fix f and ops :: "'d rte_ops" and portid :: u8 and s :: "'d dpdk_state" and r
  assume IH: "\<And>ops portid s y. f ops portid s = Some y \<Longrightarrow> 255 < dk_nb_ports s \<longrightarrow> y = Inl Exit_failure"
    and body: "(if (ucast portid :: u32) < dk_nb_ports s
      then let (r, s') = port_init ops portid s
           in if r \<noteq> 0 then Some (Inl Exit_failure) else f ops (portid + 1) s'
      else Some (Inr s)) = Some r"
  have "unat portid < 256" by (rule order.strict_trans2 [OF unsigned_less]) simp
  then have "(ucast portid :: u32) < dk_nb_ports s" if "255 < dk_nb_ports s"
    using that by (simp add: word_less_nat_alt u8_ucast_nat)
  then show "255 < dk_nb_ports s \<longrightarrow> r = Inl Exit_failure"
    using IH body port_init_nb_ports [of ops portid s]
    by (auto split: if_splits prod.splits simp: Let_def)
qed

lemma dpdk_init_result:
  assumes "\<forall>d. rte_eth_dev_count ops d \<le> 255"
  shows "\<exists>r. dpdk_init ops argv s = Some r \<and> (r = Inl Exit_failure \<or> (\<exists>mac s'. r = Inr (0, mac, s')))"
proof -
  have ip: "\<exists>r. Option.bind (init_ports ops 0 s)
        (\<lambda>r. Some (res_bind r (\<lambda>s. Inr (0 :: int, rte_eth_macaddr_get ops 0 (dk_dev s), s)))) = Some r \<and>
      (r = Inl Exit_failure \<or> (\<exists>mac s'. r = Inr (0, mac, s')))"
    if "dk_nb_ports s \<le> 255" for s :: "'a dpdk_state"
    using init_ports_total [OF that, of ops 0] by auto
  show ?thesis
    using assms ip by (simp add: dpdk_init_def Let_def split: prod.split)
qed

section \<open>Properties\<close>

text \<open>
  A packet stamped on reception at time \<open>t0\<close> and sent at time \<open>t1\<close> adds \<open>t1 - t0\<close> to the
  total of cycles, wrapping at 64 bits, and one to the number of packets; when the number
  passes a hundred million the average is printed and both totals restart from zero.
\<close>

theorem latency_accounting:
  "dk_mbufs s = add_timestamps t0 pkts ms \<Longrightarrow>
   calc_latency t1 pkts s =
     (let tc = dk_total_cycles s + of_nat (length pkts) * (t1 - t0);
          tp = dk_total_pkts s + of_nat (length pkts)
      in if tp > 100000000 then (Some (tc div tp), s\<lparr>dk_total_cycles := 0, dk_total_pkts := 0\<rparr>)
         else (None, s\<lparr>dk_total_cycles := tc, dk_total_pkts := tp\<rparr>))"
  using sum_latency_const [of pkts "dk_mbufs s" t0 t1 0]
  by (simp add: calc_latency_def add_timestamps_stamp Let_def)

text \<open>
  The loop that starts the ports ends, with all ports started or with the program
  exiting, when there are at most 255 ports. With more it never completes: its counter has
  eight bits.
\<close>

theorem init_ports_terminates:
  "(dk_nb_ports s \<le> 255 \<longrightarrow>
      (\<exists>r. init_ports ops portid s = Some r \<and> (r = Inl Exit_failure \<or> (\<exists>s'. r = Inr s')))) \<and>
   (dk_nb_ports s > 255 \<longrightarrow>
      init_ports ops portid s = None \<or> init_ports ops portid s = Some (Inl Exit_failure))"
  using init_ports_total [of s ops portid] init_ports_never_done [of ops portid s]
  by (cases "init_ports ops portid s") auto

text \<open>
  Creating the driver's handle always comes to a defined end: the program exits, or
  the handle is returned, or \<^verbatim>\<open>NULL\<close> for lack of memory. The failure path that would test a
  variable without a value is never taken, because the initialisation it follows never
  reports an error.
\<close>

theorem if_dpdk_create_handle_defined:
  assumes "\<forall>d. rte_eth_dev_count ops d \<le> 255"
  shows "\<exists>r. if_dpdk_create_handle ops alloc_ok args s = Some r \<and>
     (r = Inl Exit_failure \<or> (\<exists>mac s'. r = Inr (if alloc_ok then Some args else None, mac, s')))"
proof -
  have "\<exists>r. dh_init_dpdk ops n s = Some r \<and> (r = Inl Exit_failure \<or> (\<exists>mac s'. r = Inr (0, mac, s')))" for n
    unfolding dh_init_dpdk_def by (rule dpdk_init_result [OF assms])
  from this [of "case hc_rx_ifname args of None \<Rightarrow> [] | Some n \<Rightarrow> n"] show ?thesis
    unfolding if_dpdk_create_handle_def by auto
qed

section \<open>Instances\<close>

text \<open>A machine with one port on which every call succeeds; its state counts the bursts.\<close>

definition one_port_ops :: "nat rte_ops" where
  "one_port_ops = \<lparr>rte_eal_init = (\<lambda>_ d. (0, d)), rte_pktmbuf_pool_create = (\<lambda>_ _ d. (Some 0, d)),
     rte_eth_dev_count = (\<lambda>_. 1), rte_eth_dev_configure = (\<lambda>_ d. (0, d)),
     rte_eth_rx_queue_setup = (\<lambda>_ _ _ d. (0, d)), rte_eth_tx_queue_setup = (\<lambda>_ _ d. (0, d)),
     rte_eth_dev_start = (\<lambda>_ d. (0, d)), rte_eth_macaddr_get = (\<lambda>_ _. [2, 0, 0, 0, 0, 1]),
     rte_eth_promiscuous_enable = (\<lambda>_ d. d), rte_eth_add_rx_callback = (\<lambda>_ d. d),
     rte_eth_add_tx_callback = (\<lambda>_ d. d), rte_eth_tx_burst = (\<lambda>pkts d. (length pkts, Suc d)),
     rte_eth_rx_burst = (\<lambda>_ d. ([], Suc d)), rte_pktmbuf_free = (\<lambda>_ d. d),
     rte_pktmbuf_alloc = (\<lambda>_ d. (Some (0x1000, \<lparr>rte_buf_addr = 0x1080, rte_data_off = 128,
        rte_data_len = 0, rte_buf_len = 2176, rte_pkt_len = 0, rte_udata64 = 0, rte_refcnt = 1,
        rte_data = []\<rparr>), d))\<rparr>"

definition cold_state :: "nat dpdk_state" where
  "cold_state = \<lparr>dk_dev = 0, dk_mbufs = (\<lambda>_. \<lparr>rte_buf_addr = 0, rte_data_off = 0, rte_data_len = 0,
       rte_buf_len = 0, rte_pkt_len = 0, rte_udata64 = 0, rte_refcnt = 0, rte_data = []\<rparr>),
     dk_mbuf_pool = None, dk_mbuf_pool_tx = None, dk_nb_ports = 1, dk_total_cycles = 0, dk_total_pkts = 0\<rparr>"

definition plain_handle :: if_dpdk_host_context where
  "plain_handle = \<lparr>hc_rx_isfile = False, hc_tx_isfile = False, hc_tx_snaplen = 65535,
     hc_tx_file_per_flow = 0, hc_tx_dirbits = 10, hc_tx_epoch_no = 0, hc_tx_instance_index = 0,
     hc_rx_ifname = Some ''eth0'', hc_tx_ifname = Some ''eth0''\<rparr>"

theorem latency_accounting_witness:
  "calc_latency 150 [7, 8] (cold_state\<lparr>dk_mbufs := add_timestamps 100 [7, 8] (dk_mbufs cold_state)\<rparr>) =
   (None, cold_state\<lparr>dk_mbufs := add_timestamps 100 [7, 8] (dk_mbufs cold_state),
      dk_total_cycles := 100, dk_total_pkts := 2\<rparr>)"
  using latency_accounting [of "cold_state\<lparr>dk_mbufs := add_timestamps 100 [7, 8] (dk_mbufs cold_state)\<rparr>"
      100 "[7, 8]" "dk_mbufs cold_state" 150]
  by (simp add: cold_state_def)

theorem init_ports_terminates_witness:
  "\<exists>r. init_ports one_port_ops 0 cold_state = Some r"
  using init_ports_terminates [of cold_state one_port_ops 0] by (auto simp: cold_state_def)

theorem if_dpdk_create_handle_defined_witness:
  "\<exists>r. if_dpdk_create_handle one_port_ops True plain_handle cold_state = Some r \<and> r \<noteq> Inl Uninit_read"
  using if_dpdk_create_handle_defined [of one_port_ops True plain_handle cold_state]
  by (auto simp: one_port_ops_def)

end
