(* ===== verification/If_Dpdk.thy ===== *)
theory If_Dpdk
  imports Pd_Mbuf Pd_Ring Dpdk_Helper Errno "HOL-Library.Sublist"
begin

text \<open>
  The DPDK interface driver \<^verbatim>\<open>src/lib/libuinet/uinet_if_dpdk.c\<close>: its softc, its configuration
  string, attaching and detaching. Its transmit and receive paths are in \<open>If_Dpdk_Tx\<close> and
  \<open>If_Dpdk_Rx\<close>, the protocols of its send and receive threads in \<open>Tx_Thread\<close> and
  \<open>Rx_Thread\<close>.
\<close>

section \<open>The softc\<close>

record if_dpdk_softc =
  rx_disabled :: bool
  rx_isfile :: bool
  tx_disabled :: bool
  tx_isfile :: bool
  txisrx :: bool
  tx_use_thread :: bool
  rx_ifname :: "string option"
  tx_ifname :: "string option"
  host_ifname :: string
  tx_pds :: uinet_pd_list
  rx_pds :: uinet_pd_list
  rx_fd :: int
  rx_packet_waiting :: u32
  rx_batch_size :: u32
  tx_pkts_to_send :: nat
  tx_inject_ring :: uinet_pd_ring
  tx_pdctx_room :: nat

record uinet_if_dpdk_cfg =
  use_file_io_thread :: bool
  file_snapshot_length :: u32
  file_per_flow :: u32
  max_concurrent_files :: u32
  dir_bits :: u32

definition if_dpdk_default_config :: uinet_if_dpdk_cfg where
  "if_dpdk_default_config = \<lparr>use_file_io_thread = False, file_snapshot_length = 65535,
     file_per_flow = 0, max_concurrent_files = 1000, dir_bits = 10\<rparr>"

definition if_dpdk_pd_alloc_user ::
  "'z uma_ops \<Rightarrow> u16 \<Rightarrow> 'z pd_state \<Rightarrow> uinet_pd_list \<Rightarrow> ('z pd_state \<times> uinet_pd_list) res" where
  "if_dpdk_pd_alloc_user ops pool s pkts =
     (let alloc_size = num_descs pkts in
      res_bind (uinet_pd_mbuf_alloc_descs ops pool s (pkts\<lparr>num_descs := 0\<rparr>) alloc_size)
        (\<lambda>(i, s, pkts). Inr (s, pkts)))"

section \<open>The configuration string\<close>

definition FILE_PREFIX :: string where "FILE_PREFIX = ''file://''"

text \<open>
  \<open>start\<close> is the text from \<^verbatim>\<open>start\<close> to \<^verbatim>\<open>end\<close>. The result is the value of \<^verbatim>\<open>*isfile\<close>, kept when
  there is no prefix, and the name, or \<open>None\<close> when the function reports an empty field.
\<close>

definition if_dpdk_extract_ifname :: "string \<Rightarrow> bool \<Rightarrow> bool \<times> string option" where
  "if_dpdk_extract_ifname start isfile =
     (let file = (take 7 start = FILE_PREFIX);
          offset = (if file then 7 else 0)
      in (file \<or> isfile, if start = [] then None else Some (drop offset start)))"

definition IF_NAMESIZE :: nat where "IF_NAMESIZE = 16"

text \<open>\<^verbatim>\<open>strlcpy\<close> and \<^verbatim>\<open>snprintf\<close> into an array of \<open>IF_NAMESIZE\<close> bytes.\<close>

definition to_namebuf :: "string \<Rightarrow> string" where
  "to_namebuf s = take (IF_NAMESIZE - 1) s"

text \<open>The \<^verbatim>\<open>%s\<close> of the stack's \<^verbatim>\<open>printf\<close> prints a null pointer so.\<close>

definition str_arg :: "string option \<Rightarrow> string" where
  "str_arg p = (case p of None \<Rightarrow> ''(null)'' | Some s \<Rightarrow> s)"

definition if_dpdk_process_configstr :: "string \<Rightarrow> if_dpdk_softc \<Rightarrow> (int \<times> if_dpdk_softc) res" where
  "if_dpdk_process_configstr configstr sc =
     (let comma = (CHR '','' \<in> set configstr);
          first = takeWhile (\<lambda>c. c \<noteq> CHR '','') configstr;
          rest = tl (dropWhile (\<lambda>c. c \<noteq> CHR '','') configstr);
          (isf, name) = if_dpdk_extract_ifname first (rx_isfile sc);
          sc = sc\<lparr>rx_isfile := isf, rx_ifname := (if name = None then rx_ifname sc else name)\<rparr>
      in
      if name = None \<and> \<not> comma then Inr (UINET_EINVAL, sc)
      else
        let sc = (if name = None then sc\<lparr>rx_disabled := True\<rparr> else sc);
            sc = (if comma then
                    let (isf, name) = if_dpdk_extract_ifname rest (tx_isfile sc)
                    in if name = None then sc\<lparr>tx_isfile := isf, tx_disabled := True\<rparr>
                       else sc\<lparr>tx_isfile := isf, tx_ifname := name\<rparr>
                  else sc\<lparr>tx_isfile := rx_isfile sc, tx_ifname := rx_ifname sc\<rparr>)
        in
        if \<not> rx_disabled sc \<and> \<not> tx_disabled sc then
          if rx_ifname sc = tx_ifname sc then
            if rx_isfile sc \<and> tx_isfile sc then Inl Use_after_free
            else Inr (0, sc\<lparr>txisrx := True, host_ifname := to_namebuf (str_arg (rx_ifname sc))\<rparr>)
          else Inr (0, sc\<lparr>host_ifname :=
                  to_namebuf (str_arg (rx_ifname sc) @ '','' @ str_arg (tx_ifname sc))\<rparr>)
        else if \<not> rx_disabled sc then Inr (0, sc\<lparr>host_ifname := to_namebuf (str_arg (rx_ifname sc))\<rparr>)
        else Inr (0, sc\<lparr>host_ifname := to_namebuf (str_arg (tx_ifname sc))\<rparr>))"

text \<open>
  The format the comment above the function documents: an interface is a host name or a
  file; a configuration has one for both directions, or one or both of two.
\<close>

datatype intf = Host string | File string

datatype intf_cfg = Both intf | Rx_only intf | Tx_only intf | Rx_Tx intf intf

fun print_intf :: "intf \<Rightarrow> string" where
  "print_intf (Host n) = n"
| "print_intf (File n) = FILE_PREFIX @ n"

fun print_cfg :: "intf_cfg \<Rightarrow> string" where
  "print_cfg (Both i) = print_intf i"
| "print_cfg (Rx_only i) = print_intf i @ '',''"
| "print_cfg (Tx_only i) = '','' @ print_intf i"
| "print_cfg (Rx_Tx i j) = print_intf i @ '','' @ print_intf j"

fun intf_isfile :: "intf \<Rightarrow> bool" where
  "intf_isfile (Host n) = False"
| "intf_isfile (File n) = True"

fun intf_name :: "intf \<Rightarrow> string" where
  "intf_name (Host n) = n"
| "intf_name (File n) = n"

text \<open>A name has no comma; a host name is not empty and does not look like a file.\<close>

definition intf_ok :: "intf \<Rightarrow> bool" where
  "intf_ok i \<longleftrightarrow> CHR '','' \<notin> set (intf_name i) \<and>
     (\<not> intf_isfile i \<longrightarrow> intf_name i \<noteq> [] \<and> take 7 (intf_name i) \<noteq> FILE_PREFIX)"

definition zero_softc :: if_dpdk_softc where
  "zero_softc = \<lparr>rx_disabled = False, rx_isfile = False, tx_disabled = False, tx_isfile = False,
     txisrx = False, tx_use_thread = False, rx_ifname = None, tx_ifname = None, host_ifname = [],
     tx_pds = \<lparr>num_descs = 0, descs = []\<rparr>, rx_pds = \<lparr>num_descs = 0, descs = []\<rparr>, rx_fd = 0,
     rx_packet_waiting = 0, rx_batch_size = 0, tx_pkts_to_send = 0,
     tx_inject_ring = \<lparr>ring_num_descs = 0, ring_put = 0, ring_take = 0, ring_drops = 0, ring_descs = []\<rparr>,
     tx_pdctx_room = 0\<rparr>"

text \<open>What a configuration asks for, on a fresh softc.\<close>

fun cfg_meaning :: "intf_cfg \<Rightarrow> if_dpdk_softc" where
  "cfg_meaning (Both i) = zero_softc\<lparr>rx_isfile := intf_isfile i, tx_isfile := intf_isfile i,
     rx_ifname := Some (intf_name i), tx_ifname := Some (intf_name i), txisrx := True,
     host_ifname := to_namebuf (intf_name i)\<rparr>"
| "cfg_meaning (Rx_only i) = zero_softc\<lparr>rx_isfile := intf_isfile i, rx_ifname := Some (intf_name i),
     tx_disabled := True, host_ifname := to_namebuf (intf_name i)\<rparr>"
| "cfg_meaning (Tx_only i) = zero_softc\<lparr>tx_isfile := intf_isfile i, tx_ifname := Some (intf_name i),
     rx_disabled := True, host_ifname := to_namebuf (intf_name i)\<rparr>"
| "cfg_meaning (Rx_Tx i j) = zero_softc\<lparr>rx_isfile := intf_isfile i, tx_isfile := intf_isfile j,
     rx_ifname := Some (intf_name i), tx_ifname := Some (intf_name j),
     txisrx := (intf_name i = intf_name j),
     host_ifname := to_namebuf (if intf_name i = intf_name j then intf_name i
                                else intf_name i @ '','' @ intf_name j)\<rparr>"

text \<open>The configurations that would read and write the same file.\<close>

fun cfg_same_file :: "intf_cfg \<Rightarrow> bool" where
  "cfg_same_file (Both i) = intf_isfile i"
| "cfg_same_file (Rx_Tx i j) = (intf_isfile i \<and> intf_isfile j \<and> intf_name i = intf_name j)"
| "cfg_same_file _ = False"

fun cfg_intfs :: "intf_cfg \<Rightarrow> intf list" where
  "cfg_intfs (Both i) = [i]"
| "cfg_intfs (Rx_only i) = [i]"
| "cfg_intfs (Tx_only i) = [i]"
| "cfg_intfs (Rx_Tx i j) = [i, j]"

section \<open>Attaching and detaching\<close>

text \<open>What the driver owns while attached.\<close>

datatype owned = Softc | Rx_ifname | Tx_ifname | Host_ctx | Rx_pds | Tx_pds | Ring | Pdctx_array
  | Ifnet | Tx_thread | Rx_thread

text \<open>
  The outcome of the calls that may fail, in the order of the code; \<open>at_handle\<close> is what
  \<^verbatim>\<open>if_dpdk_create_handle\<close> returns.
\<close>

record attach_env =
  at_configstr :: "string option"
  at_rx_batch_size :: u32
  at_sts :: bool
  at_cfg :: uinet_if_dpdk_cfg
  at_softc_ok :: bool
  at_rx_pds :: "uinet_pd list option"
  at_tx_pds :: "uinet_pd list option"
  at_handle :: "if_dpdk_host_context option"
  at_inject_queue_len :: u32
  at_ring_junk :: "nat \<Rightarrow> uinet_pd list option"
  at_pdctx_ok :: bool
  at_tx_thread_ok :: bool
  at_rx_thread_ok :: bool

record attach_state =
  as_owned :: "owned list"
  as_interface_count :: u32
  as_attached :: bool

text \<open>\<^verbatim>\<open>free\<close> of something not held is a double free.\<close>

definition release :: "owned \<Rightarrow> owned list \<Rightarrow> owned list res" where
  "release x live = (if x \<in> set live then Inr (remove1 x live) else Inl Double_free)"

definition release_if :: "bool \<Rightarrow> owned \<Rightarrow> owned list \<Rightarrow> owned list res" where
  "release_if b x live = (if b then release x live else Inr live)"

fun release_all :: "(bool \<times> owned) list \<Rightarrow> owned list \<Rightarrow> owned list res" where
  "release_all [] live = Inr live"
| "release_all ((b, x) # xs) live = res_bind (release_if b x live) (release_all xs)"

text \<open>
  \<^verbatim>\<open>if_dpdk_setup_interface\<close>: the interface structure and the threads. On a failed thread the
  interface structure is freed, the other thread is not stopped.
\<close>

definition if_dpdk_setup_interface ::
  "attach_env \<Rightarrow> if_dpdk_softc \<Rightarrow> owned list \<Rightarrow> (bool \<times> owned list) res" where
  "if_dpdk_setup_interface env sc live =
     (let live = Ifnet # live in
      if tx_use_thread sc \<and> \<not> at_tx_thread_ok env
      then res_bind (release Ifnet live) (\<lambda>live. Inr (False, live))
      else
        let live = (if tx_use_thread sc then Tx_thread # live else live) in
        if \<not> at_sts env then
          if \<not> at_rx_thread_ok env then res_bind (release Ifnet live) (\<lambda>live. Inr (False, live))
          else Inr (True, Rx_thread # live)
        else Inr (True, live))"

text \<open>The label \<^verbatim>\<open>fail\<close>.\<close>

definition attach_fail ::
  "int \<Rightarrow> if_dpdk_softc \<Rightarrow> bool \<Rightarrow> bool \<Rightarrow> bool \<Rightarrow> bool \<Rightarrow> bool \<Rightarrow> attach_state \<Rightarrow>
     (int \<times> if_dpdk_softc option \<times> attach_state) res" where
  "attach_fail error sc handle rx tx ring arr st =
     res_bind (release_all [(rx_ifname sc \<noteq> None, Rx_ifname), (tx_ifname sc \<noteq> None, Tx_ifname),
                 (handle, Host_ctx), (rx, Rx_pds), (tx, Tx_pds), (ring, Ring), (arr, Pdctx_array),
                 (True, Softc)] (as_owned st))
       (\<lambda>live. Inr (error, None, st\<lparr>as_owned := live\<rparr>))"

definition own_names :: "if_dpdk_softc \<Rightarrow> owned list" where
  "own_names sc = (if tx_ifname sc \<noteq> None then [Tx_ifname] else []) @
     (if rx_ifname sc \<noteq> None then [Rx_ifname] else [])"

text \<open>The last step of attaching, with everything allocated.\<close>

definition attach_setup ::
  "attach_env \<Rightarrow> if_dpdk_softc \<Rightarrow> attach_state \<Rightarrow> (int \<times> if_dpdk_softc option \<times> attach_state) res" where
  "attach_setup env sc st =
     res_bind (if_dpdk_setup_interface env sc (as_owned st)) (\<lambda>(ok, live).
       let st = st\<lparr>as_owned := live, as_attached := True\<rparr> in
       if \<not> ok then attach_fail UINET_ENXIO sc True True True True True st
       else Inr (0, Some sc, st))"

text \<open>The part of the routine after the configuration string, on a softc that holds its names.\<close>

definition attach_rest ::
  "attach_env \<Rightarrow> if_dpdk_softc \<Rightarrow> attach_state \<Rightarrow> (int \<times> if_dpdk_softc option \<times> attach_state) res" where
  "attach_rest env sc st =
     (let own = (\<lambda>x st. st\<lparr>as_owned := x # as_owned st\<rparr>) in
      case at_rx_pds env of None \<Rightarrow> attach_fail UINET_ENOMEM sc False False False False False st
      | Some rxd \<Rightarrow>
        let st = own Rx_pds st; sc = sc\<lparr>rx_pds := \<lparr>num_descs = 0, descs = rxd\<rparr>\<rparr> in
        case at_tx_pds env of None \<Rightarrow> attach_fail UINET_ENOMEM sc False True False False False st
        | Some txd \<Rightarrow>
          let st = own Tx_pds st; sc = sc\<lparr>tx_pds := \<lparr>num_descs = 0, descs = txd\<rparr>\<rparr> in
          case at_handle env of None \<Rightarrow> attach_fail UINET_ENXIO sc False True True False False st
          | Some h \<Rightarrow>
            let st = own Host_ctx st;
                sc = sc\<lparr>tx_use_thread := (\<not> at_sts env \<or> use_file_io_thread (at_cfg env))\<rparr> in
            case uinet_pd_ring_alloc (at_ring_junk env) (at_inject_queue_len env) of
              None \<Rightarrow> attach_fail UINET_ENOMEM sc True True True False False st
            | Some ring \<Rightarrow>
              let st = own Ring st; sc = sc\<lparr>tx_inject_ring := ring\<rparr> in
              if \<not> at_pdctx_ok env then attach_fail UINET_ENOMEM sc True True True True False st
              else
                let st = own Pdctx_array st; sc = sc\<lparr>tx_pdctx_room := unat (ring_num_descs ring)\<rparr> in
                attach_setup env sc st)"

definition if_dpdk_attach ::
  "attach_env \<Rightarrow> attach_state \<Rightarrow> (int \<times> if_dpdk_softc option \<times> attach_state) res" where
  "if_dpdk_attach env st =
     (case at_configstr env of None \<Rightarrow> Inr (UINET_EINVAL, None, st)
      | Some configstr \<Rightarrow>
        let st = st\<lparr>as_interface_count := as_interface_count st + 1\<rparr> in
        if \<not> at_softc_ok env then Inr (UINET_ENOMEM, None, st)
        else
          let st = st\<lparr>as_owned := Softc # as_owned st\<rparr>;
              sc = zero_softc\<lparr>rx_batch_size := at_rx_batch_size env\<rparr> in
          res_bind (if_dpdk_process_configstr configstr sc) (\<lambda>(error, sc).
          let st = st\<lparr>as_owned := own_names sc @ as_owned st\<rparr> in
          if error \<noteq> 0 then attach_fail error sc False False False False False st
          else attach_rest env sc st))"

definition if_dpdk_detach :: "bool \<Rightarrow> if_dpdk_softc option \<Rightarrow> attach_state \<Rightarrow> attach_state res" where
  "if_dpdk_detach sts sc st =
     (case sc of None \<Rightarrow> Inr st
      | Some sc \<Rightarrow>
        res_bind (release_all [(\<not> sts, Rx_thread), (tx_use_thread sc, Tx_thread),
                    (rx_ifname sc \<noteq> None, Rx_ifname), (tx_ifname sc \<noteq> None, Tx_ifname),
                    (True, Host_ctx), (True, Rx_pds), (True, Tx_pds), (True, Ring),
                    (True, Pdctx_array), (True, Softc)] (as_owned st))
          (\<lambda>live. Inr (st\<lparr>as_owned := live\<rparr>)))"


section \<open>Lemmas\<close>

lemma print_intf_no_comma: "intf_ok i \<Longrightarrow> CHR '','' \<notin> set (print_intf i)"
  by (cases i) (auto simp: intf_ok_def FILE_PREFIX_def)

lemma print_intf_nonempty: "intf_ok i \<Longrightarrow> print_intf i \<noteq> []"
  by (cases i) (auto simp: intf_ok_def FILE_PREFIX_def)

lemma extract_print:
  "intf_ok i \<Longrightarrow> if_dpdk_extract_ifname (print_intf i) False = (intf_isfile i, Some (intf_name i))"
  by (cases i) (auto simp: if_dpdk_extract_ifname_def intf_ok_def FILE_PREFIX_def Let_def)

lemma extract_empty: "if_dpdk_extract_ifname [] b = (b, None)"
  by (simp add: if_dpdk_extract_ifname_def FILE_PREFIX_def)

lemma split_at_comma:
  assumes "CHR '','' \<notin> set xs"
  shows "takeWhile (\<lambda>c. c \<noteq> CHR '','') (xs @ '','' @ ys) = xs"
    "tl (dropWhile (\<lambda>c. c \<noteq> CHR '','') (xs @ '','' @ ys)) = ys"
    "takeWhile (\<lambda>c. c \<noteq> CHR '','') xs = xs"
proof -
  have "\<forall>c\<in>set xs. c \<noteq> CHR '',''" using assms by blast
  then show "takeWhile (\<lambda>c. c \<noteq> CHR '','') (xs @ '','' @ ys) = xs"
    "tl (dropWhile (\<lambda>c. c \<noteq> CHR '','') (xs @ '','' @ ys)) = ys"
    "takeWhile (\<lambda>c. c \<noteq> CHR '','') xs = xs"
    by (simp_all add: takeWhile_append2 dropWhile_append2)
qed

lemma zero_softc_simps [simp]:
  "rx_disabled zero_softc = False" "rx_isfile zero_softc = False" "tx_disabled zero_softc = False"
  "tx_isfile zero_softc = False" "rx_ifname zero_softc = None" "tx_ifname zero_softc = None"
  by (simp_all add: zero_softc_def)

lemma configstr_run:
  assumes "list_all intf_ok (cfg_intfs c)"
  shows "if_dpdk_process_configstr (print_cfg c) zero_softc =
     (if cfg_same_file c then Inl Use_after_free else Inr (0, cfg_meaning c))"
proof (cases c)
  case (Both i)
  then have i: "intf_ok i" using assms by simp
  note n = print_intf_no_comma [OF i]
  show ?thesis
    by (simp add: Both if_dpdk_process_configstr_def Let_def n split_at_comma(3) [OF n]
        extract_print [OF i] str_arg_def)
next
  case (Rx_only i)
  then have i: "intf_ok i" using assms by simp
  note n = print_intf_no_comma [OF i]
  show ?thesis
    by (simp add: Rx_only if_dpdk_process_configstr_def Let_def split_at_comma [OF n, simplified]
        extract_print [OF i] extract_empty str_arg_def)
next
  case (Tx_only i)
  then have i: "intf_ok i" using assms by simp
  show ?thesis
    by (simp add: Tx_only if_dpdk_process_configstr_def Let_def extract_print [OF i] extract_empty
        str_arg_def)
next
  case (Rx_Tx i j)
  then have i: "intf_ok i" "intf_ok j" using assms by simp_all
  note n = print_intf_no_comma [OF i(1)]
  show ?thesis
    by (simp add: Rx_Tx if_dpdk_process_configstr_def Let_def split_at_comma [OF n, simplified]
        extract_print [OF i(1)] extract_print [OF i(2)] str_arg_def) (simp add: zero_softc_def)
qed

lemma release_Cons [simp]:
  "release x (y # live) = (if x = y then Inr live else res_bind (release x live) (\<lambda>l. Inr (y # l)))"
  by (auto simp: release_def)

lemma release_Nil [simp]: "release x [] = Inl Double_free"
  by (simp add: release_def)

lemmas attach_simps = attach_fail_def release_if_def own_names_def

text \<open>What a failed attach leaves, whatever was reached.\<close>

definition left_over :: "attach_env \<Rightarrow> int \<times> if_dpdk_softc option \<times> attach_state \<Rightarrow> bool" where
  "left_over env r = (case r of (e, sc, st) \<Rightarrow>
     if e = 0 then \<exists>st''. if_dpdk_detach (at_sts env) sc st = Inr st'' \<and> as_owned st'' = [Ifnet]
     else sc = None \<and> (as_owned st = [] \<or> as_owned st = [Tx_thread] \<and> \<not> at_rx_thread_ok env))"

lemma attach_setup_post:
  assumes "as_owned st = [Pdctx_array, Ring, Host_ctx, Tx_pds, Rx_pds] @ own_names sc @ [Softc]"
    and "tx_use_thread sc = (\<not> at_sts env \<or> use_file_io_thread (at_cfg env))"
  shows "\<exists>r. attach_setup env sc st = Inr r \<and> left_over env r"
  using assms
  by (cases "rx_ifname sc"; cases "tx_ifname sc"; cases "tx_use_thread sc"; cases "at_tx_thread_ok env";
      cases "at_sts env"; cases "at_rx_thread_ok env")
     (simp_all add: attach_setup_def if_dpdk_setup_interface_def attach_simps left_over_def
        if_dpdk_detach_def)

lemma attach_rest_post:
  assumes "as_owned st = own_names sc @ [Softc]"
  shows "\<exists>r. attach_rest env sc st = Inr r \<and> left_over env r"
proof (cases "at_rx_pds env")
  case None
  then show ?thesis using assms
    by (cases "rx_ifname sc"; cases "tx_ifname sc") (simp_all add: attach_rest_def attach_simps left_over_def)
next
  case rx: (Some rxd)
  show ?thesis
  proof (cases "at_tx_pds env")
    case None
    then show ?thesis using assms rx
      by (cases "rx_ifname sc"; cases "tx_ifname sc") (simp_all add: attach_rest_def attach_simps left_over_def)
  next
    case tx: (Some txd)
    show ?thesis
    proof (cases "at_handle env")
      case None
      then show ?thesis using assms rx tx
        by (cases "rx_ifname sc"; cases "tx_ifname sc") (simp_all add: attach_rest_def attach_simps left_over_def)
    next
      case h: (Some h)
      show ?thesis
      proof (cases "uinet_pd_ring_alloc (at_ring_junk env) (at_inject_queue_len env)")
        case None
        then show ?thesis using assms rx tx h
          by (cases "rx_ifname sc"; cases "tx_ifname sc")
             (simp_all add: attach_rest_def attach_simps left_over_def)
      next
        case ring: (Some ring)
        show ?thesis
        proof (cases "at_pdctx_ok env")
          case False
          then show ?thesis using assms rx tx h ring
            by (cases "rx_ifname sc"; cases "tx_ifname sc")
               (simp_all add: attach_rest_def attach_simps left_over_def)
        next
          case True
          let ?sc = "sc\<lparr>rx_pds := \<lparr>num_descs = 0, descs = rxd\<rparr>, tx_pds := \<lparr>num_descs = 0, descs = txd\<rparr>,
              tx_use_thread := (\<not> at_sts env \<or> use_file_io_thread (at_cfg env)),
              tx_inject_ring := ring, tx_pdctx_room := unat (ring_num_descs ring)\<rparr>"
          let ?st = "st\<lparr>as_owned := [Pdctx_array, Ring, Host_ctx, Tx_pds, Rx_pds] @ own_names sc @ [Softc]\<rparr>"
          have "attach_rest env sc st = attach_setup env ?sc ?st"
            using True assms rx tx h ring by (simp add: attach_rest_def)
          then show ?thesis using attach_setup_post [of ?st ?sc env] by (simp add: own_names_def)
        qed
      qed
    qed
  qed
qed

lemma attach_post:
  assumes "as_owned st = []" "if_dpdk_attach env st = Inr r"
  shows "left_over env r"
proof (cases "at_configstr env")
  case None
  then show ?thesis using assms by (auto simp: if_dpdk_attach_def left_over_def)
next
  case (Some configstr)
  show ?thesis
  proof (cases "at_softc_ok env")
    case False
    then show ?thesis using assms Some by (auto simp: if_dpdk_attach_def left_over_def)
  next
    case True
    let ?st1 = "\<lambda>sc. st\<lparr>as_interface_count := as_interface_count st + 1, as_owned := own_names sc @ [Softc]\<rparr>"
    obtain e sc where "(let st = ?st1 sc in if e \<noteq> 0 then attach_fail e sc False False False False False st
           else attach_rest env sc st) = Inr r"
      using True assms Some by (auto simp: if_dpdk_attach_def)
    then have r: "(if e \<noteq> 0 then attach_fail e sc False False False False False (?st1 sc)
           else attach_rest env sc (?st1 sc)) = Inr r"
      by (simp only: Let_def)
    show ?thesis
    proof (cases "e = 0")
      case True
      then show ?thesis using r attach_rest_post [of "?st1 sc" sc env] by auto
    next
      case False
      then show ?thesis using r
        by (cases "rx_ifname sc"; cases "tx_ifname sc") (auto simp: attach_simps left_over_def)
    qed
  qed
qed

section \<open>Properties\<close>

text \<open>
  C34. The driver reads back every configuration of the documented format: printing a
  configuration, with one interface for both directions, one direction only, or two
  interfaces, and processing the string gives a softc with exactly the names, file marks
  and disabled directions of that configuration.
\<close>

theorem configstr_roundtrip:
  assumes "list_all intf_ok (cfg_intfs c)" "\<not> cfg_same_file c"
  shows "if_dpdk_process_configstr (print_cfg c) zero_softc = Inr (0, cfg_meaning c)"
  using configstr_run [OF assms(1)] assms(2) by simp

text \<open>
  A configuration that names the same file for both directions is not refused with
  an error code, as the comment in the code intends: the name is copied after it is freed.
\<close>

theorem configstr_same_file:
  assumes "list_all intf_ok (cfg_intfs c)" "cfg_same_file c"
  shows "if_dpdk_process_configstr (print_cfg c) zero_softc = Inl Use_after_free"
  using configstr_run [OF assms(1)] assms(2) by simp


section \<open>Instances\<close>

definition attach_demo :: attach_env where
  "attach_demo = \<lparr>at_configstr = Some ''eth0'', at_rx_batch_size = 2, at_sts = False,
     at_cfg = if_dpdk_default_config, at_softc_ok = True, at_rx_pds = Some [demo_pd 0 1, demo_pd 0 2],
     at_tx_pds = Some [demo_pd 0 3], at_handle = Some plain_handle, at_inject_queue_len = 4,
     at_ring_junk = (\<lambda>k. Some (replicate k (demo_pd 0 9))), at_pdctx_ok = True,
     at_tx_thread_ok = True, at_rx_thread_ok = False\<rparr>"

theorem configstr_roundtrip_witness:
  "if_dpdk_process_configstr ''eth0,file://out'' zero_softc =
     Inr (0, cfg_meaning (Rx_Tx (Host ''eth0'') (File ''out'')))"
  using configstr_roundtrip [of "Rx_Tx (Host ''eth0'') (File ''out'')"]
  by (simp add: intf_ok_def FILE_PREFIX_def)

theorem configstr_same_file_witness:
  "if_dpdk_process_configstr ''file://dump'' zero_softc = Inl Use_after_free"
  using configstr_same_file [of "Both (File ''dump'')"] by (simp add: intf_ok_def FILE_PREFIX_def)


end
