(* ===== verification/If_Dpdk_Tx.thy ===== *)
theory If_Dpdk_Tx
  imports If_Dpdk
begin

text \<open>
  The transmit path of \<^verbatim>\<open>src/lib/libuinet/uinet_if_dpdk.c\<close>: injecting descriptors into the
  transmit ring, draining the ring in bursts, and the transmit routine of the interface.
\<close>

section \<open>State\<close>

record if_counters =
  if_oerrors :: u64
  if_opackets :: u64
  if_ozcopies :: u64
  if_ocopies :: u64
  if_obytes :: u64
  if_ipackets :: u64

record ('z, 'd) driver =
  dr_sc :: if_dpdk_softc
  dr_pd :: "'z pd_state"
  dr_dk :: "'d dpdk_state"
  dr_if :: if_counters

section \<open>Injecting\<close>

definition ring_write :: "uinet_pd_ring \<Rightarrow> u32 \<Rightarrow> uinet_pd \<Rightarrow> uinet_pd_ring res" where
  "ring_write r cur pd =
     (if unat cur < length (ring_descs r) then Inr (r\<lparr>ring_descs := (ring_descs r)[unat cur := pd]\<rparr>)
      else Inl Out_of_bounds)"

text \<open>
  The loop, with its variables: \<open>i\<close>, the ring, \<open>cur\<close>, \<open>space\<close>, \<open>num_drops\<close> and the index of
  \<^verbatim>\<open>first_drop_pd\<close> once there is one.
\<close>

fun inject_loop ::
  "uinet_pd list \<Rightarrow> nat \<Rightarrow> uinet_pd_ring \<Rightarrow> u32 \<Rightarrow> u32 \<Rightarrow> u32 \<Rightarrow> nat option \<Rightarrow>
     (uinet_pd_ring \<times> u32 \<times> u32 \<times> nat option) res" where
  "inject_loop [] i txr cur space num_drops first = Inr (txr, cur, num_drops, first)"
| "inject_loop (pd # pds) i txr cur space num_drops first =
     (if has (pd_flags pd) UINET_PD_INJECT then
        if space \<noteq> 0 then
          res_bind (ring_write txr cur pd) (\<lambda>txr.
            inject_loop pds (Suc i) txr (uinet_pd_ring_next txr cur) (space - 1) num_drops first)
        else
          inject_loop pds (Suc i) txr cur space (num_drops + 1) (if num_drops = 0 then Some i else first)
      else inject_loop pds (Suc i) txr cur space num_drops first)"

definition if_dpdk_inject_tx_pkts ::
  "('z, 'd) driver \<Rightarrow> uinet_pd_list \<Rightarrow> (('z, 'd) driver \<times> uinet_pd_list) res" where
  "if_dpdk_inject_tx_pkts drv pkts =
     (let sc = dr_sc drv; n = unat (num_descs pkts); pds = take n (descs pkts) in
      if n > length (descs pkts) then Inl Out_of_bounds
      else if tx_disabled sc then
        res_bind (uinet_pd_drop_injected (dr_pd drv) pds) (\<lambda>pd. Inr (drv\<lparr>dr_pd := pd\<rparr>, pkts))
      else
        let txr = tx_inject_ring sc in
        res_bind (inject_loop pds 0 txr (ring_put txr) (uinet_pd_ring_space txr) 0 None)
          (\<lambda>(txr, cur, num_drops, first).
        let txr = txr\<lparr>ring_put := cur, ring_drops := ring_drops txr + num_drops\<rparr>;
            sc = sc\<lparr>tx_inject_ring := txr,
                    tx_pkts_to_send := (if tx_use_thread sc then Suc (tx_pkts_to_send sc) else tx_pkts_to_send sc)\<rparr>;
            drv = drv\<lparr>dr_sc := sc\<rparr>; pkts = pkts\<lparr>num_descs := 0\<rparr>
        in case first of None \<Rightarrow> Inr (drv, pkts)
           | Some k \<Rightarrow> res_bind (uinet_pd_drop_injected (dr_pd drv) (drop k pds)) (\<lambda>pd.
               Inr (drv\<lparr>dr_pd := pd\<rparr>, pkts))))"

section \<open>Draining the ring\<close>

text \<open>The variables of the loop of \<^verbatim>\<open>if_dpdk_process_tx_inject_ring\<close>.\<close>

record 'd drain =
  dn_pkts :: "u64 list"
  dn_inject_drops :: u32
  dn_n_copy :: u32
  dn_total_bytes :: u32
  dn_ctxs :: "ctx_addr list"
  dn_dk :: "'d dpdk_state"

text \<open>The call of \<^verbatim>\<open>if_dpdk_sendpacket\<close> with the counting around it.\<close>

definition drain_send :: "'d rte_ops \<Rightarrow> 'd drain \<Rightarrow> 'd drain" where
  "drain_send ops v =
     (let (n_snd, dk) = if_dpdk_sendpacket ops (dn_pkts v) (of_nat (length (dn_pkts v))) (dn_dk v) in
      v\<lparr>dn_inject_drops := dn_inject_drops v + (of_nat (length (dn_pkts v)) - of_int n_snd),
        dn_n_copy := dn_n_copy v + of_int n_snd, dn_pkts := [], dn_dk := dk\<rparr>)"

text \<open>
  One turn. The context is dereferenced before the flags are looked at. \<open>room\<close> is the length
  of the array \<^verbatim>\<open>tx_pdctx_to_free\<close>.
\<close>

definition drain_one :: "'d rte_ops \<Rightarrow> nat \<Rightarrow> uinet_pd \<Rightarrow> 'd drain \<Rightarrow> 'd drain res" where
  "drain_one ops room cur_pd v =
     res_bind (deref (pd_ctx cur_pd)) (\<lambda>c.
     if has (pd_flags cur_pd) UINET_PD_MGMT_ONLY then Inr v
     else
       let v = v\<lparr>dn_pkts := dn_pkts v @ [pd_serialno cur_pd]\<rparr>;
           v = (if length (dn_pkts v) = MAX_BURST_SIZE then drain_send ops v else v);
           v = v\<lparr>dn_total_bytes := dn_total_bytes v + ucast (pd_length cur_pd)\<rparr>
       in if length (dn_ctxs v) < room then Inr (v\<lparr>dn_ctxs := dn_ctxs v @ [c]\<rparr>) else Inl Out_of_bounds)"

partial_function (option) drain_loop ::
  "'d rte_ops \<Rightarrow> nat \<Rightarrow> uinet_pd_ring \<Rightarrow> u32 \<Rightarrow> u32 \<Rightarrow> 'd drain \<Rightarrow> ((u32 \<times> 'd drain) res) option" where
  "drain_loop ops room txr tk put v =
     (if tk \<noteq> put then
        case res_bind (ring_load txr tk) (\<lambda>pd. drain_one ops room pd v) of
          Inl e \<Rightarrow> Some (Inl e)
        | Inr v \<Rightarrow> drain_loop ops room txr (uinet_pd_ring_next txr tk) put v
      else Some (Inr (tk, v)))"

definition count_tx :: "'d drain \<Rightarrow> if_counters \<Rightarrow> if_counters" where
  "count_tx v c =
     (let c = c\<lparr>if_oerrors := if_oerrors c + ucast (dn_inject_drops v)\<rparr> in
      if dn_n_copy v > 0 then
        c\<lparr>if_opackets := if_opackets c + ucast (dn_n_copy v), if_ocopies := if_ocopies c + ucast (dn_n_copy v),
          if_obytes := if_obytes c + ucast (dn_total_bytes v)\<rparr>
      else c)"

text \<open>
  \<open>cur_inject_take\<close> is \<open>None\<close> for the null pointer of the caller without a send thread.
  \<open>wait\<close> is the wait for packets under the lock: whether the thread is to stop, and the
  softc afterwards, which other threads may have changed. The results are the return
  value, the new \<^verbatim>\<open>*cur_inject_take\<close> and the driver.
\<close>

definition if_dpdk_process_tx_inject_ring ::
  "'d rte_ops \<Rightarrow> (if_dpdk_softc \<Rightarrow> bool \<times> if_dpdk_softc) \<Rightarrow> u32 option \<Rightarrow> ('z, 'd) driver \<Rightarrow>
     ((int \<times> u32 option \<times> ('z, 'd) driver) res) option" where
  "if_dpdk_process_tx_inject_ring ops wait cur_inject_take drv =
     (let sc = dr_sc drv; threaded = tx_use_thread sc in
      if threaded \<and> cur_inject_take = None then Some (Inl Null_deref)
      else
        let (done, sc) = (if threaded
              then let (done, sc) = wait (sc\<lparr>tx_inject_ring :=
                         (tx_inject_ring sc)\<lparr>ring_take := the cur_inject_take\<rparr>\<rparr>)
                   in (done, sc\<lparr>tx_pkts_to_send := 0\<rparr>)
              else (False, sc));
            txr = tx_inject_ring sc;
            inject_drops = ring_drops txr;
            sc = sc\<lparr>tx_inject_ring := txr\<lparr>ring_drops := 0\<rparr>\<rparr>;
            drv = drv\<lparr>dr_sc := sc\<rparr>
        in
        if done then Some (Inr (1, cur_inject_take, drv))
        else
          Option.bind (drain_loop ops (tx_pdctx_room sc) txr (ring_take txr) (ring_put txr)
              \<lparr>dn_pkts = [], dn_inject_drops = inject_drops, dn_n_copy = 0, dn_total_bytes = 0, dn_ctxs = [],
               dn_dk = dr_dk drv\<rparr>) (\<lambda>r. Some (res_bind r (\<lambda>(tk, v).
          let v = (if dn_pkts v \<noteq> [] then drain_send ops v else v);
              drv = drv\<lparr>dr_dk := dn_dk v, dr_if := count_tx v (dr_if drv)\<rparr>
          in res_bind (uinet_pd_ref_release (dr_pd drv) (dn_ctxs v)) (\<lambda>pd.
             let drv = drv\<lparr>dr_pd := pd\<rparr> in
             if \<not> threaded
             then Inr (0, cur_inject_take, drv\<lparr>dr_sc := (dr_sc drv)\<lparr>tx_inject_ring :=
                         (tx_inject_ring (dr_sc drv))\<lparr>ring_take := tk\<rparr>\<rparr>\<rparr>)
             else Inr (0, Some tk, drv))))))"

text \<open>The results are the return value, \<^verbatim>\<open>*wait_ns\<close> and \<^verbatim>\<open>*fd\<close>.\<close>

definition if_dpdk_batch_send ::
  "'d rte_ops \<Rightarrow> (if_dpdk_softc \<Rightarrow> bool \<times> if_dpdk_softc) \<Rightarrow> ('z, 'd) driver \<Rightarrow>
     ((int \<times> u64 \<times> int \<times> ('z, 'd) driver) res) option" where
  "if_dpdk_batch_send ops wait drv =
     (if \<not> tx_disabled (dr_sc drv) \<and> \<not> tx_use_thread (dr_sc drv)
      then Option.bind (if_dpdk_process_tx_inject_ring ops wait None drv) (\<lambda>r. Some (res_bind r (\<lambda>(_, _, drv).
             Inr (0, 0, -1, drv))))
      else Some (Inr (0, 0, -1, drv)))"

section \<open>Transmitting one packet\<close>

text \<open>A packet of the stack: its header length and the bytes of its chain.\<close>

record tx_packet =
  tp_len :: u32
  tp_bytes :: "u8 list"

text \<open>
  The buffer's fields are written through the descriptor's pointers: the data length has 16
  bits. The packet is freed on every path.
\<close>

definition if_dpdk_transmit ::
  "'d rte_ops \<Rightarrow> tx_packet \<Rightarrow> ('z, 'd) driver \<Rightarrow> int \<times> ('z, 'd) driver" where
  "if_dpdk_transmit ops m drv =
     (let oerr = (\<lambda>drv. drv\<lparr>dr_if := (dr_if drv)\<lparr>if_oerrors := if_oerrors (dr_if drv) + 1\<rparr>\<rparr>) in
      if tx_disabled (dr_sc drv) then (UINET_ENETUNREACH, drv)
      else
        let (r, dk) = dh_alloc_desc ops (dr_dk drv); drv = drv\<lparr>dr_dk := dk\<rparr> in
        case r of None \<Rightarrow> (UINET_ENOBUFS, oerr drv)
        | Some d \<Rightarrow>
            if tp_len m > buf_len d then (UINET_ENOBUFS, oerr drv)
            else
              let p = rm_base d;
                  dk = dk\<lparr>dk_mbufs := (dk_mbufs dk)(p := (dk_mbufs dk p)
                     \<lparr>rte_data_len := ucast (tp_len m), rte_pkt_len := tp_len m,
                      rte_data := take (unat (tp_len m)) (tp_bytes m)\<rparr>)\<rparr>;
                  (n, dk) = dh_send_pkts ops (Some [p]) 1 dk;
                  drv = drv\<lparr>dr_dk := dk\<rparr>
              in if n = 0 then (UINET_ENOBUFS, oerr drv)
                 else (0, drv\<lparr>dr_if := (dr_if drv)\<lparr>if_opackets := if_opackets (dr_if drv) + 1\<rparr>\<rparr>))"


text \<open>What draining is meant to do: hand the buffers over in order, in bursts.\<close>

fun drain_list :: "'d rte_ops \<Rightarrow> nat \<Rightarrow> uinet_pd list \<Rightarrow> 'd drain \<Rightarrow> 'd drain res" where
  "drain_list ops room [] v = Inr v"
| "drain_list ops room (pd # pds) v = res_bind (drain_one ops room pd v) (drain_list ops room pds)"

function send_bursts :: "'d rte_ops \<Rightarrow> u64 list \<Rightarrow> 'd dpdk_state \<Rightarrow> int \<times> 'd dpdk_state" where
  "send_bursts ops xs dk =
     (if xs = [] then (0, dk)
      else
        let (n, dk) = if_dpdk_sendpacket ops (take MAX_BURST_SIZE xs) (of_nat (length (take MAX_BURST_SIZE xs))) dk;
            (m, dk) = send_bursts ops (drop MAX_BURST_SIZE xs) dk
        in (n + m, dk))"
  by pat_completeness auto
termination
  by (relation "measure (\<lambda>(ops, xs, dk). length xs)") (auto simp: MAX_BURST_SIZE_def)

declare send_bursts.simps [simp del]

definition drain_flush :: "'d rte_ops \<Rightarrow> 'd drain \<Rightarrow> 'd drain" where
  "drain_flush ops v = (if dn_pkts v \<noteq> [] then drain_send ops v else v)"

abbreviation sendable :: "uinet_pd \<Rightarrow> bool" where
  "sendable pd \<equiv> pd_ctx pd \<noteq> None \<and> \<not> has (pd_flags pd) UINET_PD_MGMT_ONLY"

abbreviation inject :: "uinet_pd \<Rightarrow> bool" where
  "inject pd \<equiv> has (pd_flags pd) UINET_PD_INJECT"

section \<open>Lemmas on injecting\<close>

lemma ring_write_store:
  assumes "ring_inv (r\<lparr>ring_put := cur\<rparr>)"
  shows "\<exists>r'. ring_write r cur pd = Inr r' \<and>
     ring_store (r\<lparr>ring_put := cur\<rparr>) pd = Inr (r'\<lparr>ring_put := uinet_pd_ring_next r' cur\<rparr>) \<and>
     ring_take r' = ring_take r \<and> ring_drops r' = ring_drops r"
  using ring_inv_nat(3,4) [OF assms]
  by (simp add: ring_write_def ring_store_def uinet_pd_ring_next_def)

lemma inject_full:
  "length pds + unat drops < 2 ^ 32 \<Longrightarrow>
   \<exists>d first'. inject_loop pds i txr cur 0 drops first = Inr (txr, cur, drops + of_nat d, first') \<and>
     d = length (filter inject pds) \<and>
     (if drops \<noteq> 0 \<or> d = 0 then first' = first
      else \<exists>k. first' = Some (i + k) \<and> filter inject (drop k pds) = filter inject pds)"
proof (induction pds arbitrary: i drops first)
  case (Cons pd pds)
  show ?case
  proof (cases "inject pd")
    case True
    have u: "unat (drops + 1) = Suc (unat drops)" using Cons.prems by (simp add: unat_plus_if')
    then have nz: "drops + 1 \<noteq> 0" by (metis nat.distinct(1) unat_0)
    obtain d first' where "inject_loop pds (Suc i) txr cur 0 (drops + 1) (if drops = 0 then Some i else first)
         = Inr (txr, cur, drops + 1 + of_nat d, first')" "d = length (filter inject pds)"
        "first' = (if drops = 0 then Some i else first)"
      using Cons.IH [of "drops + 1" "Suc i" "if drops = 0 then Some i else first"] u nz Cons.prems by auto
    then show ?thesis using True
      by (intro exI [of _ "Suc d"] exI [of _ first']) (auto simp: add.assoc intro: exI [of _ 0])
  next
    case False
    obtain d first' where IH: "inject_loop pds (Suc i) txr cur 0 drops first
         = Inr (txr, cur, drops + of_nat d, first')" "d = length (filter inject pds)"
        "if drops \<noteq> 0 \<or> d = 0 then first' = first
         else \<exists>k. first' = Some (Suc i + k) \<and> filter inject (drop k pds) = filter inject pds"
      using Cons.IH [of drops "Suc i" first] Cons.prems by auto
    have "\<exists>k. first' = Some (i + k) \<and> filter inject (drop k (pd # pds)) = filter inject (pd # pds)"
      if nd: "\<not> (drops \<noteq> 0 \<or> d = 0)"
    proof -
      obtain k where "first' = Some (Suc i + k)" "filter inject (drop k pds) = filter inject pds"
        using IH(3) nd by auto
      then show ?thesis using False by (intro exI [of _ "Suc k"]) simp
    qed
    then show ?thesis using IH False by (intro exI [of _ d] exI [of _ first']) auto
  qed
qed simp

lemma inject_loop_spec:
  "ring_inv (txr\<lparr>ring_put := cur\<rparr>) \<Longrightarrow> unat space \<le> unat (uinet_pd_ring_space (txr\<lparr>ring_put := cur\<rparr>)) \<Longrightarrow>
   length pds < 2 ^ 32 \<Longrightarrow> js = filter inject pds \<Longrightarrow>
   \<exists>txr' cur' first. inject_loop pds i txr cur space 0 None =
       Inr (txr', cur', of_nat (length js - unat space), first) \<and>
     ring_inv (txr'\<lparr>ring_put := cur'\<rparr>) \<and> ring_take txr' = ring_take txr \<and> ring_drops txr' = ring_drops txr \<and>
     ring_abs (txr'\<lparr>ring_put := cur'\<rparr>) = ring_abs (txr\<lparr>ring_put := cur\<rparr>) @ take (unat space) js \<and>
     (if length js \<le> unat space then first = None
      else \<exists>k. first = Some (i + k) \<and> filter inject (drop k pds) = drop (unat space) js)"
proof (induction pds arbitrary: i txr cur space js)
  case (Cons pd pds)
  show ?case
  proof (cases "inject pd")
    case False
    obtain txr' cur' first where IH: "inject_loop pds (Suc i) txr cur space 0 None =
       Inr (txr', cur', of_nat (length js - unat space), first)"
      "ring_inv (txr'\<lparr>ring_put := cur'\<rparr>)" "ring_take txr' = ring_take txr" "ring_drops txr' = ring_drops txr"
      "ring_abs (txr'\<lparr>ring_put := cur'\<rparr>) = ring_abs (txr\<lparr>ring_put := cur\<rparr>) @ take (unat space) js"
      "if length js \<le> unat space then first = None
       else \<exists>k. first = Some (Suc i + k) \<and> filter inject (drop k pds) = drop (unat space) js"
      using Cons.IH [where txr = txr and cur = cur and space = space and js = js and i = "Suc i"] Cons.prems False by auto
    have "\<exists>k. first = Some (i + k) \<and> filter inject (drop k (pd # pds)) = drop (unat space) js"
      if "\<not> length js \<le> unat space"
      using IH(6) that by (auto intro: exI [of _ "Suc _"])
    then show ?thesis using IH False by (intro exI [of _ txr'] exI [of _ cur'] exI [of _ first]) auto
  next
    case inj: True
    show ?thesis
    proof (cases "space = 0")
      case True
      then show ?thesis
        using inject_full [of "pd # pds" 0 i txr cur None] Cons.prems inj by auto
    next
      case False
      let ?R = "txr\<lparr>ring_put := cur\<rparr>"
      obtain r' where w: "ring_write txr cur pd = Inr r'"
        "ring_store ?R pd = Inr (r'\<lparr>ring_put := uinet_pd_ring_next r' cur\<rparr>)"
        "ring_take r' = ring_take txr" "ring_drops r' = ring_drops txr"
        using ring_write_store [OF Cons.prems(1)] by blast
      let ?R' = "r'\<lparr>ring_put := uinet_pd_ring_next r' cur\<rparr>"
      have pos: "0 < unat space" using False by (simp add: unat_gt_0)
      have room: "length (ring_abs ?R) < ring_cap ?R"
        using ring_space_unat [OF Cons.prems(1)] Cons.prems(2) pos by simp
      have q: "ring_inv ?R'" "ring_abs ?R' = ring_abs ?R @ [pd]" "ring_cap ?R' = ring_cap ?R"
        using ring_fifo.enq_ok [OF Cons.prems(1) room, of pd] w(2) by auto
      have sp: "unat (space - 1) \<le> unat (uinet_pd_ring_space ?R')"
        using ring_space_unat [OF q(1)] ring_space_unat [OF Cons.prems(1)] Cons.prems(2) q pos
        by (simp add: unat_minus_one [OF False])
      have u: "unat (space - 1) = unat space - 1" using False by (rule unat_minus_one)
      let ?js = "filter inject pds"
      obtain txr' cur' first where IH: "inject_loop pds (Suc i) r' (uinet_pd_ring_next r' cur) (space - 1) 0 None =
         Inr (txr', cur', of_nat (length ?js - unat (space - 1)), first)"
        "ring_inv (txr'\<lparr>ring_put := cur'\<rparr>)" "ring_take txr' = ring_take r'" "ring_drops txr' = ring_drops r'"
        "ring_abs (txr'\<lparr>ring_put := cur'\<rparr>) = ring_abs ?R' @ take (unat (space - 1)) ?js"
        "if length ?js \<le> unat (space - 1) then first = None
         else \<exists>k. first = Some (Suc i + k) \<and> filter inject (drop k pds) = drop (unat (space - 1)) ?js"
        using Cons.IH [OF q(1) sp _ refl, where i = "Suc i"] Cons.prems(3) by auto
      have js: "js = pd # ?js" using Cons.prems(4) inj by simp
      obtain n where n: "unat space = Suc n" using pos by (metis gr0_implies_Suc)
      have "\<exists>k. first = Some (i + k) \<and> filter inject (drop k (pd # pds)) = drop (unat space) js"
        if "\<not> length js \<le> unat space"
        using IH(6) that js u n by (auto intro: exI [of _ "Suc _"])
      then show ?thesis
        using IH w q inj False js u n by (intro exI [of _ txr'] exI [of _ cur'] exI [of _ first]) auto
    qed
  qed
qed simp

section \<open>Lemmas on draining\<close>

lemma drain_loop_list:
  assumes "ring_inv txr" "unat tk < unat (ring_num_descs txr)" "unat put < unat (ring_num_descs txr)"
  shows "drain_loop ops room txr tk put v =
    Some (res_bind (drain_list ops room (ring_seg txr tk put) v) (\<lambda>v. Inr (put, v)))"
  using assms(2)
proof (induction "ring_seg txr tk put" arbitrary: tk v)
  case Nil
  have "tk = put"
    using ring_seg_Cons [OF assms(1) Nil(2) assms(3)] Nil(1) by auto
  then show ?case using Nil by (subst drain_loop.simps) simp
next
  case (Cons pd pds)
  have ne: "tk \<noteq> put" using Cons(2) by (auto simp: ring_seg_def Let_def)
  note n = ring_inv_nat [OF assms(1)]
  have seg: "pd = ring_descs txr ! unat tk" "pds = ring_seg txr (uinet_pd_ring_next txr tk) put"
    using ring_seg_Cons [OF assms(1) Cons.prems assms(3) ne] Cons(2) by auto
  have ld: "ring_load txr tk = Inr pd" using Cons.prems n seg(1) by (simp add: ring_load_def)
  show ?case
  proof (cases "drain_one ops room pd v")
    case (Inl e)
    then show ?thesis using ne ld Cons(2) [symmetric] by (subst drain_loop.simps) simp
  next
    case (Inr v')
    then show ?thesis
      using ne ld Cons(2) [symmetric] Cons.hyps(1) [OF seg(2), of v'] seg(2) ring_next_bound [OF n(1) Cons.prems]
      by (subst drain_loop.simps) simp
  qed
qed

lemma send_bursts_split:
  "length xs = MAX_BURST_SIZE \<Longrightarrow>
   send_bursts ops (xs @ ys) dk =
     (let (n, dk) = if_dpdk_sendpacket ops xs (of_nat (length xs)) dk; (m, dk) = send_bursts ops ys dk
      in (n + m, dk))"
  by (subst send_bursts.simps) (auto simp: MAX_BURST_SIZE_def)

lemma send_bursts_last:
  "xs \<noteq> [] \<Longrightarrow> length xs < MAX_BURST_SIZE \<Longrightarrow>
   send_bursts ops xs dk = if_dpdk_sendpacket ops xs (of_nat (length xs)) dk"
  by (subst send_bursts.simps, subst send_bursts.simps) (auto split: prod.splits)

text \<open>The result of the loop and its last send, in terms of the reference.\<close>

lemma drain_list_spec:
  assumes "list_all sendable pds" "length (dn_ctxs v) + length pds \<le> room" "length (dn_pkts v) < MAX_BURST_SIZE"
    and "send_bursts ops (dn_pkts v @ map pd_serialno pds) (dn_dk v) = (sent, dk)"
  shows "\<exists>w. drain_list ops room pds v = Inr w \<and>
     drain_flush ops w = \<lparr>dn_pkts = [],
       dn_inject_drops = dn_inject_drops v + (of_nat (length (dn_pkts v) + length pds) - of_int sent),
       dn_n_copy = dn_n_copy v + of_int sent,
       dn_total_bytes = dn_total_bytes v + sum_list (map (\<lambda>pd. ucast (pd_length pd)) pds),
       dn_ctxs = dn_ctxs v @ map (the \<circ> pd_ctx) pds, dn_dk = dk\<rparr>"
  using assms
proof (induction pds arbitrary: v sent)
  case Nil
  show ?case
  proof (cases "dn_pkts v = []")
    case True
    then show ?thesis using Nil(4) by (simp add: drain_flush_def send_bursts.simps)
  next
    case False
    then show ?thesis using Nil send_bursts_last [OF False Nil(3), of ops "dn_dk v"]
      by (simp add: drain_flush_def drain_send_def)
  qed
next
  case (Cons pd pds)
  obtain c where c: "pd_ctx pd = Some c" using Cons.prems(1) by auto
  let ?ps = "dn_pkts v @ [pd_serialno pd]"
  let ?tail = "\<lambda>u. u\<lparr>dn_total_bytes := dn_total_bytes v + ucast (pd_length pd), dn_ctxs := dn_ctxs v @ [c]\<rparr>"
  show ?case
  proof (cases "length ?ps = MAX_BURST_SIZE")
    case True
    obtain n dk1 where s1: "if_dpdk_sendpacket ops ?ps (of_nat (length ?ps)) (dn_dk v) = (n, dk1)" by fastforce
    obtain m where s2: "send_bursts ops (map pd_serialno pds) dk1 = (m, dk)" "sent = n + m"
      using send_bursts_split [OF True, of ops "map pd_serialno pds" "dn_dk v"] Cons.prems(4) s1
      by (auto split: prod.splits)
    let ?v = "?tail (drain_send ops (v\<lparr>dn_pkts := ?ps\<rparr>))"
    have v: "dn_pkts ?v = []" "dn_dk ?v = dk1" "dn_ctxs ?v = dn_ctxs v @ [c]" "dn_n_copy ?v = dn_n_copy v + of_int n"
      "dn_total_bytes ?v = dn_total_bytes v + ucast (pd_length pd)"
      "dn_inject_drops ?v = dn_inject_drops v + (of_nat (length ?ps) - of_int n)"
      using s1 by (simp_all add: drain_send_def)
    have one: "drain_one ops room pd v = Inr ?v"
      using Cons.prems(1,2) c True s1 by (simp add: drain_one_def Let_def drain_send_def)
    obtain w where w: "drain_list ops room pds ?v = Inr w" "drain_flush ops w = \<lparr>dn_pkts = [],
       dn_inject_drops = dn_inject_drops ?v + (of_nat (length (dn_pkts ?v) + length pds) - of_int m),
       dn_n_copy = dn_n_copy ?v + of_int m,
       dn_total_bytes = dn_total_bytes ?v + sum_list (map (\<lambda>pd. ucast (pd_length pd)) pds),
       dn_ctxs = dn_ctxs ?v @ map (the \<circ> pd_ctx) pds, dn_dk = dk\<rparr>"
      using Cons.IH [of ?v m] Cons.prems v s2 by (auto simp: MAX_BURST_SIZE_def)
    show ?thesis
      using one w v s2 c by (simp add: algebra_simps)
  next
    case False
    let ?v = "?tail (v\<lparr>dn_pkts := ?ps\<rparr>)"
    have one: "drain_one ops room pd v = Inr ?v"
      using Cons.prems(1,2) c False by (simp add: drain_one_def Let_def)
    obtain w where w: "drain_list ops room pds ?v = Inr w" "drain_flush ops w = \<lparr>dn_pkts = [],
       dn_inject_drops = dn_inject_drops ?v + (of_nat (length (dn_pkts ?v) + length pds) - of_int sent),
       dn_n_copy = dn_n_copy ?v + of_int sent,
       dn_total_bytes = dn_total_bytes ?v + sum_list (map (\<lambda>pd. ucast (pd_length pd)) pds),
       dn_ctxs = dn_ctxs ?v @ map (the \<circ> pd_ctx) pds, dn_dk = dk\<rparr>"
      using Cons.IH [of ?v sent] Cons.prems False by auto
    show ?thesis using one w c by (simp add: algebra_simps)
  qed
qed


section \<open>Properties\<close>

text \<open>
  C8. Injecting a list of descriptors puts those marked for injection at the end of the
  transmit ring, in order, as many as there is space for. The others marked for injection
  are counted as drops and their references released, in order; nothing else is
  released, and the list is emptied.
\<close>

theorem if_dpdk_inject_tx_pkts_spec:
  fixes drv :: "('z, 'd) driver"
  assumes "ring_inv (tx_inject_ring (dr_sc drv))" "\<not> tx_disabled (dr_sc drv)"
    and "unat (num_descs pkts) \<le> length (descs pkts)" "pools_ok (dr_pd drv)"
    and "list_all (\<lambda>pd. inject pd \<longrightarrow> pd_ctx pd \<noteq> None) (take (unat (num_descs pkts)) (descs pkts))"
    and "js = filter inject (take (unat (num_descs pkts)) (descs pkts))"
    and "space = unat (uinet_pd_ring_space (tx_inject_ring (dr_sc drv)))"
  shows "\<exists>drv'. if_dpdk_inject_tx_pkts drv pkts = Inr (drv', pkts\<lparr>num_descs := 0\<rparr>) \<and>
     ring_inv (tx_inject_ring (dr_sc drv')) \<and>
     ring_abs (tx_inject_ring (dr_sc drv')) = ring_abs (tx_inject_ring (dr_sc drv)) @ take space js \<and>
     ring_drops (tx_inject_ring (dr_sc drv')) =
       ring_drops (tx_inject_ring (dr_sc drv)) + of_nat (length js - space) \<and>
     uinet_pd_ref_release (dr_pd drv) (map (the \<circ> pd_ctx) (drop space js)) = Inr (dr_pd drv')"
proof -
  let ?pds = "take (unat (num_descs pkts)) (descs pkts)" and ?r = "tx_inject_ring (dr_sc drv)"
  have len: "length ?pds < 2 ^ 32" using u32_bound [of "num_descs pkts"] assms(3) by simp
  have put: "?r\<lparr>ring_put := ring_put ?r\<rparr> = ?r" by simp
  obtain txr cur first where lp: "inject_loop ?pds 0 ?r (ring_put ?r) (uinet_pd_ring_space ?r) 0 None =
       Inr (txr, cur, of_nat (length js - space), first)"
    "ring_inv (txr\<lparr>ring_put := cur\<rparr>)" "ring_take txr = ring_take ?r" "ring_drops txr = ring_drops ?r"
    "ring_abs (txr\<lparr>ring_put := cur\<rparr>) = ring_abs ?r @ take space js"
    "if length js \<le> space then first = None
     else \<exists>k. first = Some (0 + k) \<and> filter inject (drop k ?pds) = drop space js"
    using inject_loop_spec [where txr = ?r and cur = "ring_put ?r" and space = "uinet_pd_ring_space ?r" and
        pds = ?pds and js = js and i = 0] assms(1,6,7) len
    unfolding put by blast
  let ?r' = "txr\<lparr>ring_put := cur, ring_drops := ring_drops txr + of_nat (length js - space)\<rparr>"
  have r': "ring_inv ?r'" "ring_abs ?r' = ring_abs ?r @ take space js"
    using lp(2,5) by (simp_all add: ring_inv_def ring_abs_def)
  show ?thesis
  proof (cases "length js \<le> space")
    case True
    then have "uinet_pd_ref_release (dr_pd drv) (map (the \<circ> pd_ctx) (drop space js)) = Inr (dr_pd drv)"
      by (simp add: uinet_pd_ref_release_def batch_flush_def batch_init_def)
    then show ?thesis
      using True lp r' assms(2,3) by (simp add: if_dpdk_inject_tx_pkts_def Let_def)
  next
    case False
    then obtain k where k: "first = Some k" "filter inject (drop k ?pds) = drop space js" using lp(6) by auto
    have all: "list_all (\<lambda>pd. inject pd \<longrightarrow> pd_ctx pd \<noteq> None) (drop k ?pds)"
      using assms(5) by (meson in_set_dropD list_all_iff)
    note dr = uinet_pd_drop_injected_is_release' [OF assms(4) all, unfolded k(2)]
    obtain pd' where "uinet_pd_ref_release (dr_pd drv) (map (the \<circ> pd_ctx) (drop space js)) = Inr pd'"
      using release_total [OF assms(4)] by blast
    then show ?thesis
      using False k(1) dr lp r' assms(2,3) by (simp add: if_dpdk_inject_tx_pkts_def Let_def)
  qed
qed


text \<open>
  Transmitting a packet that the device accepts hands the device a buffer holding the
  packet's bytes with its length, and counts one packet. Every other outcome is an error
  code with one output error counted, or none when transmission is disabled; in none of
  them is the buffer that was allocated given back.
\<close>

theorem if_dpdk_transmit_spec:
  "if_dpdk_transmit ops m drv =
   (if tx_disabled (dr_sc drv) then (UINET_ENETUNREACH, drv)
    else case rte_pktmbuf_alloc ops (dk_mbuf_pool (dr_dk drv)) (dk_dev (dr_dk drv)) of
      (None, d) \<Rightarrow> (UINET_ENOBUFS, drv\<lparr>dr_dk := (dr_dk drv)\<lparr>dk_dev := d\<rparr>,
                      dr_if := (dr_if drv)\<lparr>if_oerrors := if_oerrors (dr_if drv) + 1\<rparr>\<rparr>)
    | (Some (p, mb), d) \<Rightarrow>
        if ucast (rte_buf_len mb) < tp_len m
        then (UINET_ENOBUFS, drv\<lparr>dr_dk := (dr_dk drv)\<lparr>dk_dev := d, dk_mbufs := (dk_mbufs (dr_dk drv))(p := mb)\<rparr>,
                dr_if := (dr_if drv)\<lparr>if_oerrors := if_oerrors (dr_if drv) + 1\<rparr>\<rparr>)
        else
          let dk = (dr_dk drv)\<lparr>dk_mbufs := (dk_mbufs (dr_dk drv))(p := mb
                 \<lparr>rte_data_len := ucast (tp_len m), rte_pkt_len := tp_len m,
                  rte_data := take (unat (tp_len m)) (tp_bytes m)\<rparr>),
                 dk_dev := snd (rte_eth_tx_burst ops [p] d)\<rparr> in
          if fst (rte_eth_tx_burst ops [p] d) = 0
          then (UINET_ENOBUFS, drv\<lparr>dr_dk := dk, dr_if := (dr_if drv)\<lparr>if_oerrors := if_oerrors (dr_if drv) + 1\<rparr>\<rparr>)
          else (0, drv\<lparr>dr_dk := dk, dr_if := (dr_if drv)\<lparr>if_opackets := if_opackets (dr_if drv) + 1\<rparr>\<rparr>))"
  by (auto simp: if_dpdk_transmit_def dh_alloc_desc_def mbuf_desc_def dh_send_pkts_def Let_def
      case_prod_beta split: option.splits prod.splits)


section \<open>Instances\<close>

definition demo_driver :: "(unit, nat) driver" where
  "demo_driver = \<lparr>dr_sc = zero_softc\<lparr>tx_inject_ring := demo_ring, tx_pdctx_room := 3\<rparr>, dr_pd = demo_state,
     dr_dk = cold_state, dr_if = \<lparr>if_oerrors = 0, if_opackets = 0, if_ozcopies = 0, if_ocopies = 0,
     if_obytes = 0, if_ipackets = 0\<rparr>\<rparr>"

lemma demo_driver_simps [simp]:
  "tx_inject_ring (dr_sc demo_driver) = demo_ring" "tx_disabled (dr_sc demo_driver) = False"
  "tx_use_thread (dr_sc demo_driver) = False" "dr_pd demo_driver = demo_state"
  "dr_dk demo_driver = cold_state" "tx_pdctx_room (dr_sc demo_driver) = 3"
  by (simp_all add: demo_driver_def zero_softc_def)

lemma demo_ring_simps [simp]:
  "ring_inv demo_ring" "ring_abs demo_ring = [demo_pd 0x10 2]" "uinet_pd_ring_space demo_ring = 1"
  "ring_drops demo_ring = 0"
  by (simp_all add: demo_ring_def ring_inv_def ring_abs_def ring_seg_def uinet_pd_ring_space_def Let_def
      u32_sless_0)

lemma demo_pd_simps [simp]:
  "pd_flags (demo_pd f c) = f" "pd_ctx (demo_pd f c) = Some c" "pd_serialno (demo_pd f c) = 0"
  by (simp_all add: demo_pd_def)

theorem if_dpdk_inject_tx_pkts_spec_witness:
  "\<exists>drv'. if_dpdk_inject_tx_pkts demo_driver \<lparr>num_descs = 2, descs = [demo_pd 0x10 4, demo_pd 0x10 5]\<rparr> =
       Inr (drv', \<lparr>num_descs = 0, descs = [demo_pd 0x10 4, demo_pd 0x10 5]\<rparr>) \<and>
     ring_abs (tx_inject_ring (dr_sc drv')) = [demo_pd 0x10 2, demo_pd 0x10 4] \<and>
     ring_drops (tx_inject_ring (dr_sc drv')) = 1 \<and>
     uinet_pd_ref_release demo_state [5] = Inr (dr_pd drv')"
  using if_dpdk_inject_tx_pkts_spec [of demo_driver "\<lparr>num_descs = 2, descs = [demo_pd 0x10 4, demo_pd 0x10 5]\<rparr>"
      "[demo_pd 0x10 4, demo_pd 0x10 5]" 1] demo_pools_ok
  by (auto simp: has_def UINET_PD_INJECT_def)


end
