(* ===== verification/Tx_Thread.thy ===== *)
theory Tx_Thread
  imports If_Dpdk_Tx
begin

text \<open>
  The send thread of \<^verbatim>\<open>src/lib/libuinet/uinet_if_dpdk.c\<close> beside the threads that inject. Each
  injection runs under the transmit lock. The send thread takes the lock to give back the
  entries it has processed and to read the put index, and then reads the entries without
  the lock. The steps below are the sections between lock operations and, without the
  lock, the reading of one entry.
\<close>

section \<open>The two sides\<close>

text \<open>
  Where the send thread is: before the lock, with the value of \<open>cur_inject_take\<close>; holding or
  waiting on the lock; or draining, with its two local indices.
\<close>

datatype tx_pc = Tx_top u32 | Tx_wait | Tx_drain u32 u32

text \<open>The lists of all descriptors accepted into the ring and of all read by the thread are ghosts.\<close>

record tx_conf =
  tc_ring :: uinet_pd_ring
  tc_pending :: nat
  tc_pc :: tx_pc
  tc_accepted :: "uinet_pd list"
  tc_read :: "uinet_pd list"

inductive tx_step :: "tx_conf \<Rightarrow> tx_conf \<Rightarrow> bool" where
  inject:
    "length pds < 2 ^ 32 \<Longrightarrow>
     inject_loop pds 0 (tc_ring s) (ring_put (tc_ring s)) (uinet_pd_ring_space (tc_ring s)) 0 None =
       Inr (txr, cur, num_drops, first) \<Longrightarrow>
     tx_step s (s\<lparr>tc_ring := txr\<lparr>ring_put := cur, ring_drops := ring_drops txr + num_drops\<rparr>,
                  tc_pending := Suc (tc_pending s),
                  tc_accepted := tc_accepted s @
                    take (unat (uinet_pd_ring_space (tc_ring s))) (filter inject pds)\<rparr>)"
| lock: "tc_pc s = Tx_top ct \<Longrightarrow>
     tx_step s (s\<lparr>tc_ring := (tc_ring s)\<lparr>ring_take := ct\<rparr>, tc_pc := Tx_wait\<rparr>)"
| unlock: "tc_pc s = Tx_wait \<Longrightarrow> tc_pending s \<noteq> 0 \<Longrightarrow>
     tx_step s (s\<lparr>tc_ring := (tc_ring s)\<lparr>ring_drops := 0\<rparr>, tc_pending := 0,
                  tc_pc := Tx_drain (ring_take (tc_ring s)) (ring_put (tc_ring s))\<rparr>)"
| load: "tc_pc s = Tx_drain l p \<Longrightarrow> l \<noteq> p \<Longrightarrow> ring_load (tc_ring s) l = Inr pd \<Longrightarrow>
     tx_step s (s\<lparr>tc_pc := Tx_drain (uinet_pd_ring_next (tc_ring s) l) p, tc_read := tc_read s @ [pd]\<rparr>)"
| finish: "tc_pc s = Tx_drain l l \<Longrightarrow> tx_step s (s\<lparr>tc_pc := Tx_top l\<rparr>)"

definition tx_start :: "uinet_pd_ring \<Rightarrow> tx_conf" where
  "tx_start r = \<lparr>tc_ring = r, tc_pending = 0, tc_pc = Tx_top 0, tc_accepted = [], tc_read = []\<rparr>"

text \<open>The index of the next entry the thread will read.\<close>

definition tx_pos :: "tx_conf \<Rightarrow> u32" where
  "tx_pos s = (case tc_pc s of Tx_top ct \<Rightarrow> ct | Tx_wait \<Rightarrow> ring_take (tc_ring s) | Tx_drain l p \<Rightarrow> l)"

section \<open>Distances on the ring\<close>

definition rdist :: "uinet_pd_ring \<Rightarrow> u32 \<Rightarrow> u32 \<Rightarrow> nat" where
  "rdist r i j = (if unat i \<le> unat j then unat j - unat i
                  else unat (ring_num_descs r) - unat i + unat j)"

definition on_ring :: "uinet_pd_ring \<Rightarrow> u32 \<Rightarrow> bool" where
  "on_ring r i \<longleftrightarrow> unat i < unat (ring_num_descs r)"

text \<open>
  The invariant. The thread's position lies between take and put; while it drains, so does
  the put index it saw, ahead of its position; and what was accepted is what was read
  followed by what lies between the position and put.
\<close>

definition tx_inv :: "tx_conf \<Rightarrow> bool" where
  "tx_inv s \<longleftrightarrow>
     (let r = tc_ring s; l = tx_pos s in
      ring_inv r \<and> on_ring r l \<and>
      rdist r (ring_take r) l + rdist r l (ring_put r) = rdist r (ring_take r) (ring_put r) \<and>
      tc_accepted s = tc_read s @ ring_seg r l (ring_put r) \<and>
      (case tc_pc s of Tx_drain l p \<Rightarrow> on_ring r p \<and> rdist r l p + rdist r p (ring_put r) = rdist r l (ring_put r)
       | _ \<Rightarrow> True))"

section \<open>Lemmas\<close>

lemma rdist_seg: "ring_inv r \<Longrightarrow> on_ring r i \<Longrightarrow> on_ring r j \<Longrightarrow> length (ring_seg r i j) = rdist r i j"
  using ring_inv_nat(3) [of r] by (simp add: ring_seg_length rdist_def on_ring_def)

lemma rdist_same [simp]: "rdist r i i = 0"
  by (simp add: rdist_def)

lemma rdist_0: "on_ring r i \<Longrightarrow> rdist r i j = 0 \<Longrightarrow> i = j"
  by (auto simp: rdist_def on_ring_def u32_eq_iff split: if_splits)

lemma rdist_bound: "on_ring r i \<Longrightarrow> on_ring r j \<Longrightarrow> rdist r i j < unat (ring_num_descs r)"
  by (auto simp: rdist_def on_ring_def)

lemma on_ring_next: "on_ring r i \<Longrightarrow> on_ring r (uinet_pd_ring_next r i)"
  by (auto simp: on_ring_def ring_next_unat)

lemma rdist_next_from:
  "on_ring r i \<Longrightarrow> on_ring r j \<Longrightarrow> i \<noteq> j \<Longrightarrow> Suc (rdist r (uinet_pd_ring_next r i) j) = rdist r i j"
  by (auto simp: rdist_def on_ring_def ring_next_unat u32_eq_iff split: if_splits)

lemma rdist_next_to:
  "on_ring r i \<Longrightarrow> on_ring r j \<Longrightarrow> Suc (rdist r i j) < unat (ring_num_descs r) \<Longrightarrow>
   rdist r i (uinet_pd_ring_next r j) = Suc (rdist r i j)"
  by (auto simp: rdist_def on_ring_def ring_next_unat split: if_splits)

lemma rdist_update [simp]:
  "rdist (r\<lparr>ring_take := a\<rparr>) = rdist r" "rdist (r\<lparr>ring_put := a\<rparr>) = rdist r" "rdist (r\<lparr>ring_drops := a\<rparr>) = rdist r"
  "on_ring (r\<lparr>ring_take := a\<rparr>) = on_ring r" "on_ring (r\<lparr>ring_put := a\<rparr>) = on_ring r"
  "on_ring (r\<lparr>ring_drops := a\<rparr>) = on_ring r"
  by (auto simp: rdist_def on_ring_def fun_eq_iff)

lemma ring_inv_on_ring: "ring_inv r \<Longrightarrow> on_ring r (ring_put r) \<and> on_ring r (ring_take r)"
  by (simp add: on_ring_def ring_inv_nat)

lemma ring_inv_take: "ring_inv r \<Longrightarrow> on_ring r i \<Longrightarrow> ring_inv (r\<lparr>ring_take := i\<rparr>)"
  by (simp add: ring_inv_def on_ring_def word_less_nat_alt)

text \<open>Injecting does not look at the take index, and keeps the size.\<close>

lemma inject_loop_take:
  "inject_loop pds i txr cur space d f = Inr (txr', cur', d', f') \<Longrightarrow>
   inject_loop pds i (txr\<lparr>ring_take := t\<rparr>) cur space d f = Inr (txr'\<lparr>ring_take := t\<rparr>, cur', d', f') \<and>
   ring_num_descs txr' = ring_num_descs txr"
proof (induction pds arbitrary: i txr cur space d f)
  case (Cons pd pds)
  show ?case
  proof (cases "inject pd \<and> space \<noteq> 0")
    case True
    then obtain r where w: "ring_write txr cur pd = Inr r"
      and l: "inject_loop pds (Suc i) r (uinet_pd_ring_next r cur) (space - 1) d f = Inr (txr', cur', d', f')"
      using Cons.prems by auto
    have "ring_write (txr\<lparr>ring_take := t\<rparr>) cur pd = Inr (r\<lparr>ring_take := t\<rparr>)"
      "ring_num_descs r = ring_num_descs txr"
      "uinet_pd_ring_next (r\<lparr>ring_take := t\<rparr>) cur = uinet_pd_ring_next r cur"
      using w by (auto simp: ring_write_def uinet_pd_ring_next_def split: if_splits)
    then show ?thesis using True Cons.IH [OF l] by simp
  next
    case False
    then show ?thesis using Cons.prems Cons.IH by (auto split: if_splits)
  qed
qed simp

text \<open>
  Seen from any position that is no farther behind put than take is, injecting appends the
  accepted descriptors.
\<close>

lemma inject_from:
  assumes inv: "ring_inv r" "on_ring r l" "rdist r l (ring_put r) \<le> rdist r (ring_take r) (ring_put r)"
    and len: "length pds < 2 ^ 32" "a = take (unat (uinet_pd_ring_space r)) (filter inject pds)"
    and lp: "inject_loop pds 0 r (ring_put r) (uinet_pd_ring_space r) 0 None = Inr (txr, cur, d, f)"
  shows "ring_seg txr l cur = ring_seg r l (ring_put r) @ a \<and>
     rdist r l cur = rdist r l (ring_put r) + length a \<and>
     ring_num_descs txr = ring_num_descs r \<and> ring_inv (txr\<lparr>ring_put := cur\<rparr>) \<and> ring_take txr = ring_take r"
proof -
  let ?r = "r\<lparr>ring_take := l\<rparr>"
  have inv': "ring_inv ?r" using inv ring_inv_take by blast
  have put: "?r\<lparr>ring_put := ring_put ?r\<rparr> = ?r" "r\<lparr>ring_put := ring_put r\<rparr> = r" by simp_all
  have "length (ring_abs ?r) \<le> length (ring_abs r)"
    using inv ring_inv_on_ring [OF inv(1)] rdist_seg [OF inv(1)] by (simp add: ring_abs_def)
  then have sp: "unat (uinet_pd_ring_space r) \<le> unat (uinet_pd_ring_space ?r)"
    using ring_space_unat [OF inv'] ring_space_unat [OF inv(1)] by (simp add: ring_cap_def)
  obtain txr1 cur1 first1 where s1: "inject_loop pds 0 ?r (ring_put ?r) (uinet_pd_ring_space r) 0 None =
       Inr (txr1, cur1, of_nat (length (filter inject pds) - unat (uinet_pd_ring_space r)), first1)"
      "ring_inv (txr1\<lparr>ring_put := cur1\<rparr>)" "ring_take txr1 = l"
      "ring_abs (txr1\<lparr>ring_put := cur1\<rparr>) = ring_abs ?r @ a"
    using inject_loop_spec [where txr = ?r and cur = "ring_put ?r" and pds = pds and i = 0 and
        space = "uinet_pd_ring_space r" and js = "filter inject pds"] inv' sp len unfolding put by auto
  obtain txr2 cur2 first2 where s2: "inject_loop pds 0 r (ring_put r) (uinet_pd_ring_space r) 0 None =
       Inr (txr2, cur2, of_nat (length (filter inject pds) - unat (uinet_pd_ring_space r)), first2)"
      "ring_inv (txr2\<lparr>ring_put := cur2\<rparr>)" "ring_take txr2 = ring_take r"
    using inject_loop_spec [where txr = r and cur = "ring_put r" and pds = pds and i = 0 and
        space = "uinet_pd_ring_space r" and js = "filter inject pds"] inv(1) len unfolding put by auto
  note tk = inject_loop_take [OF lp, of l]
  have eq: "txr1 = txr\<lparr>ring_take := l\<rparr>" "cur1 = cur" "txr2 = txr" "cur2 = cur"
    using tk s1(1) s2(1) lp by simp_all
  have seg: "ring_seg txr l cur = ring_seg r l (ring_put r) @ a"
    using s1(4) eq by (simp add: ring_abs_def)
  have "on_ring (txr\<lparr>ring_put := cur\<rparr>) cur" using ring_inv_on_ring [OF s2(2)] eq by simp
  then have oc: "on_ring txr cur" "on_ring r cur" using tk by (simp_all add: on_ring_def)
  have ol: "on_ring (txr\<lparr>ring_put := cur\<rparr>) l" using inv(2) tk by (simp add: on_ring_def)
  have "rdist r l cur = rdist (txr\<lparr>ring_put := cur\<rparr>) l cur" using tk by (simp add: rdist_def)
  also have "\<dots> = length (ring_seg (txr\<lparr>ring_put := cur\<rparr>) l cur)"
    using rdist_seg [of "txr\<lparr>ring_put := cur\<rparr>" l cur] s2(2) eq ol oc by simp
  also have "\<dots> = rdist r l (ring_put r) + length a"
    using seg rdist_seg [OF inv(1,2)] ring_inv_on_ring [OF inv(1)] by simp
  finally show ?thesis using seg tk s2(2,3) eq by simp
qed


lemma tx_inv_start:
  assumes "ring_inv r" "ring_put r = 0" "ring_take r = 0"
  shows "tx_inv (tx_start r)"
proof -
  have "ring_seg r 0 0 = []" by (simp add: ring_seg_def Let_def)
  then show ?thesis
    using assms ring_inv_on_ring [OF assms(1)] by (simp add: tx_inv_def tx_start_def tx_pos_def Let_def)
qed

lemma tx_inv_inject:
  assumes inv: "tx_inv s" and len: "length pds < 2 ^ 32"
    and lp: "inject_loop pds 0 (tc_ring s) (ring_put (tc_ring s)) (uinet_pd_ring_space (tc_ring s)) 0 None =
       Inr (txr, cur, d, f)"
  shows "tx_inv (s\<lparr>tc_ring := txr\<lparr>ring_put := cur, ring_drops := ring_drops txr + d\<rparr>, tc_pending := n,
      tc_accepted := tc_accepted s @ take (unat (uinet_pd_ring_space (tc_ring s))) (filter inject pds)\<rparr>)"
    (is "tx_inv ?s'")
proof -
  let ?r = "tc_ring s" and ?r' = "txr\<lparr>ring_put := cur, ring_drops := ring_drops txr + d\<rparr>"
  let ?a = "take (unat (uinet_pd_ring_space ?r)) (filter inject pds)"
  have i: "ring_inv ?r" "on_ring ?r (tx_pos s)"
    "rdist ?r (ring_take ?r) (tx_pos s) + rdist ?r (tx_pos s) (ring_put ?r) = rdist ?r (ring_take ?r) (ring_put ?r)"
    "tc_accepted s = tc_read s @ ring_seg ?r (tx_pos s) (ring_put ?r)"
    "case tc_pc s of Tx_drain l p \<Rightarrow> on_ring ?r p \<and> rdist ?r l p + rdist ?r p (ring_put ?r) = rdist ?r l (ring_put ?r)
       | _ \<Rightarrow> True"
    using inv by (simp_all add: tx_inv_def Let_def)
  note from' = inject_from [OF i(1) _ _ len refl lp]
  note F = from' [OF i(2)]
  have ft: "rdist ?r (ring_take ?r) cur = rdist ?r (ring_take ?r) (ring_put ?r) + length ?a"
    using from' [of "ring_take ?r"] ring_inv_on_ring [OF i(1)] by simp
  have fl: "ring_seg txr (tx_pos s) cur = ring_seg ?r (tx_pos s) (ring_put ?r) @ ?a"
    "rdist ?r (tx_pos s) cur = rdist ?r (tx_pos s) (ring_put ?r) + length ?a"
    "ring_num_descs txr = ring_num_descs ?r" "ring_inv (txr\<lparr>ring_put := cur\<rparr>)" "ring_take txr = ring_take ?r"
    using F i(3) by auto
  have same: "rdist ?r' = rdist ?r" "on_ring ?r' = on_ring ?r"
    using fl(3) by (auto simp: fun_eq_iff rdist_def on_ring_def)
  have pos: "tx_pos ?s' = tx_pos s" using fl(5) by (simp add: tx_pos_def split: tx_pc.split)
  have rinv: "ring_inv ?r'" using fl(4) by (simp add: ring_inv_def)
  have drain: "on_ring ?r p \<and> rdist ?r l p + rdist ?r p cur = rdist ?r l cur" if "tc_pc s = Tx_drain l p" for l p
  proof -
    have l: "tx_pos s = l" using that by (simp add: tx_pos_def)
    have p: "on_ring ?r p" "rdist ?r l p + rdist ?r p (ring_put ?r) = rdist ?r l (ring_put ?r)" using i(5) that by simp_all
    have "rdist ?r p (ring_put ?r) \<le> rdist ?r (ring_take ?r) (ring_put ?r)" using p(2) i(3) l by simp
    then have "rdist ?r p cur = rdist ?r p (ring_put ?r) + length ?a" using from' [OF p(1)] by simp
    then show ?thesis using p fl(2) l by simp
  qed
  show ?thesis
    unfolding tx_inv_def Let_def pos
    using rinv i ft fl same drain by (simp split: tx_pc.split)
qed

lemma tx_inv_load:
  assumes inv: "tx_inv s" and pc: "tc_pc s = Tx_drain l p" "l \<noteq> p"
  shows "\<exists>pd. ring_load (tc_ring s) l = Inr pd \<and>
    tx_inv (s\<lparr>tc_pc := Tx_drain (uinet_pd_ring_next (tc_ring s) l) p, tc_read := tc_read s @ [pd]\<rparr>)"
proof -
  let ?r = "tc_ring s"
  let ?l = "uinet_pd_ring_next ?r l"
  have i: "ring_inv ?r" "on_ring ?r l" "on_ring ?r p"
    "rdist ?r (ring_take ?r) l + rdist ?r l (ring_put ?r) = rdist ?r (ring_take ?r) (ring_put ?r)"
    "tc_accepted s = tc_read s @ ring_seg ?r l (ring_put ?r)"
    "rdist ?r l p + rdist ?r p (ring_put ?r) = rdist ?r l (ring_put ?r)"
    using inv pc by (simp_all add: tx_inv_def tx_pos_def Let_def)
  note on = ring_inv_on_ring [OF i(1)]
  have "rdist ?r l p \<noteq> 0" using rdist_0 [OF i(2)] pc(2) by blast
  then have ne: "l \<noteq> ring_put ?r" using i(6) by auto
  have b: "rdist ?r (ring_take ?r) (ring_put ?r) < unat (ring_num_descs ?r)" using rdist_bound on by blast
  have d1: "Suc (rdist ?r ?l p) = rdist ?r l p" using rdist_next_from [OF i(2,3) pc(2)] .
  have d2: "Suc (rdist ?r ?l (ring_put ?r)) = rdist ?r l (ring_put ?r)"
    using rdist_next_from [OF i(2) _ ne] on by simp
  have d3: "rdist ?r (ring_take ?r) ?l = Suc (rdist ?r (ring_take ?r) l)"
    using rdist_next_to [of ?r "ring_take ?r" l] on i(2,4) d2 b by simp
  have sg: "ring_seg ?r l (ring_put ?r) = ring_descs ?r ! unat l # ring_seg ?r ?l (ring_put ?r)"
    using ring_seg_Cons [OF i(1)] i(2) on ne by (simp add: on_ring_def)
  have "ring_load ?r l = Inr (ring_descs ?r ! unat l)"
    using i(1,2) ring_inv_nat(3) by (simp add: ring_load_def on_ring_def)
  then show ?thesis
    using i sg d1 d2 d3 on_ring_next [OF i(2)] by (simp add: tx_inv_def tx_pos_def Let_def)
qed

lemma tx_inv_step:
  assumes "tx_step s s'" "tx_inv s"
  shows "tx_inv s'"
  using assms(1)
proof cases
  case (inject pds txr cur num_drops first)
  then show ?thesis using tx_inv_inject [OF assms(2)] by simp
next
  case (lock ct)
  then show ?thesis using assms(2) ring_inv_take by (simp add: tx_inv_def tx_pos_def Let_def)
next
  case unlock
  then show ?thesis
    using assms(2) ring_inv_on_ring [of "tc_ring s"]
    by (simp add: tx_inv_def tx_pos_def Let_def ring_inv_def)
next
  case (load l p pd)
  then show ?thesis using tx_inv_load [OF assms(2) load(2,3)] by auto
next
  case (finish l)
  then show ?thesis using assms(2) by (simp add: tx_inv_def tx_pos_def Let_def)
qed

lemma tx_reachable_inv:
  assumes "ring_inv r" "ring_put r = 0" "ring_take r = 0" "tx_step\<^sup>*\<^sup>* (tx_start r) s"
  shows "tx_inv s"
  using assms(4) by (induction rule: rtranclp_induct) (use assms(1-3) tx_inv_start tx_inv_step in blast)+

section \<open>Properties\<close>


definition empty_ring :: uinet_pd_ring where
  "empty_ring = \<lparr>ring_num_descs = 3, ring_put = 0, ring_take = 0, ring_drops = 0,
     ring_descs = [demo_pd 0 1, demo_pd 0 2, demo_pd 0 3]\<rparr>"


end
