(* ===== verification/If_Dpdk_Rx.thy ===== *)
theory If_Dpdk_Rx
  imports If_Dpdk_Tx
begin

text \<open>
  The receive path: \<^verbatim>\<open>if_dpdk_batch_receive\<close> of \<^verbatim>\<open>src/lib/libuinet/uinet_if_dpdk.c\<close> and the
  timestamps of \<^verbatim>\<open>uinet_if.c\<close>.
\<close>

section \<open>Timestamps\<close>

datatype timestamp_mode = TS_NONE | TS_HW | TS_COUNTER | TS_GLOBAL_COUNTER | TS_MONOTONIC | TS_MONOTONIC_FAST

datatype uhi_clock = UHI_CLOCK_MONOTONIC | UHI_CLOCK_MONOTONIC_FAST

record uif_ts =
  uif_timestamp_mode :: timestamp_mode
  uif_timestamp_counter :: u64
  global_timestamp_counter :: u64

definition set_timestamp :: "u64 \<Rightarrow> uinet_pd \<Rightarrow> 'z pd_state \<Rightarrow> 'z pd_state res" where
  "set_timestamp ts pd s =
     res_bind (deref (pd_ctx pd)) (\<lambda>c. Inr (upd_ctx c (\<lambda>x. x\<lparr>ctx_timestamp := ts\<rparr>) s))"

text \<open>The loops over the list: stamps from a counter, and one stamp for all.\<close>

fun stamp_count :: "u64 \<Rightarrow> uinet_pd list \<Rightarrow> 'z pd_state \<Rightarrow> 'z pd_state res" where
  "stamp_count n [] s = Inr s"
| "stamp_count n (pd # pds) s = res_bind (set_timestamp (n * 1000) pd s) (stamp_count (n + 1) pds)"

fun stamp_same :: "u64 \<Rightarrow> uinet_pd list \<Rightarrow> 'z pd_state \<Rightarrow> 'z pd_state res" where
  "stamp_same ts [] s = Inr s"
| "stamp_same ts (pd # pds) s = res_bind (set_timestamp ts pd s) (stamp_same ts pds)"

text \<open>
  The condition that chooses the clock tests the constant \<open>UINET_IF_TIMESTAMP_MONOTONIC\<close>,
  which is not zero, instead of the mode.
\<close>

definition uinet_if_pd_timestamp ::
  "(uhi_clock \<Rightarrow> u64) \<Rightarrow> uif_ts \<Rightarrow> uinet_pd list \<Rightarrow> 'z pd_state \<Rightarrow> (uif_ts \<times> 'z pd_state) res" where
  "uinet_if_pd_timestamp clock uif pds s =
     (case uif_timestamp_mode uif of
        TS_COUNTER \<Rightarrow> res_bind (stamp_count (uif_timestamp_counter uif) pds s) (\<lambda>s.
          Inr (uif\<lparr>uif_timestamp_counter := uif_timestamp_counter uif + of_nat (length pds)\<rparr>, s))
      | TS_GLOBAL_COUNTER \<Rightarrow> res_bind (stamp_count (global_timestamp_counter uif) pds s) (\<lambda>s.
          Inr (uif\<lparr>global_timestamp_counter := global_timestamp_counter uif + of_nat (length pds)\<rparr>, s))
      | TS_MONOTONIC \<Rightarrow> res_bind (stamp_same (clock UHI_CLOCK_MONOTONIC) pds s) (\<lambda>s. Inr (uif, s))
      | TS_MONOTONIC_FAST \<Rightarrow> res_bind (stamp_same (clock UHI_CLOCK_MONOTONIC) pds s) (\<lambda>s. Inr (uif, s))
      | TS_NONE \<Rightarrow> Inr (uif, s)
      | TS_HW \<Rightarrow> Inr (uif, s))"

section \<open>Receiving a batch\<close>

text \<open>
  What the routine calls: the allocator and the pool's number, DPDK, the clock, the value
  found in the variable \<^verbatim>\<open>timestamp\<close>, which nothing sets, the application's first look at the
  packets, and the stack's input routine with the interface.
\<close>

record ('z, 'd) rx_env =
  rx_uma :: "'z uma_ops"
  rx_pool :: u16
  rx_rte :: "'d rte_ops"
  rx_clock :: "uhi_clock \<Rightarrow> u64"
  rx_junk_timestamp :: u64
  rx_first_look :: "uinet_pd_list \<Rightarrow> 'z pd_state \<Rightarrow> uinet_pd_list \<times> 'z pd_state"
  rx_input :: "'z pd_state \<Rightarrow> mbuf_addr \<Rightarrow> 'z pd_state"
  rx_ifp :: nat

text \<open>One turn of the loop: the buffer \<open>d\<close> is attached to the mbuf of the descriptor.\<close>

definition rx_attach ::
  "bool \<Rightarrow> u64 \<Rightarrow> dh_rte_mbuf_desc \<Rightarrow> uinet_pd \<Rightarrow> 'z pd_state \<Rightarrow> (uinet_pd \<times> 'z pd_state) res" where
  "rx_attach hw ts d pd s =
     res_bind (deref (pd_ctx pd)) (\<lambda>c.
     let s = (if hw then upd_ctx c (\<lambda>x. x\<lparr>ctx_timestamp := ts\<rparr>) s else s);
         a = ctx_m (pd_ctxs s c);
         s = upd_mbuf a (\<lambda>m. m\<lparr>m_ext_ref_cnt := ref_cnt d\<rparr>) s;
         s = m_extadd_extref a (rm_data d) (buf_len d) Dpdk_free_rte_buf (rm_base d) (Some c) 0 s
     in Inr (pd\<lparr>pd_length := ucast (data_len d), pd_flags := pd_flags pd OR UINET_PD_TO_STACK\<rparr>, s))"

text \<open>The loop goes over the descriptors and the buffers together, to the end of the shorter.\<close>

fun rx_loop ::
  "bool \<Rightarrow> u64 \<Rightarrow> dh_rte_mbuf_desc list \<Rightarrow> uinet_pd list \<Rightarrow> 'z pd_state \<Rightarrow> (uinet_pd list \<times> 'z pd_state) res" where
  "rx_loop hw ts (d # ds) (pd # pds) s =
     res_bind (rx_attach hw ts d pd s) (\<lambda>(pd, s).
     res_bind (rx_loop hw ts ds pds s) (\<lambda>(pds, s). Inr (pd # pds, s)))"
| "rx_loop hw ts _ pds s = Inr (pds, s)"

text \<open>
  The results are the return value, \<open>None\<close> when it is computed from a variable without a
  value, \<^verbatim>\<open>*fd\<close> unless it is left alone, \<^verbatim>\<open>*wait_ns\<close>, the timestamps and the driver. The wait
  time that \<^verbatim>\<open>if_dpdk_getpacket\<close> stores is always zero, so no packet is ever left waiting.
\<close>

definition if_dpdk_batch_receive ::
  "('z, 'd) rx_env \<Rightarrow> uif_ts \<Rightarrow> ('z, 'd) driver \<Rightarrow>
     (bool option \<times> int option \<times> u64 \<times> uif_ts \<times> ('z, 'd) driver) res" where
  "if_dpdk_batch_receive env uif drv =
     (let sc = dr_sc drv in
      if rx_disabled sc then Inr (Some False, Some (-1), 1000000000, uif, drv)
      else
        res_bind (uinet_pd_mbuf_alloc_descs (rx_uma env) (rx_pool env) (dr_pd drv) (rx_pds sc)
                    (rx_batch_size sc - num_descs (rx_pds sc))) (\<lambda>(_, pd, lst).
        let had = rx_packet_waiting sc;
            max_rx = num_descs lst - had;
            ((ds, wait_ns), dk) = if_dpdk_getpacket (rx_rte env) (dr_dk drv);
            sc = sc\<lparr>rx_packet_waiting := 0, rx_pds := lst\<rparr>;
            drv = drv\<lparr>dr_sc := sc, dr_pd := pd, dr_dk := dk\<rparr>
        in
        if ds = [] then Inr (None, None, wait_ns, uif, drv)
        else
          let i = min (unat max_rx) (length ds);
              drv = drv\<lparr>dr_if := (dr_if drv)\<lparr>if_ipackets := if_ipackets (dr_if drv) + of_nat (length ds)\<rparr>\<rparr>
          in
          if unat (num_descs lst) > length (descs lst) then Inl Out_of_bounds
          else
          res_bind (rx_loop (uif_timestamp_mode uif = TS_HW) (rx_junk_timestamp env) (take i ds)
                      (drop (unat had) (descs lst)) pd) (\<lambda>(pds, pd).
          let lst = lst\<lparr>descs := take (unat had) (descs lst) @ pds\<rparr>;
              used = of_nat i + had;
              to_move = unat (num_descs lst - used)
          in
          res_bind (if used \<noteq> 0 then
              res_bind (if uif_timestamp_mode uif \<noteq> TS_NONE
                        then uinet_if_pd_timestamp (rx_clock env) uif (take (unat (num_descs lst)) (descs lst)) pd
                        else Inr (uif, pd)) (\<lambda>(uif, pd).
              let (lst, pd) = rx_first_look env lst pd in
              res_bind (uinet_pd_deliver_to_stack (rx_input env) (rx_ifp env) lst pd) (\<lambda>pd.
              Inr (uif, pd, lst\<lparr>num_descs := num_descs lst - used,
                                descs := take to_move (drop (unat used) (descs lst)) @ drop to_move (descs lst)\<rparr>)))
            else Inr (uif, pd, lst)) (\<lambda>(uif, pd, lst).
          let drv = drv\<lparr>dr_pd := pd, dr_sc := (dr_sc drv)\<lparr>rx_pds := lst\<rparr>\<rparr>
          in Inr (Some (i = unat max_rx), Some (if i = unat max_rx then -1 else rx_fd sc), wait_ns, uif, drv)))))"

section \<open>Lemmas\<close>

text \<open>
  A list of descriptors is ready when every descriptor has a context of its own whose mbuf
  is not in the stack's hands, the mbufs are different, and nothing is marked for the stack.
\<close>

definition pd_m :: "'z pd_state \<Rightarrow> uinet_pd \<Rightarrow> mbuf_addr" where
  "pd_m s pd = ctx_m (pd_ctxs s (the (pd_ctx pd)))"

definition idle_pd :: "'z pd_state \<Rightarrow> uinet_pd \<Rightarrow> bool" where
  "idle_pd s pd \<longleftrightarrow> pd_ctx pd \<noteq> None \<and>
     \<not> has (ctx_flags (pd_ctxs s (the (pd_ctx pd)))) UINET_PD_CTX_MBUF_USED"

definition idle_pds :: "'z pd_state \<Rightarrow> uinet_pd list \<Rightarrow> bool" where
  "idle_pds s pds \<longleftrightarrow> list_all (idle_pd s) pds \<and> distinct (map pd_ctx pds) \<and> distinct (map (pd_m s) pds)"

abbreviation to_stack :: "uinet_pd \<Rightarrow> bool" where
  "to_stack pd \<equiv> has (pd_flags pd) UINET_PD_TO_STACK"

text \<open>What the delivery writes into the header of the mbuf.\<close>

definition stack_mbuf :: "nat \<Rightarrow> uinet_pd \<Rightarrow> pd_mbuf \<Rightarrow> pd_mbuf" where
  "stack_mbuf ifp pd m = m\<lparr>m_pkthdr_len := ucast (pd_length pd), m_len := ucast (pd_length pd),
     m_pkthdr_rcvif := Some ifp\<rparr>"

lemma has_or [simp]: "has (x OR f) g \<longleftrightarrow> has x g \<or> has f g"
  by (auto simp: has_def bit.conj_disj_distrib2 or_eq_0_iff)

lemma has_const [simp]:
  "has UINET_PD_CTX_MBUF_USED UINET_PD_CTX_MBUF_USED" "has UINET_PD_TO_STACK UINET_PD_TO_STACK"
  by (simp_all add: has_def UINET_PD_CTX_MBUF_USED_def UINET_PD_TO_STACK_def)

lemma idle_pds_Cons [simp]:
  "idle_pds s (pd # pds) \<longleftrightarrow> idle_pd s pd \<and> pd_ctx pd \<notin> pd_ctx ` set pds \<and> pd_m s pd \<notin> pd_m s ` set pds \<and>
     idle_pds s pds"
  by (auto simp: idle_pds_def)

lemma idle_pds_Nil [simp]: "idle_pds s []"
  by (simp add: idle_pds_def)

text \<open>The descriptors stay idle when their contexts keep their mbufs and flags.\<close>

lemma idle_pds_mono:
  assumes "idle_pds s pds"
    and "\<And>pd. pd \<in> set pds \<Longrightarrow> ctx_m (pd_ctxs s' (the (pd_ctx pd))) = ctx_m (pd_ctxs s (the (pd_ctx pd))) \<and>
       ctx_flags (pd_ctxs s' (the (pd_ctx pd))) = ctx_flags (pd_ctxs s (the (pd_ctx pd)))"
  shows "idle_pds s' pds" "\<And>pd. pd \<in> set pds \<Longrightarrow> pd_m s' pd = pd_m s pd"
proof -
  show m: "\<And>pd. pd \<in> set pds \<Longrightarrow> pd_m s' pd = pd_m s pd" using assms(2) by (simp add: pd_m_def)
  then have "map (pd_m s') pds = map (pd_m s) pds" by simp
  moreover have "list_all (idle_pd s') pds"
    using assms by (simp add: idle_pds_def idle_pd_def list_all_iff)
  ultimately show "idle_pds s' pds"
    using assms(1) unfolding idle_pds_def by metis
qed

text \<open>
  The stack logs what it is given in its own state, and leaves the contexts and mbufs that
  were not handed over alone.
\<close>

lemma deliver_loop_log:
  assumes inp_log: "\<And>s a. log (pd_zone (inp s a)) = log (pd_zone s) @ [(a, pd_mbufs s a)]"
    and inp_frame: "\<And>s a c. \<not> has (ctx_flags (pd_ctxs s c)) UINET_PD_CTX_MBUF_USED \<Longrightarrow>
       pd_ctxs (inp s a) c = pd_ctxs s c \<and>
       pd_mbufs (inp s a) (ctx_m (pd_ctxs s c)) = pd_mbufs s (ctx_m (pd_ctxs s c))"
  shows "idle_pds s pds \<Longrightarrow>
    \<exists>s'. deliver_loop inp ifp pds s = Inr s' \<and>
      log (pd_zone s') = log (pd_zone s) @
        map (\<lambda>pd. (pd_m s pd, stack_mbuf ifp pd (pd_mbufs s (pd_m s pd)))) (filter to_stack pds)"
proof (induction pds arbitrary: s)
  case (Cons pd pds)
  then obtain c where c: "pd_ctx pd = Some c" by (auto simp: idle_pd_def)
  show ?case
  proof (cases "to_stack pd")
    case True
    let ?a = "pd_m s pd"
    let ?s1 = "upd_mbuf ?a (stack_mbuf ifp pd) (upd_ctx c (\<lambda>x. x\<lparr>ctx_flags :=
       (ctx_flags x AND NOT UINET_PD_CTX_SINGLE_REF) OR UINET_PD_CTX_MBUF_USED,
       ctx_m_orig_len := pd_length pd\<rparr>) s)"
    have d: "deliver1 inp ifp pd s = Inr (inp ?s1 ?a)"
      using c True by (simp add: deliver1_def Let_def pd_m_def upd_defs stack_mbuf_def)
    have s1: "pd_mbufs ?s1 ?a = stack_mbuf ifp pd (pd_mbufs s ?a)" "pd_zone ?s1 = pd_zone s"
      by (simp_all add: upd_defs)
    have keep: "pd_ctxs (inp ?s1 ?a) (the (pd_ctx p)) = pd_ctxs s (the (pd_ctx p)) \<and>
        pd_mbufs (inp ?s1 ?a) (pd_m s p) = pd_mbufs s (pd_m s p)" if p: "p \<in> set pds" for p
    proof -
      have i: "idle_pd s p" using Cons.prems p by (simp add: idle_pds_def list_all_iff)
      have "pd_m s p \<in> pd_m s ` set pds" "pd_ctx p \<in> pd_ctx ` set pds" using p by simp_all
      then have ne: "the (pd_ctx p) \<noteq> c" "pd_m s p \<noteq> ?a"
        using Cons.prems c i unfolding idle_pds_Cons idle_pd_def by (metis option.collapse)+
      have 1: "pd_ctxs ?s1 (the (pd_ctx p)) = pd_ctxs s (the (pd_ctx p))"
        "pd_mbufs ?s1 (pd_m s p) = pd_mbufs s (pd_m s p)"
        using ne by (simp_all add: upd_defs)
      show ?thesis using inp_frame [of ?s1 "the (pd_ctx p)" ?a] i unfolding 1 by (simp add: idle_pd_def pd_m_def 1 [unfolded pd_m_def])
    qed
    have idle: "idle_pds (inp ?s1 ?a) pds" "\<And>p. p \<in> set pds \<Longrightarrow> pd_m (inp ?s1 ?a) p = pd_m s p"
      using idle_pds_mono [of s pds "inp ?s1 ?a"] Cons.prems keep by simp_all
    obtain s' where "deliver_loop inp ifp pds (inp ?s1 ?a) = Inr s'"
      "log (pd_zone s') = log (pd_zone (inp ?s1 ?a)) @
        map (\<lambda>pd. (pd_m s pd, stack_mbuf ifp pd (pd_mbufs s (pd_m s pd)))) (filter to_stack pds)"
      using Cons.IH [OF idle(1)] idle(2) keep by (auto cong: map_cong)
    then show ?thesis using d True inp_log [of ?s1 ?a] s1 by simp
  next
    case False
    then show ?thesis using Cons by (simp add: deliver1_def)
  qed
qed simp

text \<open>Stamping changes the timestamps of contexts and nothing else.\<close>

definition same_but_stamps :: "'z pd_state \<Rightarrow> 'z pd_state \<Rightarrow> bool" where
  "same_but_stamps s s' \<longleftrightarrow> pd_mbufs s' = pd_mbufs s \<and> pd_zone s' = pd_zone s \<and>
     (\<forall>c. ctx_m (pd_ctxs s' c) = ctx_m (pd_ctxs s c) \<and> ctx_flags (pd_ctxs s' c) = ctx_flags (pd_ctxs s c))"

lemma same_but_stamps_refl [simp]: "same_but_stamps s s"
  by (simp add: same_but_stamps_def)

lemma same_but_stamps_set:
  "same_but_stamps s s' \<Longrightarrow> same_but_stamps s (upd_ctx c (\<lambda>x. x\<lparr>ctx_timestamp := ts\<rparr>) s')"
  by (simp add: same_but_stamps_def upd_ctx_def)

lemma stamp_count_same:
  "list_all (\<lambda>pd. pd_ctx pd \<noteq> None) pds \<Longrightarrow> same_but_stamps s0 s \<Longrightarrow>
   \<exists>s'. stamp_count n pds s = Inr s' \<and> same_but_stamps s0 s'"
  by (induction n pds s rule: stamp_count.induct) (auto simp: set_timestamp_def same_but_stamps_set)

lemma stamp_same_same:
  "list_all (\<lambda>pd. pd_ctx pd \<noteq> None) pds \<Longrightarrow> same_but_stamps s0 s \<Longrightarrow>
   \<exists>s'. stamp_same ts pds s = Inr s' \<and> same_but_stamps s0 s'"
  by (induction ts pds s rule: stamp_same.induct) (auto simp: set_timestamp_def same_but_stamps_set)

lemma timestamp_same:
  assumes "list_all (\<lambda>pd. pd_ctx pd \<noteq> None) pds"
  shows "\<exists>uif' s'. uinet_if_pd_timestamp clock uif pds s = Inr (uif', s') \<and> same_but_stamps s s'"
  using stamp_count_same [OF assms, of s s] stamp_same_same [OF assms, of s s]
  by (cases "uif_timestamp_mode uif") (fastforce simp: uinet_if_pd_timestamp_def)+

lemma timestamp_if_same:
  assumes "list_all (\<lambda>pd. pd_ctx pd \<noteq> None) pds"
  shows "\<exists>uif' s'. (if uif_timestamp_mode uif \<noteq> TS_NONE then uinet_if_pd_timestamp clock uif pds s
      else Inr (uif, s)) = Inr (uif', s') \<and> same_but_stamps s s'"
  using timestamp_same [OF assms] by (cases "uif_timestamp_mode uif = TS_NONE") auto

text \<open>The mbuf with a received buffer attached, and the descriptor for the stack.\<close>

definition rx_mbuf :: "dh_rte_mbuf_desc \<Rightarrow> ctx_addr option \<Rightarrow> pd_mbuf \<Rightarrow> pd_mbuf" where
  "rx_mbuf d c m = m\<lparr>m_ext_ref_cnt := ref_cnt d, m_flags := m_flags m OR M_EXT, m_ext_buf := rm_data d,
     m_data := rm_data d, m_ext_size := buf_len d, m_ext_free := Dpdk_free_rte_buf,
     m_ext_arg1 := rm_base d, m_ext_arg2 := c, m_ext_type := EXT_EXTREF\<rparr>"

definition rx_desc :: "dh_rte_mbuf_desc \<Rightarrow> uinet_pd \<Rightarrow> uinet_pd" where
  "rx_desc d pd = pd\<lparr>pd_length := ucast (data_len d), pd_flags := pd_flags pd OR UINET_PD_TO_STACK\<rparr>"

lemma rx_desc_simps [simp]: "pd_ctx (rx_desc d pd) = pd_ctx pd" "pd_m s (rx_desc d pd) = pd_m s pd"
  "to_stack (rx_desc d pd)" "pd_length (rx_desc d pd) = ucast (data_len d)"
  by (simp_all add: rx_desc_def pd_m_def)

lemma rx_attach_eq:
  assumes "pd_ctx pd = Some c"
  shows "\<exists>s'. rx_attach hw ts d pd s = Inr (rx_desc d pd, s') \<and> pd_zone s' = pd_zone s \<and>
     pd_mbufs s' = (pd_mbufs s)(pd_m s pd := rx_mbuf d (pd_ctx pd) (pd_mbufs s (pd_m s pd))) \<and>
     (\<forall>c. ctx_m (pd_ctxs s' c) = ctx_m (pd_ctxs s c) \<and> ctx_flags (pd_ctxs s' c) = ctx_flags (pd_ctxs s c))"
  using assms by (simp add: rx_attach_def Let_def rx_desc_def rx_mbuf_def m_extadd_extref_def upd_defs pd_m_def)

lemma rx_loop_eq:
  "length ds \<le> length pds \<Longrightarrow> idle_pds s (take (length ds) pds) \<Longrightarrow>
   \<exists>s'. rx_loop hw ts ds pds s = Inr (map2 rx_desc ds (take (length ds) pds) @ drop (length ds) pds, s') \<and>
     pd_zone s' = pd_zone s \<and>
     (\<forall>c. ctx_m (pd_ctxs s' c) = ctx_m (pd_ctxs s c) \<and> ctx_flags (pd_ctxs s' c) = ctx_flags (pd_ctxs s c)) \<and>
     (\<forall>a. a \<notin> pd_m s ` set (take (length ds) pds) \<longrightarrow> pd_mbufs s' a = pd_mbufs s a) \<and>
     map (\<lambda>pd. pd_mbufs s' (pd_m s pd)) (take (length ds) pds) =
       map2 (\<lambda>d pd. rx_mbuf d (pd_ctx pd) (pd_mbufs s (pd_m s pd))) ds (take (length ds) pds)"
proof (induction hw ts ds pds s rule: rx_loop.induct)
  case (1 hw ts d ds pd pds s)
  then obtain c where c: "pd_ctx pd = Some c" by (auto simp: idle_pd_def)
  from rx_attach_eq [OF c, of hw ts d s] obtain s1 where
    s1: "rx_attach hw ts d pd s = Inr (rx_desc d pd, s1)" "pd_zone s1 = pd_zone s"
      "pd_mbufs s1 = (pd_mbufs s)(pd_m s pd := rx_mbuf d (pd_ctx pd) (pd_mbufs s (pd_m s pd)))"
      "\<forall>c. ctx_m (pd_ctxs s1 c) = ctx_m (pd_ctxs s c) \<and> ctx_flags (pd_ctxs s1 c) = ctx_flags (pd_ctxs s c)"
    by blast
  have m: "pd_m s1 = pd_m s" using s1(4) by (auto simp: pd_m_def)
  have idle: "idle_pds s1 (take (length ds) pds)"
    using idle_pds_mono(1) [of s "take (length ds) pds" s1] 1(3) s1(4) by simp
  from 1(1) [OF _ idle] 1(2) obtain s2 where
    s2: "rx_loop hw ts ds pds s1 = Inr (map2 rx_desc ds (take (length ds) pds) @ drop (length ds) pds, s2)"
      "pd_zone s2 = pd_zone s1"
      "\<forall>c. ctx_m (pd_ctxs s2 c) = ctx_m (pd_ctxs s1 c) \<and> ctx_flags (pd_ctxs s2 c) = ctx_flags (pd_ctxs s1 c)"
      "\<forall>a. a \<notin> pd_m s ` set (take (length ds) pds) \<longrightarrow> pd_mbufs s2 a = pd_mbufs s1 a"
      "map (\<lambda>pd. pd_mbufs s2 (pd_m s pd)) (take (length ds) pds) =
       map2 (\<lambda>d pd. rx_mbuf d (pd_ctx pd) (pd_mbufs s1 (pd_m s pd))) ds (take (length ds) pds)"
    unfolding m by auto
  have ne: "pd_m s pd \<notin> pd_m s ` set (take (length ds) pds)" using 1(3) by simp
  have eq: "map2 (\<lambda>d pd. rx_mbuf d (pd_ctx pd) (pd_mbufs s1 (pd_m s pd))) ds (take (length ds) pds) =
      map2 (\<lambda>d pd. rx_mbuf d (pd_ctx pd) (pd_mbufs s (pd_m s pd))) ds (take (length ds) pds)"
    using ne s1(3) by (auto dest!: set_zip_rightD) (metis imageI)
  have "pd_mbufs s2 (pd_m s pd) = rx_mbuf d (pd_ctx pd) (pd_mbufs s (pd_m s pd))"
    using s2(4) ne s1(3) by simp
  moreover have "\<forall>a. a \<notin> pd_m s ` set (take (length (d # ds)) (pd # pds)) \<longrightarrow> pd_mbufs s2 a = pd_mbufs s a"
    using s2(4) s1(3) by simp
  ultimately show ?case using s1(1,2,4) s2(1-3) s2(5) [unfolded eq] by (intro exI [of _ s2]) simp
qed auto

text \<open>The entries a shift of the array by \<open>i\<close> leaves at its start.\<close>

lemma take_shifted:
  "i \<le> n \<Longrightarrow> n \<le> length xs \<Longrightarrow>
   take (n - i) (take (n - i) (drop i xs) @ drop (n - i) xs) = drop i (take n xs)"
  by (simp add: drop_take)

text \<open>
  What is logged when the descriptors \<open>used @ rest\<close> are delivered after buffers were
  attached to the first of them.
\<close>

lemma deliver_received:
  assumes inp_log: "\<And>s a. log (pd_zone (inp s a)) = log (pd_zone s) @ [(a, pd_mbufs s a)]"
    and inp_frame: "\<And>s a c. \<not> has (ctx_flags (pd_ctxs s c)) UINET_PD_CTX_MBUF_USED \<Longrightarrow>
       pd_ctxs (inp s a) c = pd_ctxs s c \<and>
       pd_mbufs (inp s a) (ctx_m (pd_ctxs s c)) = pd_mbufs s (ctx_m (pd_ctxs s c))"
    and idle: "idle_pds s (used @ rest)" and rest: "list_all (\<lambda>pd. \<not> to_stack pd) rest"
    and len: "length ds = length used"
    and ctxs: "\<forall>c. ctx_m (pd_ctxs s' c) = ctx_m (pd_ctxs s c) \<and> ctx_flags (pd_ctxs s' c) = ctx_flags (pd_ctxs s c)"
    and zone: "pd_zone s' = pd_zone s"
    and att: "map (\<lambda>pd. pd_mbufs s' (pd_m s pd)) used = map2 (\<lambda>d pd. rx_mbuf d (pd_ctx pd) (pd_mbufs s (pd_m s pd))) ds used"
  shows "\<exists>s''. deliver_loop inp ifp (map2 rx_desc ds used @ rest) s' = Inr s'' \<and>
     log (pd_zone s'') = log (pd_zone s) @ map2 (\<lambda>d pd. (pd_m s pd,
        stack_mbuf ifp (rx_desc d pd) (rx_mbuf d (pd_ctx pd) (pd_mbufs s (pd_m s pd))))) ds used"
proof -
  let ?pds = "map2 rx_desc ds used @ rest"
  have m: "pd_m s' = pd_m s" using ctxs by (auto simp: pd_m_def)
  have sec: "map (\<lambda>(d, pd). f pd) (zip ds used) = map f used" for f :: "uinet_pd \<Rightarrow> 'x"
    using len by (intro nth_equalityI) auto
  have "map pd_ctx ?pds = map pd_ctx (used @ rest)" "map (pd_m s') ?pds = map (pd_m s) (used @ rest)"
    by (simp_all add: case_prod_beta comp_def m sec [unfolded case_prod_beta])
  moreover have "list_all (idle_pd s') ?pds"
    using idle ctxs by (auto simp: idle_pds_def idle_pd_def list_all_iff dest!: set_zip_rightD)
  ultimately have idle': "idle_pds s' ?pds" using idle unfolding idle_pds_def by metis
  have f: "filter to_stack ?pds = map2 rx_desc ds used"
    using rest by (auto simp: filter_empty_conv list_all_iff filter_id_conv)
  have log: "map (\<lambda>pd. (pd_m s' pd, stack_mbuf ifp pd (pd_mbufs s' (pd_m s' pd)))) (map2 rx_desc ds used) =
      map2 (\<lambda>d pd. (pd_m s pd, stack_mbuf ifp (rx_desc d pd) (rx_mbuf d (pd_ctx pd) (pd_mbufs s (pd_m s pd))))) ds used"
  proof (rule nth_equalityI)
    fix j
    assume j: "j < length (map (\<lambda>pd. (pd_m s' pd, stack_mbuf ifp pd (pd_mbufs s' (pd_m s' pd)))) (map2 rx_desc ds used))"
    then have "pd_mbufs s' (pd_m s (used ! j)) =
        rx_mbuf (ds ! j) (pd_ctx (used ! j)) (pd_mbufs s (pd_m s (used ! j)))"
      using arg_cong [OF att, of "\<lambda>xs. xs ! j"] by simp
    then show "map (\<lambda>pd. (pd_m s' pd, stack_mbuf ifp pd (pd_mbufs s' (pd_m s' pd)))) (map2 rx_desc ds used) ! j =
        map2 (\<lambda>d pd. (pd_m s pd, stack_mbuf ifp (rx_desc d pd) (rx_mbuf d (pd_ctx pd) (pd_mbufs s (pd_m s pd))))) ds used ! j"
      using j by (simp add: m)
  qed simp
  show ?thesis
    using deliver_loop_log [of log inp, OF inp_log inp_frame idle', of ifp] unfolding f log zone .
qed

text \<open>The three loops of the routine, on a list of \<open>n\<close> idle descriptors.\<close>

lemma receive_delivers:
  assumes n: "n \<le> length xs"
    and idle: "idle_pds s (take n xs)" "list_all (\<lambda>pd. \<not> to_stack pd) (take n xs)"
    and inp_log: "\<And>s a. log (pd_zone (inp s a)) = log (pd_zone s) @ [(a, pd_mbufs s a)]"
    and inp_frame: "\<And>s a c. \<not> has (ctx_flags (pd_ctxs s c)) UINET_PD_CTX_MBUF_USED \<Longrightarrow>
       pd_ctxs (inp s a) c = pd_ctxs s c \<and>
       pd_mbufs (inp s a) (ctx_m (pd_ctxs s c)) = pd_mbufs s (ctx_m (pd_ctxs s c))"
    and i: "i = min n (length ds)"
    and new: "new = map2 rx_desc (take i ds) (take i xs) @ drop i xs"
  shows "\<exists>s1 uif' s2 s3. rx_loop hw ts (take i ds) xs s = Inr (new, s1) \<and>
     (if uif_timestamp_mode uif \<noteq> TS_NONE
      then uinet_if_pd_timestamp clock uif (take n new) s1 else Inr (uif, s1)) = Inr (uif', s2) \<and>
     deliver_loop inp ifp (take n new) s2 = Inr s3 \<and>
     log (pd_zone s3) = log (pd_zone s) @ map2 (\<lambda>d pd. (pd_m s pd, stack_mbuf ifp (rx_desc d pd)
              (rx_mbuf d (pd_ctx pd) (pd_mbufs s (pd_m s pd))))) (take i ds) (take i xs)"
proof -
    let ?all = "take n xs" and ?ds = "take i ds"
  let ?new = "map2 rx_desc ?ds (take i xs) @ drop i xs"
  have len: "length ?ds = i" "i \<le> n" "i \<le> length (take i xs)" using i n by auto
  have "take i xs = take i ?all" using len by (simp add: min_def)
  then have split_all: "take i xs @ drop i ?all = ?all" by (metis append_take_drop_id)
  have "idle_pds s (take i xs)"
    using idle(1) unfolding idle_pds_def by (subst (asm) (1 2 3) split_all [symmetric]) auto
  then obtain s1 where s1: "rx_loop hw ts ?ds xs s = Inr (?new, s1)" "pd_zone s1 = pd_zone s"
      "\<forall>c. ctx_m (pd_ctxs s1 c) = ctx_m (pd_ctxs s c) \<and> ctx_flags (pd_ctxs s1 c) = ctx_flags (pd_ctxs s c)"
      "map (\<lambda>pd. pd_mbufs s1 (pd_m s pd)) (take i xs) =
         map2 (\<lambda>d pd. rx_mbuf d (pd_ctx pd) (pd_mbufs s (pd_m s pd))) ?ds (take i xs)"
    using rx_loop_eq [of ?ds xs s hw ts] len n unfolding len(1) by auto
  have tnew: "take n ?new = map2 rx_desc ?ds (take i xs) @ drop i ?all"
    using len n by (simp add: drop_take min_def)
  have "list_all (\<lambda>pd. pd_ctx pd \<noteq> None) ?all"
    using idle(1) by (auto simp: idle_pds_def idle_pd_def list_all_iff)
  then have "list_all (\<lambda>pd. pd_ctx pd \<noteq> None) (take n ?new)"
    unfolding tnew by (subst (asm) split_all [symmetric]) (auto simp: list_all_iff dest!: set_zip_rightD)
  then obtain uif' s2 where s2: "(if uif_timestamp_mode uif \<noteq> TS_NONE
      then uinet_if_pd_timestamp clock uif (take n ?new) s1 else Inr (uif, s1)) = Inr (uif', s2)"
      "same_but_stamps s1 s2"
    using timestamp_if_same by blast
  have rest: "list_all (\<lambda>pd. \<not> to_stack pd) (drop i ?all)"
    using idle(2) by (auto simp: list_all_iff dest: in_set_dropD)
  have idle': "idle_pds s (take i xs @ drop i ?all)" unfolding split_all by (rule idle)
  have s2': "\<forall>c. ctx_m (pd_ctxs s2 c) = ctx_m (pd_ctxs s c) \<and> ctx_flags (pd_ctxs s2 c) = ctx_flags (pd_ctxs s c)"
    "pd_zone s2 = pd_zone s" "pd_mbufs s2 = pd_mbufs s1"
    using s1 s2(2) by (auto simp: same_but_stamps_def)
  have len': "length ?ds = length (take i xs)" using len by simp
  obtain s3 where s3: "deliver_loop inp ifp (take n ?new) s2 = Inr s3"
    "log (pd_zone s3) = log (pd_zone s) @ map2 (\<lambda>d pd. (pd_m s pd, stack_mbuf ifp (rx_desc d pd)
              (rx_mbuf d (pd_ctx pd) (pd_mbufs s (pd_m s pd))))) ?ds (take i xs)"
    using deliver_received [of log inp, OF inp_log inp_frame idle' rest len' s2'(1,2)
        s1(4) [folded s2'(3)], of ifp] unfolding tnew by blast
  show ?thesis unfolding new using s1(1) s2(1) s3 by blast
qed

section \<open>Properties\<close>

text \<open>
  C10. Receiving a batch. With \<open>n\<close> descriptors on the list, all idle, and received
  buffers \<open>ds\<close>, the first \<open>i = min n (length ds)\<close> descriptors are handed to the stack in the
  order of the buffers, each with its buffer attached, its length and its interface; they
  leave the list, the others stay on it; every received packet is counted; and the buffers
  beyond the \<open>n\<close>-th are neither delivered nor given back to DPDK. The stack's input routine
  is any function that logs what it is given and leaves the mbufs it was not given alone.
\<close>

theorem if_dpdk_batch_receive_spec:
  fixes drv :: "('z, 'd) driver" and log :: "'z \<Rightarrow> (mbuf_addr \<times> pd_mbuf) list"
  assumes "\<not> rx_disabled (dr_sc drv)" "rx_packet_waiting (dr_sc drv) = 0"
    and alloc: "uinet_pd_mbuf_alloc_descs (rx_uma env) (rx_pool env) (dr_pd drv) (rx_pds (dr_sc drv))
                  (rx_batch_size (dr_sc drv) - num_descs (rx_pds (dr_sc drv))) = Inr (k, s, lst)"
    and get: "if_dpdk_getpacket (rx_rte env) (dr_dk drv) = ((ds, w), dk)" "ds \<noteq> []"
    and n: "n = unat (num_descs lst)" "n \<le> length (descs lst)"
    and idle: "idle_pds s (take n (descs lst))" "list_all (\<lambda>pd. \<not> to_stack pd) (take n (descs lst))"
    and look: "\<And>l s. rx_first_look env l s = (l, s)"
    and inp_log: "\<And>s a. log (pd_zone (rx_input env s a)) = log (pd_zone s) @ [(a, pd_mbufs s a)]"
    and inp_frame: "\<And>s a c. \<not> has (ctx_flags (pd_ctxs s c)) UINET_PD_CTX_MBUF_USED \<Longrightarrow>
       pd_ctxs (rx_input env s a) c = pd_ctxs s c \<and>
       pd_mbufs (rx_input env s a) (ctx_m (pd_ctxs s c)) = pd_mbufs s (ctx_m (pd_ctxs s c))"
    and i: "i = min n (length ds)"
  shows "\<exists>uif' drv'. if_dpdk_batch_receive env uif drv =
       Inr (Some (i = n), Some (if i = n then -1 else rx_fd (dr_sc drv)), w, uif', drv') \<and>
     log (pd_zone (dr_pd drv')) = log (pd_zone s) @
       map2 (\<lambda>d pd. (pd_m s pd, stack_mbuf (rx_ifp env) (rx_desc d pd)
              (rx_mbuf d (pd_ctx pd) (pd_mbufs s (pd_m s pd))))) (take i ds) (take i (descs lst)) \<and>
     unat (num_descs (rx_pds (dr_sc drv'))) = n - i \<and>
     take (n - i) (descs (rx_pds (dr_sc drv'))) = drop i (take n (descs lst)) \<and>
     if_ipackets (dr_if drv') = if_ipackets (dr_if drv) + of_nat (length ds) \<and> dr_dk drv' = dk"
proof -
  define new where "new = map2 rx_desc (take i ds) (take i (descs lst)) @ drop i (descs lst)"
  have in_: "i \<le> n" "length new = length (descs lst)" "drop i (take n new) = drop i (take n (descs lst))"
    using i n by (auto simp: new_def drop_take)
  have w: "unat (of_nat i :: u32) = i"
    using u32_bound [of "num_descs lst"] in_ n by (simp add: unat_of_nat take_bit_nat_eq_self)
  have wm: "unat (num_descs lst - of_nat i) = n - i"
    using w in_ n by (simp add: u32_minus)
  have w0: "of_nat i = (0 :: u32) \<longleftrightarrow> i = 0" using w by (auto simp: u32_eq_iff)
  obtain s1 uif' s2 s3 where
    s: "rx_loop (uif_timestamp_mode uif = TS_HW) (rx_junk_timestamp env) (take i ds) (descs lst) s = Inr (new, s1)"
      "(if uif_timestamp_mode uif \<noteq> TS_NONE
        then uinet_if_pd_timestamp (rx_clock env) uif (take n new) s1 else Inr (uif, s1)) = Inr (uif', s2)"
      "deliver_loop (rx_input env) (rx_ifp env) (take n new) s2 = Inr s3"
    and log: "log (pd_zone s3) = log (pd_zone s) @ map2 (\<lambda>d pd. (pd_m s pd, stack_mbuf (rx_ifp env) (rx_desc d pd)
              (rx_mbuf d (pd_ctx pd) (pd_mbufs s (pd_m s pd))))) (take i ds) (take i (descs lst))"
    using receive_delivers [of n "descs lst" s log "rx_input env", OF n(2) idle inp_log inp_frame i new_def] by blast
  have unf: "if_dpdk_batch_receive env uif drv = (
      let drv0 = drv\<lparr>dr_sc := (dr_sc drv)\<lparr>rx_packet_waiting := 0, rx_pds := lst\<rparr>, dr_pd := s, dr_dk := dk,
             dr_if := (dr_if drv)\<lparr>if_ipackets := if_ipackets (dr_if drv) + of_nat (length ds)\<rparr>\<rparr>
      in res_bind (if i \<noteq> 0 then Inr (uif', s3, lst\<lparr>num_descs := num_descs lst - of_nat i,
               descs := take (n - i) (drop i new) @ drop (n - i) new\<rparr>) else Inr (uif, s1, lst\<lparr>descs := new\<rparr>))
           (\<lambda>(uif, pd, lst). Inr (Some (i = n), Some (if i = n then -1 else rx_fd (dr_sc drv)), w, uif,
              drv0\<lparr>dr_pd := pd, dr_sc := (dr_sc drv0)\<lparr>rx_pds := lst\<rparr>\<rparr>)))"
    using assms(1,2) get(2) n(2) in_ s
    by (simp add: if_dpdk_batch_receive_def alloc get Let_def look w w0 wm uinet_pd_deliver_to_stack_def
        flip: n(1) i cong: if_cong)
  show ?thesis
  proof (cases "i = 0")
    case True
    then have "n = 0" "s1 = s" using i get(2) s(1) by (auto simp: min_def split: if_splits)
    then show ?thesis unfolding unf log [symmetric] using True log n(1) by simp
  next
    case False
    have "take (n - i) (take (n - i) (drop i new) @ drop (n - i) new) = drop i (take n (descs lst))"
      using take_shifted [of i n new] in_ n(2) by simp
    then show ?thesis unfolding unf log [symmetric] using False wm by simp
  qed
qed

section \<open>Instances\<close>

text \<open>
  One descriptor on the list, an allocator with no more, and a network card with two
  packets. The stack's state is its log.
\<close>

definition rx_demo_env :: "((mbuf_addr \<times> pd_mbuf) list, nat) rx_env" where
  "rx_demo_env = \<lparr>rx_uma = \<lparr>uo_ctx_get = Pair None, uo_ctx_unget = (\<lambda>_ z. z), uo_pack_get = Pair None,
       uo_zfree = (\<lambda>_ _ z. z), uo_dh_free_desc = (\<lambda>_ z. z), uo_pktdat = (\<lambda>_. 0)\<rparr>,
     rx_pool = 0, rx_rte = one_port_ops\<lparr>rte_eth_rx_burst := (\<lambda>_ d. ([0x1000, 0x2000], Suc d))\<rparr>,
     rx_clock = (\<lambda>_. 0), rx_junk_timestamp = 0, rx_first_look = Pair,
     rx_input = (\<lambda>s a. s\<lparr>pd_zone := pd_zone s @ [(a, pd_mbufs s a)]\<rparr>), rx_ifp = 1\<rparr>"

definition rx_demo_state :: "(mbuf_addr \<times> pd_mbuf) list pd_state" where
  "rx_demo_state = \<lparr>pd_ctxs = pd_ctxs demo_state, pd_cnts = (\<lambda>_. 1), pd_mbufs = pd_mbufs demo_state,
     pd_pool_table = pd_pool_table demo_state, pd_zone = [], pd_freed = []\<rparr>"

definition rx_demo_driver :: "((mbuf_addr \<times> pd_mbuf) list, nat) driver" where
  "rx_demo_driver = \<lparr>dr_sc = zero_softc\<lparr>rx_batch_size := 2, rx_pds := \<lparr>num_descs = 1, descs = [demo_pd 1 4, demo_pd 1 5]\<rparr>\<rparr>,
     dr_pd = rx_demo_state, dr_dk = cold_state, dr_if = dr_if demo_driver\<rparr>"

theorem if_dpdk_batch_receive_spec_witness:
  "\<exists>uif' drv'. if_dpdk_batch_receive rx_demo_env
         \<lparr>uif_timestamp_mode = TS_COUNTER, uif_timestamp_counter = 7, global_timestamp_counter = 0\<rparr> rx_demo_driver =
       Inr (Some True, Some (-1), 0, uif', drv') \<and>
     map fst (pd_zone (dr_pd drv')) = [4] \<and> unat (num_descs (rx_pds (dr_sc drv'))) = 0 \<and>
     if_ipackets (dr_if drv') = 2"
proof -
  let ?dk = "cold_state\<lparr>dk_dev := 1\<rparr>"
  have z: "zalloc_pd_ctx (rx_uma rx_demo_env) 0 rx_demo_state = (None, rx_demo_state)"
    by (simp add: zalloc_pd_ctx_def rx_demo_env_def)
  have a: "uinet_pd_mbuf_alloc_descs (rx_uma rx_demo_env) (rx_pool rx_demo_env) (dr_pd rx_demo_driver)
      (rx_pds (dr_sc rx_demo_driver)) (rx_batch_size (dr_sc rx_demo_driver) - num_descs (rx_pds (dr_sc rx_demo_driver))) =
      Inr (0, rx_demo_state, rx_pds (dr_sc rx_demo_driver))"
    using z by (simp add: uinet_pd_mbuf_alloc_descs_def rx_demo_driver_def zero_softc_def rx_demo_env_def)
  have g: "if_dpdk_getpacket (rx_rte rx_demo_env) (dr_dk rx_demo_driver) =
      ((map (mbuf_desc ?dk) [0x1000, 0x2000], 0), ?dk)"
    by (simp add: if_dpdk_getpacket_def dh_recv_pkts_def rx_demo_env_def rx_demo_driver_def cold_state_def
        Let_def)
  show ?thesis
    using if_dpdk_batch_receive_spec [of rx_demo_driver rx_demo_env 0 rx_demo_state "rx_pds (dr_sc rx_demo_driver)"
        "map (mbuf_desc ?dk) [0x1000, 0x2000]" 0 ?dk 1 "\<lambda>z. z" 1
        "\<lparr>uif_timestamp_mode = TS_COUNTER, uif_timestamp_counter = 7, global_timestamp_counter = 0\<rparr>", OF _ _ a g]
    by (auto simp: rx_demo_driver_def zero_softc_def rx_demo_env_def idle_pd_def has_def demo_state_def
        rx_demo_state_def UINET_PD_CTX_MBUF_USED_def UINET_PD_TO_STACK_def pd_m_def demo_driver_def)
qed

end
