(* ===== verification/Rx_Thread.thy ===== *)
theory Rx_Thread
  imports If_Dpdk_Rx
begin

text \<open>
  The handshake between \<^verbatim>\<open>if_dpdk_ioctl\<close>, which starts and stops an interface, and the
  receive thread \<^verbatim>\<open>if_dpdk_receive\<close> of \<^verbatim>\<open>src/lib/libuinet/uinet_if_dpdk.c\<close>: a run state under the
  lock \<^verbatim>\<open>rx_lock\<close> and a condition variable. The callers of the ioctl and the thread are
  interleaved at the points where they take the lock or wait.
\<close>

section \<open>The driver flags\<close>

definition IFF_DRV_RUNNING :: u32 where "IFF_DRV_RUNNING = 0x40"
definition IFF_DRV_OACTIVE :: u32 where "IFF_DRV_OACTIVE = 0x400"

definition if_dpdk_init :: "u32 \<Rightarrow> u32" where
  "if_dpdk_init flags = (flags OR IFF_DRV_RUNNING) AND NOT IFF_DRV_OACTIVE"

definition if_dpdk_sts_init :: "u32 \<Rightarrow> u32" where
  "if_dpdk_sts_init flags = (flags OR IFF_DRV_RUNNING) OR IFF_DRV_OACTIVE"

definition if_dpdk_stop :: "u32 \<Rightarrow> u32" where
  "if_dpdk_stop flags = flags AND NOT (IFF_DRV_RUNNING OR IFF_DRV_OACTIVE)"

section \<open>The two sides\<close>

text \<open>
  Where a caller of \<^verbatim>\<open>if_dpdk_ioctl(SIOCSIFFLAGS)\<close> is: not in it, about to lock on the way
  up or down, in \<^verbatim>\<open>cv_wait\<close>, or past the lock and about to stop the interface.
\<close>

datatype ctl_pc = Ctl_idle | Ctl_up | Ctl_down | Ctl_wait | Ctl_stop

text \<open>The thread: at the top of its loop, in \<^verbatim>\<open>cv_timedwait\<close>, receiving a batch, or gone.\<close>

datatype rcv_pc = Rcv_top | Rcv_wait | Rcv_batch | Rcv_done

record rx_conf =
  rx_thread_run_state :: nat
  rx_drv_flags :: u32
  rx_ctls :: "ctl_pc list"
  rx_rcv :: rcv_pc

text \<open>The ioctl before it takes the lock; \<open>up\<close> is the flag \<^verbatim>\<open>IFF_UP\<close>.\<close>

definition ioctl_enter :: "bool \<Rightarrow> bool \<Rightarrow> bool \<Rightarrow> u32 \<Rightarrow> u32 \<times> ctl_pc" where
  "ioctl_enter sts dis up flags =
     (if up then
        if sts then (if_dpdk_sts_init flags, Ctl_idle)
        else (if_dpdk_init flags, if \<not> dis then Ctl_up else Ctl_idle)
      else if flags AND IFF_DRV_RUNNING \<noteq> 0 then (flags, if \<not> dis \<and> \<not> sts then Ctl_down else Ctl_stop)
      else (flags, Ctl_idle))"

text \<open>Its critical sections: on the way up, on the way down, and after \<^verbatim>\<open>cv_wait\<close> returns.\<close>

definition ioctl_up :: "nat \<Rightarrow> nat \<times> ctl_pc" where
  "ioctl_up rs = (if rs = 0 then 1 else rs, Ctl_idle)"

definition ioctl_down :: "nat \<Rightarrow> nat \<times> ctl_pc" where
  "ioctl_down rs = (if rs = 1 then (2, Ctl_wait) else (rs, Ctl_stop))"

definition ioctl_woken :: "nat \<Rightarrow> nat \<times> ctl_pc" where
  "ioctl_woken rs = (if rs = 3 then (0, Ctl_stop) else (rs, Ctl_wait))"

text \<open>
  The thread's critical section from the top of the loop, and after a wait. The variable
  \<^verbatim>\<open>wait_for_start\<close> is set before the loop and never cleared, so every turn waits for
  state 1.
\<close>

definition rcv_enter :: "nat \<Rightarrow> nat \<times> rcv_pc" where
  "rcv_enter rs =
     (let rs = (if rs = 2 then 3 else rs) in (rs, if rs \<noteq> 1 then Rcv_wait else Rcv_batch))"

definition rcv_woken :: "nat \<Rightarrow> rcv_pc" where
  "rcv_woken rs = (if rs \<noteq> 1 then Rcv_wait else Rcv_batch)"

definition set_ctl :: "nat \<Rightarrow> nat \<times> ctl_pc \<Rightarrow> rx_conf \<Rightarrow> rx_conf" where
  "set_ctl i r s = s\<lparr>rx_thread_run_state := fst r, rx_ctls := (rx_ctls s)[i := snd r]\<rparr>"

text \<open>
  One step. A thread that is told to stop (\<^verbatim>\<open>kthread_stop_check\<close>) leaves from the top of the
  loop or, after a timeout, from the wait.
\<close>

inductive rx_step :: "bool \<Rightarrow> bool \<Rightarrow> rx_conf \<Rightarrow> rx_conf \<Rightarrow> bool" for sts dis where
  ioctl: "i < length (rx_ctls s) \<Longrightarrow> rx_ctls s ! i = Ctl_idle \<Longrightarrow>
     ioctl_enter sts dis up (rx_drv_flags s) = (flags, pc) \<Longrightarrow>
     rx_step sts dis s (s\<lparr>rx_drv_flags := flags, rx_ctls := (rx_ctls s)[i := pc]\<rparr>)"
| up: "i < length (rx_ctls s) \<Longrightarrow> rx_ctls s ! i = Ctl_up \<Longrightarrow>
     rx_step sts dis s (set_ctl i (ioctl_up (rx_thread_run_state s)) s)"
| down: "i < length (rx_ctls s) \<Longrightarrow> rx_ctls s ! i = Ctl_down \<Longrightarrow>
     rx_step sts dis s (set_ctl i (ioctl_down (rx_thread_run_state s)) s)"
| woken: "i < length (rx_ctls s) \<Longrightarrow> rx_ctls s ! i = Ctl_wait \<Longrightarrow>
     rx_step sts dis s (set_ctl i (ioctl_woken (rx_thread_run_state s)) s)"
| stop: "i < length (rx_ctls s) \<Longrightarrow> rx_ctls s ! i = Ctl_stop \<Longrightarrow>
     rx_step sts dis s (s\<lparr>rx_drv_flags := if_dpdk_stop (rx_drv_flags s), rx_ctls := (rx_ctls s)[i := Ctl_idle]\<rparr>)"
| rcv_top: "rx_rcv s = Rcv_top \<Longrightarrow> rcv_enter (rx_thread_run_state s) = (rs, pc) \<Longrightarrow>
     rx_step sts dis s (s\<lparr>rx_thread_run_state := rs, rx_rcv := pc\<rparr>)"
| rcv_wait: "rx_rcv s = Rcv_wait \<Longrightarrow>
     rx_step sts dis s (s\<lparr>rx_rcv := rcv_woken (rx_thread_run_state s)\<rparr>)"
| rcv_batch: "rx_rcv s = Rcv_batch \<Longrightarrow> rx_step sts dis s (s\<lparr>rx_rcv := Rcv_top\<rparr>)"
| rcv_stop: "rx_rcv s = Rcv_top \<or> rx_rcv s = Rcv_wait \<and> rx_thread_run_state s \<noteq> 1 \<Longrightarrow>
     rx_step sts dis s (s\<lparr>rx_rcv := Rcv_done\<rparr>)"

text \<open>An attached interface with \<open>n\<close> callers.\<close>

definition rx_start :: "u32 \<Rightarrow> nat \<Rightarrow> rx_conf" where
  "rx_start flags n = \<lparr>rx_thread_run_state = 0, rx_drv_flags = flags, rx_ctls = replicate n Ctl_idle,
     rx_rcv = Rcv_top\<rparr>"

section \<open>The invariant\<close>

abbreviation waiters :: "rx_conf \<Rightarrow> nat" where
  "waiters s \<equiv> length (filter (\<lambda>p. p = Ctl_wait) (rx_ctls s))"

text \<open>
  The states follow the cycle 0, 1, 2, 3; a caller waits exactly in the states 2 and 3, and
  only one; the thread receives only in the states 1 and 2, and has answered in state 3.
\<close>

definition rx_inv :: "rx_conf \<Rightarrow> bool" where
  "rx_inv s \<longleftrightarrow> rx_thread_run_state s \<le> 3 \<and>
     waiters s = (if rx_thread_run_state s \<in> {2, 3} then 1 else 0) \<and>
     (rx_rcv s = Rcv_batch \<longrightarrow> rx_thread_run_state s \<in> {1, 2}) \<and>
     (rx_thread_run_state s = 3 \<longrightarrow> rx_rcv s \<in> {Rcv_wait, Rcv_done})"

lemma rx_inv_start: "rx_inv (rx_start flags n)"
  by (simp add: rx_inv_def rx_start_def)

lemma rx_inv_step:
  assumes "rx_step sts dis s s'" "rx_inv s"
  shows "rx_inv s'"
  using assms
proof cases
  case (ioctl i up flags pc)
  then show ?thesis using length_filter_update [of i "rx_ctls s" "\<lambda>p. p = Ctl_wait" pc] assms(2)
    by (auto simp: rx_inv_def ioctl_enter_def split: if_splits)
next
  case (up i)
  then show ?thesis using length_filter_update [of i "rx_ctls s" "\<lambda>p. p = Ctl_wait" Ctl_idle] assms(2)
    by (auto simp: rx_inv_def ioctl_up_def set_ctl_def)
next
  case (down i)
  then show ?thesis using length_filter_update [of i "rx_ctls s" "\<lambda>p. p = Ctl_wait" Ctl_wait]
      length_filter_update [of i "rx_ctls s" "\<lambda>p. p = Ctl_wait" Ctl_stop] assms(2)
    by (auto simp: rx_inv_def ioctl_down_def set_ctl_def)
next
  case (woken i)
  then show ?thesis using length_filter_update [of i "rx_ctls s" "\<lambda>p. p = Ctl_wait" Ctl_wait]
      length_filter_update [of i "rx_ctls s" "\<lambda>p. p = Ctl_wait" Ctl_stop] assms(2)
    by (auto simp: rx_inv_def ioctl_woken_def set_ctl_def)
next
  case (stop i)
  then show ?thesis using length_filter_update [of i "rx_ctls s" "\<lambda>p. p = Ctl_wait" Ctl_idle] assms(2)
    by (auto simp: rx_inv_def)
qed (use assms(2) in \<open>auto simp: rx_inv_def rcv_enter_def rcv_woken_def Let_def split: if_splits\<close>)

lemma rx_inv_reachable: "(rx_step sts dis)\<^sup>*\<^sup>* (rx_start flags n) s \<Longrightarrow> rx_inv s"
  by (induction rule: rtranclp_induct) (auto intro: rx_inv_start rx_inv_step)

text \<open>The thread missed the start: it waits for state 1 while a caller waits for state 3.\<close>

definition rx_stuck :: "nat \<Rightarrow> rx_conf \<Rightarrow> bool" where
  "rx_stuck i s \<longleftrightarrow> rx_thread_run_state s = 2 \<and> rx_rcv s \<in> {Rcv_wait, Rcv_done} \<and>
     i < length (rx_ctls s) \<and> rx_ctls s ! i = Ctl_wait"

lemma rx_stuck_step: "rx_step sts dis s s' \<Longrightarrow> rx_stuck i s \<Longrightarrow> rx_stuck i s'"
  by (induction rule: rx_step.induct)
     (auto simp: rx_stuck_def set_ctl_def ioctl_up_def ioctl_down_def ioctl_woken_def rcv_woken_def
        rcv_enter_def nth_list_update)

lemma rx_stuck_forever: "(rx_step sts dis)\<^sup>*\<^sup>* s s' \<Longrightarrow> rx_stuck i s \<Longrightarrow> rx_stuck i s'"
  by (induction rule: rtranclp_induct) (auto intro: rx_stuck_step)

text \<open>A start that the thread does not see before it is withdrawn.\<close>

definition missed_start :: rx_conf where
  "missed_start = \<lparr>rx_thread_run_state = 2, rx_drv_flags = 0x40, rx_ctls = [Ctl_wait], rx_rcv = Rcv_wait\<rparr>"

lemma missed_start_reachable: "(rx_step False False)\<^sup>*\<^sup>* (rx_start 0 1) missed_start"
proof -
  let ?c = "\<lambda>rs fl pc r. \<lparr>rx_thread_run_state = rs, rx_drv_flags = fl, rx_ctls = [pc], rx_rcv = r\<rparr>"
  let ?st = "rx_step False False"
  have "?st (rx_start 0 1) (?c 0 0 Ctl_idle Rcv_wait)"
    using rx_step.rcv_top [of "rx_start 0 1"] by (simp add: rx_start_def rcv_enter_def)
  moreover have "?st (?c 0 0 Ctl_idle Rcv_wait) (?c 0 0x40 Ctl_up Rcv_wait)"
    using rx_step.ioctl [of 0 "?c 0 0 Ctl_idle Rcv_wait" False False True]
    by (simp add: ioctl_enter_def if_dpdk_init_def IFF_DRV_RUNNING_def IFF_DRV_OACTIVE_def)
  moreover have "?st (?c 0 0x40 Ctl_up Rcv_wait) (?c 1 0x40 Ctl_idle Rcv_wait)"
    using rx_step.up [of 0 "?c 0 0x40 Ctl_up Rcv_wait"] by (simp add: ioctl_up_def set_ctl_def)
  moreover have "?st (?c 1 0x40 Ctl_idle Rcv_wait) (?c 1 0x40 Ctl_down Rcv_wait)"
    using rx_step.ioctl [of 0 "?c 1 0x40 Ctl_idle Rcv_wait" False False False]
    by (simp add: ioctl_enter_def IFF_DRV_RUNNING_def)
  moreover have "?st (?c 1 0x40 Ctl_down Rcv_wait) (?c 2 0x40 Ctl_wait Rcv_wait)"
    using rx_step.down [of 0 "?c 1 0x40 Ctl_down Rcv_wait"] by (simp add: ioctl_down_def set_ctl_def)
  ultimately show ?thesis
    unfolding missed_start_def by (meson rtranclp.rtrancl_refl rtranclp.rtrancl_into_rtrancl)
qed

section \<open>Properties\<close>


text \<open>
  What becomes of a caller that waits for the thread to stop. Either the thread has
  answered and the caller's next step resets the state and returns; or the thread is in its
  loop, not waiting, and answers in its next step or the one after; or it is in the wait for
  a start that has already been withdrawn, or gone, and the caller waits in every later
  state.
\<close>

theorem ioctl_down_outcome:
  assumes "(rx_step sts dis)\<^sup>*\<^sup>* (rx_start flags n) s" "i < length (rx_ctls s)" "rx_ctls s ! i = Ctl_wait"
  shows "rx_thread_run_state s = 3 \<and> ioctl_woken (rx_thread_run_state s) = (0, Ctl_stop) \<or>
    rx_rcv s = Rcv_top \<and> fst (rcv_enter (rx_thread_run_state s)) = 3 \<or>
    rx_rcv s = Rcv_batch \<and> rx_step sts dis s (s\<lparr>rx_rcv := Rcv_top\<rparr>) \<or>
    (\<forall>s'. (rx_step sts dis)\<^sup>*\<^sup>* s s' \<longrightarrow> rx_ctls s' ! i = Ctl_wait)"
proof -
  have "waiters s \<noteq> 0" using length_filter_pos [OF assms(2), of "\<lambda>p. p = Ctl_wait"] assms(3) by simp
  then have rs: "rx_thread_run_state s \<in> {2, 3}"
    using rx_inv_reachable [OF assms(1)] by (auto simp: rx_inv_def split: if_splits)
  have "rx_ctls s' ! i = Ctl_wait" if "rx_thread_run_state s = 2" "rx_rcv s \<in> {Rcv_wait, Rcv_done}"
    "(rx_step sts dis)\<^sup>*\<^sup>* s s'" for s'
    using rx_stuck_forever [OF that(3), of i] that(1,2) assms(2,3) by (simp add: rx_stuck_def)
  then show ?thesis
    using rs by (cases "rx_rcv s") (auto simp: ioctl_woken_def rcv_enter_def intro: rx_step.rcv_batch)
qed

text \<open>
  C29. The third case happens: one caller that brings a fresh interface up and at once down,
  before the thread wakes from its wait, waits forever.
\<close>

theorem ioctl_down_can_hang:
  "\<exists>s. (rx_step False False)\<^sup>*\<^sup>* (rx_start 0 1) s \<and>
     (\<forall>s'. (rx_step False False)\<^sup>*\<^sup>* s s' \<longrightarrow> rx_ctls s' = [Ctl_wait])"
proof -
  have "rx_ctls s' = [Ctl_wait]" if r: "(rx_step False False)\<^sup>*\<^sup>* missed_start s'" for s'
  proof -
    have "length (rx_ctls s') = 1"
      using r by (induction rule: rtranclp_induct) (auto elim!: rx_step.cases simp: set_ctl_def missed_start_def)
    moreover have "rx_stuck 0 s'"
      using rx_stuck_forever [OF r, of 0] by (simp add: rx_stuck_def missed_start_def)
    ultimately show ?thesis by (cases "rx_ctls s'") (auto simp: rx_stuck_def)
  qed
  then show ?thesis using missed_start_reachable by blast
qed


theorem ioctl_down_outcome_witness:
  "(rx_step False False)\<^sup>*\<^sup>* (rx_start 0 1) missed_start \<and> rx_ctls missed_start ! 0 = Ctl_wait \<and>
   \<not> (\<exists>s'. (rx_step False False)\<^sup>*\<^sup>* missed_start s' \<and> rx_ctls s' ! 0 \<noteq> Ctl_wait)"
  using ioctl_down_outcome [OF missed_start_reachable, of 0] missed_start_reachable
  by (auto simp: missed_start_def)

theorem ioctl_down_can_hang_witness:
  "\<exists>s. (rx_step False False)\<^sup>*\<^sup>* (rx_start 0 1) s \<and> rx_ctls s = [Ctl_wait]"
  using ioctl_down_can_hang by blast

end
