(* ===== verification/Inet_Addr.thy ===== *)
theory Inet_Addr
  imports Prelude
begin

text \<open>
  The conversions between addresses and text that interface configuration uses:
  \<^verbatim>\<open>inet_pton4\<close>, \<^verbatim>\<open>inet_ntop4\<close>, \<^verbatim>\<open>inet_aton\<close> and \<^verbatim>\<open>strtoul\<close> of \<^verbatim>\<open>src/sys/libkern\<close>, and
  \<^verbatim>\<open>uinet_mac_aton\<close> of \<^verbatim>\<open>src/lib/libuinet/uinet_api.c\<close>. A C string is a list of characters
  without the final NUL, a pointer into it is the rest of the list.
\<close>

unbundle bit_operations_syntax

section \<open>Characters\<close>

definition chr0 :: "string \<Rightarrow> char" where
  "chr0 s = (case s of [] \<Rightarrow> CHR 0x00 | c # _ \<Rightarrow> c)"

definition code :: "char \<Rightarrow> nat" where "code c = of_char c"

definition isspace :: "char \<Rightarrow> bool" where
  "isspace c \<longleftrightarrow> code c = 32 \<or> 9 \<le> code c \<and> code c \<le> 13"

definition isdigit :: "char \<Rightarrow> bool" where
  "isdigit c \<longleftrightarrow> 48 \<le> code c \<and> code c \<le> 57"

definition isupper :: "char \<Rightarrow> bool" where
  "isupper c \<longleftrightarrow> 65 \<le> code c \<and> code c \<le> 90"

definition islower :: "char \<Rightarrow> bool" where
  "islower c \<longleftrightarrow> 97 \<le> code c \<and> code c \<le> 122"

text \<open>The decimal format of \<^verbatim>\<open>snprintf\<close>.\<close>

definition digit :: "nat \<Rightarrow> char" where "digit d = char_of (48 + d)"

fun dec :: "nat \<Rightarrow> string" where
  "dec n = (if n < 10 then [digit n] else dec (n div 10) @ [digit (n mod 10)])"

declare dec.simps [simp del]

section \<open>Numbers\<close>

text \<open>
  The digit loop of \<^verbatim>\<open>strtoul\<close>: the accumulator, the flag \<^verbatim>\<open>any\<close> and the rest of the string.
\<close>

definition digit_value :: "char \<Rightarrow> nat option" where
  "digit_value c =
     (if isdigit c then Some (code c - 48)
      else if isupper c then Some (code c - 55)
      else if islower c then Some (code c - 87)
      else None)"

fun strtoul_loop :: "u64 \<Rightarrow> string \<Rightarrow> u64 \<Rightarrow> int \<Rightarrow> u64 \<times> int \<times> string" where
  "strtoul_loop base [] acc any = (acc, any, [])"
| "strtoul_loop base (c # s) acc any =
     (case digit_value c of
        None \<Rightarrow> (acc, any, c # s)
      | Some v \<Rightarrow>
          if unat base \<le> v then (acc, any, c # s)
          else
            let cutoff = (-1) div base; cutlim = (-1) mod base in
            if any < 0 \<or> acc > cutoff \<or> acc = cutoff \<and> of_nat v > cutlim
            then strtoul_loop base s acc (-1)
            else strtoul_loop base s (acc * base + of_nat v) 1)"

text \<open>The result is the number and \<^verbatim>\<open>*endptr\<close>.\<close>

definition strtoul :: "string \<Rightarrow> u64 \<Rightarrow> u64 \<times> string" where
  "strtoul nptr base =
     (let s = dropWhile isspace nptr;
          neg = (chr0 s = CHR ''-'');
          s = (if chr0 s = CHR ''-'' \<or> chr0 s = CHR ''+'' then tl s else s);
          hex = ((base = 0 \<or> base = 16) \<and> chr0 s = CHR ''0'' \<and> (chr0 (tl s) = CHR ''x'' \<or> chr0 (tl s) = CHR ''X''));
          base = (if hex then 16 else base);
          s = (if hex then drop 2 s else s);
          base = (if base = 0 then if chr0 s = CHR ''0'' then 8 else 10 else base);
          (acc, any, s) = strtoul_loop base s 0 0
      in (if any < 0 then -1 else if neg then - acc else acc, if any \<noteq> 0 then s else nptr))"

lemma strtoul_loop_length: "strtoul_loop base s acc any = (v, any', r) \<Longrightarrow> length r \<le> length s"
  by (induction s arbitrary: acc any) (auto simp: Let_def intro: le_SucI split: option.splits if_splits)

lemma strtoul_length: "strtoul s base = (v, r) \<Longrightarrow> length r \<le> length s"
  using length_dropWhile_le [of isspace s]
  by (auto simp: strtoul_def Let_def split: prod.splits if_splits dest!: strtoul_loop_length)

section \<open>Internet addresses\<close>

text \<open>
  \<open>tmp\<close> holds the octets in reverse order: its head is \<^verbatim>\<open>*tp\<close>.
\<close>

fun inet_pton4_loop :: "string \<Rightarrow> bool \<Rightarrow> nat \<Rightarrow> u8 list \<Rightarrow> u8 list option" where
  "inet_pton4_loop [] saw_digit octets tmp = (if octets < 4 then None else Some (rev tmp))"
| "inet_pton4_loop (ch # src) saw_digit octets tmp =
     (if isdigit ch then
        let new = unat (hd tmp) * 10 + (code ch - 48) in
        if saw_digit \<and> hd tmp = 0 then None
        else if new > 255 then None
        else if \<not> saw_digit then
          if octets + 1 > 4 then None else inet_pton4_loop src True (octets + 1) (of_nat new # tl tmp)
        else inet_pton4_loop src True octets (of_nat new # tl tmp)
      else if ch = CHR ''.'' \<and> saw_digit then
        if octets = 4 then None else inet_pton4_loop src False octets (0 # tmp)
      else None)"

definition inet_pton4 :: "string \<Rightarrow> u8 list option" where
  "inet_pton4 src = inet_pton4_loop src False 0 [0]"

text \<open>\<^verbatim>\<open>"%u.%u.%u.%u"\<close>\<close>

fun dotted :: "u8 list \<Rightarrow> string" where
  "dotted [] = []"
| "dotted [b] = dec (unat b)"
| "dotted (b # bs) = dec (unat b) @ ''.'' @ dotted bs"

definition inet_ntop4 :: "u8 list \<Rightarrow> nat \<Rightarrow> string option" where
  "inet_ntop4 src sz = (let tmp = dotted src in if length tmp \<ge> sz then None else Some tmp)"

text \<open>
  \<^verbatim>\<open>inet_aton\<close>: one number after the other, each cut to 32 bits, then the address in host
  order.
\<close>

function inet_aton_loop :: "string \<Rightarrow> nat \<Rightarrow> u64 list \<Rightarrow> (u64 list \<times> u32) option" where
  "inet_aton_loop c n parts =
     (let (l, endptr) = strtoul c 0 in
      if l = -1 \<or> l = 0 \<and> endptr = c then None
      else if endptr = c then None
      else
        let val = ucast l :: u32; parts = parts @ [ucast val] in
        case endptr of
          [] \<Rightarrow> Some (parts, val)
        | ch # rest \<Rightarrow>
            if ch = CHR ''.'' then if n = 3 then None else inet_aton_loop rest (n + 1) parts
            else if isspace ch then Some (parts, val)
            else None)"
  by auto
termination by (relation "measure (\<lambda>(c, _, _). length c)") (auto dest!: sym [THEN strtoul_length])

declare inet_aton_loop.simps [simp del]

definition inet_aton :: "string \<Rightarrow> u32 option" where
  "inet_aton cp =
     (case inet_aton_loop cp 0 [] of None \<Rightarrow> None
      | Some (parts, val) \<Rightarrow>
          (case length parts of
             Suc 0 \<Rightarrow> Some val
           | Suc (Suc 0) \<Rightarrow>
               if val > 0xffffff \<or> parts ! 0 > 0xff then None
               else Some (val OR ucast (push_bit 24 (parts ! 0)))
           | Suc (Suc (Suc 0)) \<Rightarrow>
               if val > 0xffff \<or> parts ! 0 > 0xff \<or> parts ! 1 > 0xff then None
               else Some (val OR ucast (push_bit 24 (parts ! 0) OR push_bit 16 (parts ! 1)))
           | _ \<Rightarrow>
               if val > 0xff \<or> parts ! 0 > 0xff \<or> parts ! 1 > 0xff \<or> parts ! 2 > 0xff then None
               else Some (val OR ucast (push_bit 24 (parts ! 0) OR push_bit 16 (parts ! 1) OR push_bit 8 (parts ! 2)))))"

section \<open>Ethernet addresses\<close>

text \<open>
  \<^verbatim>\<open>uinet_mac_aton\<close>: the return value (0 for success) and the array. The test
  \<^verbatim>\<open>endp != &p[2]\<close> compares how far the conversion went.
\<close>

definition ETHER_ADDR_LEN :: nat where "ETHER_ADDR_LEN = 6"

function mac_loop :: "nat \<Rightarrow> string \<Rightarrow> u8 list \<Rightarrow> int \<times> u8 list" where
  "mac_loop i p macout =
     (if i < ETHER_ADDR_LEN then
        let (v, endp) = strtoul p 16; macout = macout[i := ucast v] in
        if length p - length endp \<noteq> 2 \<or> (i < ETHER_ADDR_LEN - 1 \<and> chr0 endp \<noteq> CHR '':'') \<or>
           (i = ETHER_ADDR_LEN - 1 \<and> chr0 endp \<noteq> CHR 0x00)
        then (1, macout)
        else mac_loop (i + 1) (tl endp) macout
      else (0, macout))"
  by auto
termination by (relation "measure (\<lambda>(i, _, _). ETHER_ADDR_LEN - i)") auto

declare mac_loop.simps [simp del]

definition uinet_mac_aton :: "string option \<Rightarrow> u8 list \<Rightarrow> int \<times> u8 list" where
  "uinet_mac_aton macstr macout =
     (case macstr of None \<Rightarrow> (0, replicate ETHER_ADDR_LEN 0)
      | Some s \<Rightarrow> if s = [] then (0, replicate ETHER_ADDR_LEN 0) else mac_loop 0 s macout)"

text \<open>The usual way to write an Ethernet address.\<close>

definition hex_digit :: "nat \<Rightarrow> char" where
  "hex_digit d = (if d < 10 then digit d else char_of (87 + d))"

fun show_mac :: "u8 list \<Rightarrow> string" where
  "show_mac [] = []"
| "show_mac [b] = [hex_digit (unat b div 16), hex_digit (unat b mod 16)]"
| "show_mac (b # bs) = [hex_digit (unat b div 16), hex_digit (unat b mod 16), CHR '':''] @ show_mac bs"

section \<open>Lemmas on digits\<close>

lemma code_digit [simp]: "d < 10 \<Longrightarrow> code (digit d) = 48 + d"
  by (simp add: code_def digit_def)

lemma isdigit_digit [simp]: "d < 10 \<Longrightarrow> isdigit (digit d)"
  by (simp add: isdigit_def)

lemma digit_code: "isdigit c \<Longrightarrow> digit (code c - 48) = c"
  by (simp add: isdigit_def digit_def code_def)

lemma dec_small [simp]: "n < 10 \<Longrightarrow> dec n = [digit n]"
  by (simp add: dec.simps)

lemma dec_snoc: "0 < n \<Longrightarrow> d < 10 \<Longrightarrow> dec (n * 10 + d) = dec n @ [digit d]"
  by (subst dec.simps) simp

lemma dec_nonempty [simp]: "dec n \<noteq> []"
  by (subst dec.simps) simp

lemma dec_length: "n < 10 ^ k \<Longrightarrow> 0 < k \<Longrightarrow> length (dec n) \<le> k"
proof (induction n arbitrary: k rule: dec.induct)
  case (1 n)
  show ?case
  proof (cases "n < 10")
    case False
    then obtain j where k: "k = Suc j" "0 < j" using 1(2,3) by (cases k; cases "k - 1") auto
    then have "n div 10 < 10 ^ j" using 1(2) by (simp add: less_mult_imp_div_less mult.commute)
    then have "length (dec (n div 10)) \<le> j" using 1(1) False k(2) by simp
    then show ?thesis using False k by (simp add: dec.simps [of n])
  qed (use 1(3) in simp)
qed

text \<open>The first digit is zero only for zero.\<close>

lemma hd_dec: "isdigit (hd (dec n)) \<and> (hd (dec n) = CHR ''0'' \<longleftrightarrow> n = 0)"
proof (induction n rule: dec.induct)
  case (1 n)
  have z: "code CHR ''0'' = 48" "isdigit CHR ''0''" by (simp_all add: code_def isdigit_def)
  have "n = 0" if "n < 10" "digit n = CHR ''0''"
    using code_digit [OF that(1)] that(2) z(1) by (simp del: code_digit)
  then have "digit n = CHR ''0'' \<longleftrightarrow> n = 0" if "n < 10"
    using that digit_code [OF z(2)] z(1) by auto
  then show ?case using 1 by (cases "n < 10") (auto simp: dec.simps [of n])
qed

section \<open>Dotted quads\<close>

text \<open>Reading an octet that was printed.\<close>

lemma pton4_loop_digit:
  assumes "d < 10" "v * 10 + d < 256" "v \<noteq> 0"
  shows "inet_pton4_loop (digit d # s) True k (of_nat v # tmp) = inet_pton4_loop s True k (of_nat (v * 10 + d) # tmp)"
  using assms by (simp add: Let_def u8_of_nat u8_of_nat_0)

lemma pton4_loop_octet:
  "n < 256 \<Longrightarrow> k < 4 \<Longrightarrow>
   inet_pton4_loop (dec n @ s) False k (0 # tmp) = inet_pton4_loop s True (Suc k) (of_nat n # tmp)"
proof (induction n arbitrary: s rule: dec.induct)
  case (1 n)
  show ?case
  proof (cases "n < 10")
    case False
    have "inet_pton4_loop (dec n @ s) False k (0 # tmp) =
        inet_pton4_loop (dec (n div 10) @ digit (n mod 10) # s) False k (0 # tmp)"
      using False by (simp add: dec.simps [of n])
    also have "\<dots> = inet_pton4_loop (digit (n mod 10) # s) True (Suc k) (of_nat (n div 10) # tmp)"
      using 1 False by simp
    also have "\<dots> = inet_pton4_loop s True (Suc k) (of_nat (n div 10 * 10 + n mod 10) # tmp)"
      using 1(2) False by (intro pton4_loop_digit) auto
    finally show ?thesis by simp
  qed (use 1 in \<open>simp add: Let_def\<close>)
qed

lemma not_isdigit_dot [simp]: "\<not> isdigit CHR ''.''"
  by (simp add: isdigit_def code_def)

lemma pton4_loop_dot: "k < 4 \<Longrightarrow>
  inet_pton4_loop (CHR ''.'' # s) True k tmp = inet_pton4_loop s False k (0 # tmp)"
  by (simp add: isdigit_def code_def)

text \<open>
  What a successful conversion has read: the octet in progress, if any, continues the
  printed form of the octets that follow.
\<close>

lemma pton4_loop_sound:
  "inet_pton4_loop s saw k (v # tmp) = Some bs \<Longrightarrow> k \<le> (if saw then 4 else 3) \<Longrightarrow> (\<not> saw \<longrightarrow> v = 0) \<Longrightarrow>
   \<exists>os. bs = rev tmp @ os \<and> os \<noteq> [] \<and> (if saw then dec (unat v) @ s else s) = dotted os \<and>
     length os + k = (if saw then 5 else 4)"
proof (induction s arbitrary: saw k v tmp)
  case Nil
  then show ?case by (intro exI [of _ "[v]"]) (auto split: if_splits)
next
  case (Cons c s)
  show ?case
  proof (cases "isdigit c")
    case d: True
    let ?d = "code c - 48" and ?n = "unat v * 10 + (code c - 48)"
    have d10: "?d < 10" "digit ?d = c" using d digit_code by (auto simp: isdigit_def)
    have n: "?n < 256" "unat (of_nat ?n :: u8) = ?n"
      using Cons.prems(1) d u8_of_nat [of ?n] by (auto simp: Let_def split: if_splits)
    show ?thesis
    proof (cases saw)
      case True
      then have "inet_pton4_loop s True k (of_nat ?n # tmp) = Some bs" "unat v \<noteq> 0"
        using Cons.prems(1) d by (auto simp: Let_def unat_eq_0 split: if_splits)
      then show ?thesis
        using Cons.IH [where saw = True and k = k and v = "of_nat ?n" and tmp = tmp] Cons.prems(2) True n(2)
          dec_snoc [of "unat v" ?d] d10 by auto
    next
      case False
      then have "inet_pton4_loop s True (Suc k) (of_nat ?n # tmp) = Some bs" "?n = ?d"
        using Cons.prems d by (auto simp: Let_def split: if_splits)
      then show ?thesis
        using Cons.IH [where saw = True and k = "Suc k" and v = "of_nat ?n" and tmp = tmp] Cons.prems(2) False
          n(2) d10 by auto
    qed
  next
    case False
    then have c: "c = CHR ''.''" "saw" "k \<noteq> 4" "inet_pton4_loop s False k (0 # v # tmp) = Some bs"
      using Cons.prems(1) by (auto split: if_splits)
    then obtain os where os: "bs = rev (v # tmp) @ os" "os \<noteq> []" "s = dotted os" "length os + k = 4"
      using Cons.IH [where saw = False and k = k and v = 0 and tmp = "v # tmp"] Cons.prems(2) by auto
    then have "dotted (v # os) = dec (unat v) @ CHR ''.'' # s" by (cases os) auto
    then show ?thesis using c os by (intro exI [of _ "v # os"]) auto
  qed
qed

section \<open>Numbers that were printed\<close>

definition number_end :: "string \<Rightarrow> bool" where
  "number_end s \<longleftrightarrow> (case s of [] \<Rightarrow> True | c # _ \<Rightarrow> digit_value c = None)"

lemma strtoul_loop_stop: "number_end s \<Longrightarrow> strtoul_loop base s acc any = (acc, any, s)"
  by (cases s) (auto simp: number_end_def)

lemma strtoul_loop_step:
  assumes "base = 8 \<or> base = 10 \<or> base = 16" "digit_value c = Some v" "v < unat base" "0 \<le> any" "unat acc < 2 ^ 40"
  shows "strtoul_loop base (c # s) acc any = strtoul_loop base s (acc * base + of_nat v) 1"
proof -
  have "acc < 2 ^ 40" using assms(5) by (simp add: word_less_nat_alt)
  moreover have "(2 :: u64) ^ 40 < (-1) div base" using assms(1) by auto
  ultimately have "acc < (-1) div base" by (rule order.strict_trans)
  then have "\<not> (-1) div base < acc" "acc \<noteq> (-1) div base" by auto
  then show ?thesis using assms(2-4) by (simp add: Let_def)
qed

lemma digit_value_digit [simp]: "d < 10 \<Longrightarrow> digit_value (digit d) = Some d"
  by (simp add: digit_value_def)

lemma strtoul_loop_dec:
  "n < 2 ^ 40 \<Longrightarrow> 0 \<le> any \<Longrightarrow> strtoul_loop 10 (dec n @ s) 0 any = strtoul_loop 10 s (of_nat n) 1"
proof (induction n arbitrary: s rule: dec.induct)
  case (1 n)
  show ?case
  proof (cases "n < 10")
    case True
    then show ?thesis using 1(3) by (simp add: strtoul_loop_step del: strtoul_loop.simps)
  next
    case False
    have "strtoul_loop 10 (dec n @ s) 0 any = strtoul_loop 10 (dec (n div 10) @ digit (n mod 10) # s) 0 any"
      using False by (simp add: dec.simps [of n])
    also have "\<dots> = strtoul_loop 10 (digit (n mod 10) # s) (of_nat (n div 10)) 1"
      using 1 False by simp
    also have "\<dots> = strtoul_loop 10 s (of_nat (n div 10) * 10 + of_nat (n mod 10)) 1"
      using 1(2) by (intro strtoul_loop_step) (auto simp: u64_of_nat)
    also have "of_nat (n div 10) * 10 + of_nat (n mod 10) = (of_nat (n div 10 * 10 + n mod 10) :: u64)"
      by (simp only: of_nat_add of_nat_mult of_nat_numeral)
    finally show ?thesis by simp
  qed
qed

lemma isdigit_not_special:
  "isdigit c \<Longrightarrow> \<not> isspace c \<and> c \<noteq> CHR ''-'' \<and> c \<noteq> CHR ''+'' \<and> c \<noteq> CHR ''x'' \<and> c \<noteq> CHR ''X''"
  by (auto simp: isdigit_def isspace_def code_def)

lemma strtoul_dec:
  assumes "n < 2 ^ 40" "number_end s"
  shows "strtoul (dec n @ s) 0 = (of_nat n, s)"
proof -
  obtain c cs where c: "dec n = c # cs" by (cases "dec n") auto
  have h: "isdigit c" "c = CHR ''0'' \<longleftrightarrow> n = 0" using hd_dec [of n] c by auto
  have x: "chr0 s \<noteq> CHR ''x'' \<and> chr0 s \<noteq> CHR ''X''"
    using assms(2) by (cases s) (auto simp: number_end_def chr0_def digit_value_def isdigit_def islower_def
        isupper_def code_def split: if_splits)
  note sp = isdigit_not_special [OF h(1)]
  show ?thesis
  proof (cases "n = 0")
    case True
    then have "c = CHR ''0''" "cs = []" using h c by auto
    moreover have "digit_value CHR ''0'' = Some 0" by (simp add: digit_value_def isdigit_def code_def)
    ultimately show ?thesis
      using True x c sp strtoul_loop_step [of 8 "CHR ''0''" 0 0 0 s] strtoul_loop_stop [OF assms(2)]
      by (simp add: strtoul_def Let_def chr0_def [of "_ # _"] del: strtoul_loop.simps)
  next
    case False
    then show ?thesis
      using h sp strtoul_loop_dec [OF assms(1), of 0 s] strtoul_loop_stop [OF assms(2)]
      by (simp add: strtoul_def Let_def chr0_def c del: strtoul_loop.simps)
  qed
qed

lemma inet_aton_loop_dec:
  assumes "n < 2 ^ 40" "number_end s" "v = (of_nat n :: u32)" "ps = parts @ [ucast v]"
  shows "inet_aton_loop (dec n @ s) k parts =
    (case s of [] \<Rightarrow> Some (ps, v)
     | ch # rest \<Rightarrow> if ch = CHR ''.'' then if k = 3 then None else inet_aton_loop rest (k + 1) ps
         else if isspace ch then Some (ps, v) else None)"
proof -
  have v: "ucast (of_nat n :: u64) = v" using assms(3) by (simp add: unsigned_of_nat of_nat_take_bit take_bit_word_eq_self)
  have "unat (of_nat n :: u64) = n" "unat (-1 :: u64) = 2 ^ 64 - 1"
    using assms(1) by (simp_all add: u64_of_nat unsigned_minus_1_eq_mask mask_eq_exp_minus_1)
  then have l: "(of_nat n :: u64) \<noteq> -1" using assms(1) by force
  have e: "s \<noteq> dec n @ s" by simp
  show ?thesis using strtoul_dec [OF assms(1,2)] l e
    by (subst inet_aton_loop.simps) (simp add: v assms(4) Let_def split: list.split)
qed

lemma number_end_simps [simp]: "number_end []" "number_end (CHR ''.'' # s)" "number_end (CHR '':'' # s)"
  by (simp_all add: number_end_def digit_value_def isdigit_def isupper_def islower_def code_def)

text \<open>A pair of hexadecimal digits.\<close>

lemma hex_digit_value: "d < 16 \<Longrightarrow> digit_value (hex_digit d) = Some d"
  by (simp add: hex_digit_def digit_value_def isdigit_def isupper_def islower_def code_def digit_def)

lemma hex_digit_not_special:
  assumes "d < 16"
  shows "\<not> isspace (hex_digit d) \<and> hex_digit d \<noteq> CHR ''-'' \<and> hex_digit d \<noteq> CHR ''+'' \<and>
    hex_digit d \<noteq> CHR ''x'' \<and> hex_digit d \<noteq> CHR ''X''"
proof -
  have c: "code (hex_digit d) = (if d < 10 then 48 + d else 87 + d)"
    using assms by (simp add: hex_digit_def digit_def code_def)
  have "code (hex_digit d) \<noteq> code x" if "x \<in> {CHR ''-'', CHR ''+'', CHR ''x'', CHR ''X''}" for x
    using assms that unfolding c by (auto simp: code_def)
  moreover have "\<not> isspace (hex_digit d)" using assms unfolding isspace_def c by auto
  ultimately show ?thesis by (metis insertI1 insertI2)
qed

lemma strtoul_hex_pair:
  assumes "number_end s" "n < 256"
  shows "strtoul (hex_digit (n div 16) # hex_digit (n mod 16) # s) 16 = (of_nat n, s)"
proof -
  have d: "n div 16 < 16" "n mod 16 < 16" using assms(2) by auto
  have "strtoul_loop 16 (hex_digit (n div 16) # hex_digit (n mod 16) # s) 0 0 =
      strtoul_loop 16 s (of_nat (n div 16) * 16 + of_nat (n mod 16)) 1"
    using d hex_digit_value [OF d(1)] hex_digit_value [OF d(2)]
      strtoul_loop_step [of 16 "hex_digit (n div 16)" "n div 16" 0 0 "hex_digit (n mod 16) # s"]
      strtoul_loop_step [of 16 "hex_digit (n mod 16)" "n mod 16" 1 "of_nat (n div 16)" s]
    by (simp add: u64_of_nat del: strtoul_loop.simps)
  also have "of_nat (n div 16) * 16 + of_nat (n mod 16) = (of_nat (n div 16 * 16 + n mod 16) :: u64)"
    by (simp only: of_nat_add of_nat_mult of_nat_numeral)
  finally show ?thesis
    using hex_digit_not_special [OF d(1)] hex_digit_not_special [OF d(2)] strtoul_loop_stop [OF assms(1)]
    by (simp add: strtoul_def Let_def chr0_def del: strtoul_loop.simps)
qed

lemma mac_loop_pair:
  assumes "i < 6" "length macout = 6" "if i < 5 then chr0 s = CHR '':'' else s = []"
  shows "mac_loop i (hex_digit (unat b div 16) # hex_digit (unat b mod 16) # s) macout =
    mac_loop (i + 1) (tl s) (macout[i := b])"
proof -
  have "number_end s" using assms(3) by (cases s) (auto simp: chr0_def split: if_splits)
  then have "strtoul (hex_digit (unat b div 16) # hex_digit (unat b mod 16) # s) 16 = (of_nat (unat b), s)"
    using u8_bound [of b] by (intro strtoul_hex_pair)
  moreover have "ucast (of_nat (unat b) :: u64) = b"
    by (simp, rule bit_word_eqI, auto simp: bit_simps)
  ultimately show ?thesis
    using assms by (subst mac_loop.simps) (auto simp: ETHER_ADDR_LEN_def Let_def chr0_def)
qed

section \<open>Properties\<close>

text \<open>
  C37. The parser of Internet addresses is the exact inverse of the printer: a string is
  accepted with the octets \<open>bs\<close> if and only if it is what \<^verbatim>\<open>inet_ntop4\<close> prints for them into a
  buffer of 16 bytes, which always suffices.
\<close>

theorem inet_pton4_iff:
  "inet_pton4 s = Some bs \<longleftrightarrow> length bs = 4 \<and> inet_ntop4 bs 16 = Some s"
proof -
  have fits: "inet_ntop4 bs 16 = Some (dotted bs)" if "length bs = 4"
  proof -
    obtain a b c d where bs: "bs = [a, b, c, d]" using \<open>length bs = 4\<close> by (auto simp: length_Suc_conv eval_nat_numeral)
    have "unat x < 1000" for x :: u8 using u8_bound [of x] by simp
    then have "length (dec (unat x)) \<le> 3" for x :: u8 using dec_length [of "unat x" 3] by simp
    from this [of a] this [of b] this [of c] this [of d] show ?thesis by (simp add: inet_ntop4_def bs)
  qed
  have printed: "inet_pton4 (dotted bs) = Some bs" if "length bs = 4"
  proof -
    obtain a b c d where bs: "bs = [a, b, c, d]" using \<open>length bs = 4\<close> by (auto simp: length_Suc_conv eval_nat_numeral)
    have o: "unat x < 256" "of_nat (unat x) = x" for x :: u8 by (simp_all add: u8_bound)
    show ?thesis using pton4_loop_octet [of "unat d" "Suc (Suc (Suc 0))" "[]"]
      by (simp add: inet_pton4_def bs o pton4_loop_octet pton4_loop_dot)
  qed
  have sound: "length bs = 4 \<and> s = dotted bs" if "inet_pton4 s = Some bs"
    using pton4_loop_sound [of s False 0 0 "[]" bs] that by (auto simp: inet_pton4_def)
  show ?thesis
  proof
    assume "inet_pton4 s = Some bs"
    then show "length bs = 4 \<and> inet_ntop4 bs 16 = Some s" using sound fits by simp
  next
    assume *: "length bs = 4 \<and> inet_ntop4 bs 16 = Some s"
    then have "s = dotted bs" using fits by simp
    then show "inet_pton4 s = Some bs" using printed * by simp
  qed
qed

text \<open>
  Every address that \<^verbatim>\<open>inet_pton4\<close> accepts, \<^verbatim>\<open>inet_aton\<close> accepts with the same value.
\<close>

theorem inet_aton_extends_pton4:
  assumes "inet_pton4 s = Some [a, b, c, d]"
  shows "inet_aton s =
    Some (push_bit 24 (ucast a) OR push_bit 16 (ucast b) OR push_bit 8 (ucast c) OR ucast d)"
proof -
  have s: "s = dec (unat a) @ CHR ''.'' # dec (unat b) @ CHR ''.'' # dec (unat c) @ CHR ''.'' # dec (unat d)"
    using pton4_loop_sound [of s False 0 0 "[]" "[a, b, c, d]"] assms by (simp add: inet_pton4_def)
  have o: "unat x < 2 ^ 40" "of_nat (unat x) = (ucast x :: u32)" for x :: u8
    using u8_bound [of x] by simp_all
  have uu: "ucast (ucast x :: u32) = (ucast x :: u64)" for x :: u8
    by (rule bit_word_eqI) (auto simp: bit_simps dest: bit_imp_le_length)
  have le: "\<not> (255 :: u32) < ucast x" "\<not> (255 :: u64) < ucast (ucast x :: u32)" for x :: u8
    using u8_bound [of x] by (simp_all add: uu not_less word_le_nat_alt unsigned_ucast_eq take_bit_nat_eq_self)
  have "inet_aton_loop s 0 [] = Some ([ucast (ucast a :: u32), ucast (ucast b :: u32), ucast (ucast c :: u32),
      ucast (ucast d :: u32)], ucast d)"
    using inet_aton_loop_dec [of "unat d" "[]" _ _ _ "Suc (Suc (Suc 0))", OF o(1) _ refl refl]
    by (simp add: s inet_aton_loop_dec [OF o(1) _ refl refl] o(2))
  then show ?thesis
    by (simp add: inet_aton_def le) (rule bit_word_eqI, auto simp: bit_simps)
qed

text \<open>
  \<^verbatim>\<open>inet_aton\<close> does not notice numbers of more than 32 bits, which it cuts: the comment in
  the code leaves the check to \<^verbatim>\<open>strtoul\<close>, whose range is 64 bits.
\<close>

theorem inet_aton_wraps:
  assumes "2 ^ 32 \<le> n" "n < 2 ^ 40"
  shows "inet_aton (dec n) = Some (of_nat (n mod 2 ^ 32))"
proof -
  have "of_nat (n mod 2 ^ 32) = take_bit 32 (of_nat n :: u32)"
    unfolding take_bit_eq_mod [symmetric, of n 32] by (rule of_nat_take_bit)
  also have "\<dots> = of_nat n" by (simp add: take_bit_word_eq_self)
  finally show ?thesis using inet_aton_loop_dec [OF assms(2) _ refl refl, of "[]" 0 "[]"] by (simp add: inet_aton_def)
qed

text \<open>
  An Ethernet address that is written with two hexadecimal digits for each byte is read
  back.
\<close>

theorem uinet_mac_aton_roundtrip:
  assumes "length bs = 6" "length macout = 6"
  shows "uinet_mac_aton (Some (show_mac bs)) macout = (0, bs)"
proof -
  obtain b0 b1 b2 b3 b4 b5 where bs: "bs = [b0, b1, b2, b3, b4, b5]"
    using assms(1) by (auto simp: length_Suc_conv eval_nat_numeral)
  obtain m0 m1 m2 m3 m4 m5 where m: "macout = [m0, m1, m2, m3, m4, m5]"
    using assms(2) by (auto simp: length_Suc_conv eval_nat_numeral)
  show ?thesis
    by (simp add: uinet_mac_aton_def bs m mac_loop_pair chr0_def)
       (subst mac_loop.simps, simp add: ETHER_ADDR_LEN_def)
qed

section \<open>Instances\<close>

theorem inet_aton_extends_pton4_witness:
  "inet_pton4 (dotted [10, 0, 0, 1]) = Some [10, 0, 0, 1] \<and> inet_aton (dotted [10, 0, 0, 1]) = Some 0x0a000001"
proof -
  have "inet_pton4 (dotted [10, 0, 0, 1]) = Some [10, 0, 0, 1]"
    by (simp add: inet_pton4_def dec.simps isdigit_def code_def digit_def Let_def)
  from this inet_aton_extends_pton4 [OF this] show ?thesis by simp
qed

theorem inet_aton_wraps_witness: "inet_aton (dec 4294967297) = Some 1"
  using inet_aton_wraps [of 4294967297] by simp

theorem uinet_mac_aton_roundtrip_witness:
  "uinet_mac_aton (Some (show_mac [2, 0, 0, 0, 0, 0x1f])) (replicate 6 0) = (0, [2, 0, 0, 0, 0, 0x1f])"
  by (rule uinet_mac_aton_roundtrip) simp_all

text \<open>
  Signs and blanks in place of the first digit are accepted as well: the conversion stops
  after two characters.
\<close>

lemma mac_accepts_sign: "strtoul ''-1:00'' 16 = (-1, '':00'') \<and> strtoul '' 1:00'' 16 = (1, '':00'')"
  by (simp add: strtoul_def isspace_def code_def chr0_def digit_value_def isdigit_def isupper_def islower_def Let_def)

end
