(* ===== verification/Uinet_Config.thy ===== *)
theory Uinet_Config
  imports If_Dpdk If_Dpdk_Rx Inet_Addr
begin

text \<open>
  The list of interfaces of a stack instance, \<^verbatim>\<open>src/lib/libuinet/uinet_config.c\<close>: creating an
  interface, which attaches the DPDK driver, finding it by its name or alias, walking the
  list and destroying interfaces; with the registry of types of \<^verbatim>\<open>uinet_if.c\<close> and the default
  configuration of \<^verbatim>\<open>uinet_api.c\<close>.
\<close>

section \<open>Types of interfaces\<close>

datatype uinet_iftype = UINET_IFTYPE_NETMAP | UINET_IFTYPE_PCAP | UINET_IFTYPE_DPDK | UINET_IFTYPE_COUNT

fun iftype_num :: "uinet_iftype \<Rightarrow> nat" where
  "iftype_num UINET_IFTYPE_NETMAP = 0"
| "iftype_num UINET_IFTYPE_PCAP = 1"
| "iftype_num UINET_IFTYPE_DPDK = 2"
| "iftype_num UINET_IFTYPE_COUNT = 3"

record uinet_if_type_info =
  ti_type :: uinet_iftype
  ti_type_name :: string
  ti_default_cfg :: "uinet_if_dpdk_cfg option"

type_synonym type_table = "uinet_if_type_info option list"

definition uinet_if_register_type :: "uinet_if_type_info \<Rightarrow> type_table \<Rightarrow> type_table res" where
  "uinet_if_register_type ti tbl =
     (if iftype_num (ti_type ti) < length tbl then Inr (tbl[iftype_num (ti_type ti) := Some ti])
      else Inl Out_of_bounds)"

definition uinet_if_get_type_info :: "type_table \<Rightarrow> uinet_iftype \<Rightarrow> uinet_if_type_info option" where
  "uinet_if_get_type_info tbl t = (if iftype_num t < iftype_num UINET_IFTYPE_COUNT then tbl ! iftype_num t else None)"

definition uinet_iftypename :: "type_table \<Rightarrow> uinet_iftype \<Rightarrow> string" where
  "uinet_iftypename tbl t =
     (case uinet_if_get_type_info tbl t of None \<Rightarrow> ''<unknown>'' | Some ti \<Rightarrow> ti_type_name ti)"

section \<open>Interfaces and their configuration\<close>

record uinet_if_cfg =
  cfg_type :: uinet_iftype
  cfg_configstr :: "string option"
  cfg_alias :: "string option"
  cfg_rx_cpu :: int
  cfg_tx_cpu :: int
  cfg_rx_batch_size :: u32
  cfg_tx_inject_queue_len :: u32
  cfg_timestamp_mode :: timestamp_mode
  cfg_type_cfg :: uinet_if_dpdk_cfg

text \<open>The fields that are not assigned keep what the caller's structure holds.\<close>

definition uinet_if_default_config :: "type_table \<Rightarrow> uinet_iftype \<Rightarrow> uinet_if_cfg \<Rightarrow> uinet_if_cfg" where
  "uinet_if_default_config tbl t cfg =
     (case uinet_if_get_type_info tbl t of None \<Rightarrow> cfg
      | Some ti \<Rightarrow>
          \<lparr>cfg_type = t, cfg_configstr = None, cfg_alias = None, cfg_rx_cpu = 2, cfg_tx_cpu = 2,
           cfg_rx_batch_size = 4096, cfg_tx_inject_queue_len = 2048, cfg_timestamp_mode = TS_NONE,
           cfg_type_cfg = (case ti_default_cfg ti of None \<Rightarrow> cfg_type_cfg cfg | Some c \<Rightarrow> c)\<rparr>)"

text \<open>
  \<^verbatim>\<open>struct uinet_if\<close> with its address; \<open>uif_owned\<close> is what its driver holds.
\<close>

record uinet_if =
  uif_addr :: nat
  uif_type :: uinet_iftype
  uif_configstr :: "string option"
  uif_name :: string
  uif_alias :: string
  uif_rx_cpu :: int
  uif_tx_cpu :: int
  uif_rx_batch_size :: u32
  uif_tx_inject_queue_len :: u32
  uif_ts_mode :: timestamp_mode
  uif_type_cfg :: uinet_if_dpdk_cfg
  uif_sts_evifctx :: bool
  uif_ifdata :: "if_dpdk_softc option"
  uif_owned :: "owned list"

text \<open>
  The state: the list, the driver's counter of interfaces, the number of event contexts
  that exist for interfaces, and what drivers left behind.
\<close>

record config_state =
  cs_list :: "uinet_if list"
  cs_interface_count :: u32
  cs_evifctxs :: int
  cs_leaked :: "owned list"

text \<open>
  What the outside decides: the address \<^verbatim>\<open>malloc\<close> returns, whether the instance runs in the
  single-thread mode and its callback succeeds, and the outcomes of the driver's calls.
\<close>

record config_env =
  ce_new :: "nat option"
  ce_sts :: bool
  ce_created_cb_ok :: bool
  ce_attach :: attach_env

definition uinet_iffind_byname :: "string \<Rightarrow> uinet_if list \<Rightarrow> uinet_if option" where
  "uinet_iffind_byname ifname l =
     find (\<lambda>uif. ifname = uif_name uif \<or> uif_alias uif \<noteq> [] \<and> ifname = uif_alias uif) l"

text \<open>The driver sets the name before anything can fail, but only when there is a configuration string.\<close>

definition if_dpdk_name :: "u32 \<Rightarrow> string" where
  "if_dpdk_name count = ''dpdk'' @ dec (unat count)"

definition uif_attach_env :: "config_env \<Rightarrow> uinet_if \<Rightarrow> attach_env" where
  "uif_attach_env env uif = (ce_attach env)\<lparr>at_configstr := uif_configstr uif,
     at_rx_batch_size := uif_rx_batch_size uif, at_sts := ce_sts env, at_cfg := uif_type_cfg uif,
     at_inject_queue_len := uif_tx_inject_queue_len uif\<rparr>"

definition driver_state :: "owned list \<Rightarrow> u32 \<Rightarrow> attach_state" where
  "driver_state held count = \<lparr>as_owned = held, as_interface_count = count, as_attached = False\<rparr>"

text \<open>\<^verbatim>\<open>new_uif\<close> when the driver is called.\<close>

definition new_uif :: "config_env \<Rightarrow> uinet_if_cfg \<Rightarrow> nat \<Rightarrow> u32 \<Rightarrow> uinet_if" where
  "new_uif env cfg a count =
     \<lparr>uif_addr = a, uif_type = cfg_type cfg, uif_configstr = cfg_configstr cfg,
      uif_name = (if cfg_type cfg = UINET_IFTYPE_DPDK \<and> cfg_configstr cfg \<noteq> None then if_dpdk_name count else []),
      uif_alias = (case cfg_alias cfg of None \<Rightarrow> [] | Some s \<Rightarrow> s),
      uif_rx_cpu = cfg_rx_cpu cfg, uif_tx_cpu = cfg_tx_cpu cfg, uif_rx_batch_size = cfg_rx_batch_size cfg,
      uif_tx_inject_queue_len = cfg_tx_inject_queue_len cfg, uif_ts_mode = cfg_timestamp_mode cfg,
      uif_type_cfg = cfg_type_cfg cfg, uif_sts_evifctx = ce_sts env, uif_ifdata = None, uif_owned = []\<rparr>"

definition uinet_ifcreate ::
  "config_env \<Rightarrow> uinet_if_cfg \<Rightarrow> config_state \<Rightarrow> (int \<times> uinet_if option \<times> config_state) res" where
  "uinet_ifcreate env cfg s =
     (if (case cfg_alias cfg of None \<Rightarrow> False | Some al \<Rightarrow> length al \<ge> IF_NAMESIZE) then Inr (UINET_EINVAL, None, s)
      else if (case cfg_alias cfg of None \<Rightarrow> False
               | Some al \<Rightarrow> al \<noteq> [] \<and> uinet_iffind_byname al (cs_list s) \<noteq> None) then Inr (UINET_EEXIST, None, s)
      else
        case ce_new env of None \<Rightarrow> Inr (UINET_ENOMEM, None, s)
        | Some a \<Rightarrow>
          let uif = new_uif env cfg a (cs_interface_count s) in
          if ce_sts env \<and> \<not> ce_created_cb_ok env then Inr (UINET_ENXIO, None, s)
          else
            let s = s\<lparr>cs_evifctxs := cs_evifctxs s + (if ce_sts env then 1 else 0)\<rparr> in
            if cfg_type cfg \<noteq> UINET_IFTYPE_DPDK then Inr (UINET_ENXIO, None, s)
            else
              res_bind (if_dpdk_attach (uif_attach_env env uif) (driver_state [] (cs_interface_count s)))
                (\<lambda>(error, sc, st).
                  let s = s\<lparr>cs_interface_count := as_interface_count st\<rparr> in
                  if error = 0 then
                    let uif = uif\<lparr>uif_ifdata := sc, uif_owned := as_owned st\<rparr> in
                    Inr (0, Some uif, s\<lparr>cs_list := cs_list s @ [uif]\<rparr>)
                  else Inr (error, None, s\<lparr>cs_leaked := cs_leaked s @ as_owned st\<rparr>)))"

definition uinet_ifdestroy_internal :: "bool \<Rightarrow> uinet_if \<Rightarrow> config_state \<Rightarrow> (int \<times> config_state) res" where
  "uinet_ifdestroy_internal sts uif s =
     (let s = (if sts then s\<lparr>cs_evifctxs := cs_evifctxs s - 1\<rparr> else s) in
      res_bind
        (if uif_type uif = UINET_IFTYPE_DPDK then
           res_bind (if_dpdk_detach sts (uif_ifdata uif) (driver_state (uif_owned uif) (cs_interface_count s)))
             (\<lambda>st. Inr (0, as_owned st))
         else Inr (UINET_ENXIO, uif_owned uif))
        (\<lambda>(error, left).
          Inr (error, s\<lparr>cs_list := filter (\<lambda>u. uif_addr u \<noteq> uif_addr uif) (cs_list s),
                        cs_leaked := cs_leaked s @ left\<rparr>)))"

definition uinet_ifdestroy :: "bool \<Rightarrow> uinet_if \<Rightarrow> config_state \<Rightarrow> (int \<times> config_state) res" where
  "uinet_ifdestroy sts uif s = uinet_ifdestroy_internal sts uif s"

fun ifdestroy_loop :: "bool \<Rightarrow> uinet_if list \<Rightarrow> config_state \<Rightarrow> config_state res" where
  "ifdestroy_loop sts [] s = Inr s"
| "ifdestroy_loop sts (u # us) s =
     res_bind (uinet_ifdestroy_internal sts u s) (\<lambda>(_, s). ifdestroy_loop sts us s)"

definition uinet_ifdestroy_all :: "bool \<Rightarrow> config_state \<Rightarrow> config_state res" where
  "uinet_ifdestroy_all sts s = ifdestroy_loop sts (cs_list s) s"

definition uinet_ifdestroy_byname :: "bool \<Rightarrow> string \<Rightarrow> config_state \<Rightarrow> (int \<times> config_state) res" where
  "uinet_ifdestroy_byname sts ifname s =
     (case uinet_iffind_byname ifname (cs_list s) of
        None \<Rightarrow> Inr (UINET_EINVAL, s)
      | Some uif \<Rightarrow> uinet_ifdestroy_internal sts uif s)"

definition uinet_ifaliasname :: "uinet_if option \<Rightarrow> string" where
  "uinet_ifaliasname uif = (case uif of None \<Rightarrow> [] | Some u \<Rightarrow> uif_alias u)"

definition uinet_ifgenericname :: "uinet_if option \<Rightarrow> string" where
  "uinet_ifgenericname uif = (case uif of None \<Rightarrow> [] | Some u \<Rightarrow> uif_name u)"

text \<open>The successor of an element of the list, by address.\<close>

fun tailq_next :: "nat \<Rightarrow> uinet_if list \<Rightarrow> uinet_if option" where
  "tailq_next a [] = None"
| "tailq_next a (u # us) =
     (if uif_addr u = a then (case us of [] \<Rightarrow> None | v # _ \<Rightarrow> Some v) else tailq_next a us)"

definition uinet_ifnext :: "uinet_if option \<Rightarrow> uinet_if list \<Rightarrow> uinet_if option" where
  "uinet_ifnext cur l =
     (let first = (case l of [] \<Rightarrow> None | u # _ \<Rightarrow> Some u) in
      case cur of None \<Rightarrow> first
      | Some u \<Rightarrow> (case tailq_next (uif_addr u) l of None \<Rightarrow> first | Some v \<Rightarrow> Some v))"

section \<open>Histories\<close>

text \<open>
  A history creates and destroys interfaces. \<^verbatim>\<open>malloc\<close> returns memory that is not in use, and
  the driver's counter does not overflow.
\<close>

inductive config_step :: "bool \<Rightarrow> config_state \<Rightarrow> config_state \<Rightarrow> bool" for sts where
  create: "uinet_ifcreate env cfg s = Inr (e, u, s') \<Longrightarrow> ce_sts env = sts \<Longrightarrow>
     (case ce_new env of None \<Rightarrow> True | Some a \<Rightarrow> a \<notin> uif_addr ` set (cs_list s)) \<Longrightarrow>
     unat (cs_interface_count s) + 1 < 2 ^ 32 \<Longrightarrow> config_step sts s s'"
| destroy: "uinet_ifdestroy_byname sts ifname s = Inr (e, s') \<Longrightarrow> config_step sts s s'"

definition config_start :: config_state where
  "config_start = \<lparr>cs_list = [], cs_interface_count = 0, cs_evifctxs = 0, cs_leaked = []\<rparr>"

definition aliases :: "uinet_if list \<Rightarrow> string list" where
  "aliases l = filter (\<lambda>a. a \<noteq> []) (map uif_alias l)"

definition detachable :: "bool \<Rightarrow> uinet_if \<Rightarrow> bool" where
  "detachable sts u \<longleftrightarrow> uif_type u = UINET_IFTYPE_DPDK \<and>
     (\<forall>count. \<exists>st. if_dpdk_detach sts (uif_ifdata u) (driver_state (uif_owned u) count) = Inr st \<and> as_owned st = [Ifnet])"

definition config_inv :: "bool \<Rightarrow> config_state \<Rightarrow> bool" where
  "config_inv sts s \<longleftrightarrow>
     distinct (map uif_addr (cs_list s)) \<and> distinct (map uif_name (cs_list s)) \<and> distinct (aliases (cs_list s)) \<and>
     (\<forall>u \<in> set (cs_list s). length (uif_alias u) < IF_NAMESIZE \<and> detachable sts u \<and>
        (\<exists>i < cs_interface_count s. uif_name u = if_dpdk_name i))"

section \<open>Lemmas on the driver\<close>

lemma attach_fail_count:
  "attach_fail e sc a b c d f st = Inr (e', sc', st') \<Longrightarrow> as_interface_count st' = as_interface_count st"
  by (auto simp: attach_fail_def)

lemma attach_setup_count:
  "attach_setup env sc st = Inr (e, sc', st') \<Longrightarrow> as_interface_count st' = as_interface_count st"
  by (auto simp: attach_setup_def Let_def dest!: attach_fail_count split: if_splits)

lemma attach_rest_count:
  "attach_rest env sc st = Inr (e, sc', st') \<Longrightarrow> as_interface_count st' = as_interface_count st"
  by (auto simp: attach_rest_def Let_def dest!: attach_fail_count attach_setup_count
      split: option.splits if_splits)

lemma attach_count:
  assumes "if_dpdk_attach env st = Inr (e, sc, st')"
  shows "as_interface_count st' = as_interface_count st + (if at_configstr env = None then 0 else 1)"
    "e = 0 \<Longrightarrow> at_configstr env \<noteq> None"
  using assms by (auto simp: if_dpdk_attach_def Let_def dest!: attach_fail_count attach_rest_count
      split: option.splits if_splits)

lemma detach_owned:
  assumes "if_dpdk_detach sts sc st = Inr st'" "as_owned st2 = as_owned st"
  shows "\<exists>st2'. if_dpdk_detach sts sc st2 = Inr st2' \<and> as_owned st2' = as_owned st'"
  using assms by (cases sc) (auto simp: if_dpdk_detach_def)

lemma attach_detachable:
  assumes "if_dpdk_attach (uif_attach_env env u) (driver_state [] count) = Inr (0, sc, st)"
    "uif_type u = UINET_IFTYPE_DPDK"
  shows "detachable (ce_sts env) (u\<lparr>uif_ifdata := sc, uif_owned := as_owned st\<rparr>)"
proof -
  have "left_over (uif_attach_env env u) (0, sc, st)"
    using attach_post [OF _ assms(1)] by (simp add: driver_state_def)
  then obtain st' where "if_dpdk_detach (ce_sts env) sc st = Inr st'" "as_owned st' = [Ifnet]"
    by (auto simp: left_over_def uif_attach_env_def)
  then show ?thesis
    using detach_owned [of "ce_sts env" sc st st'] assms(2) by (auto simp: detachable_def driver_state_def)
qed

section \<open>The invariant\<close>

lemma dec_inj: "dec m = dec n \<Longrightarrow> m < 2 ^ 40 \<Longrightarrow> n < 2 ^ 40 \<Longrightarrow> m = n"
proof -
  assume *: "dec m = dec n" "m < 2 ^ 40" "n < 2 ^ 40"
  have "(of_nat m :: u64) = of_nat n"
    using strtoul_dec [OF *(2), of "[]"] strtoul_dec [OF *(3), of "[]"] *(1) by simp
  moreover have "unat (of_nat m :: u64) = m" "unat (of_nat n :: u64) = n"
    by (rule u64_of_nat; use *(2,3) in simp)+
  ultimately show "m = n" by metis
qed

lemma if_dpdk_name_inj: "if_dpdk_name i = if_dpdk_name j \<longleftrightarrow> i = j"
proof -
  have "unat k < 2 ^ 40" for k :: u32 using u32_bound [of k] by simp
  then show ?thesis using dec_inj [of "unat i" "unat j"] by (auto simp: if_dpdk_name_def u32_eq_iff)
qed

lemma find_alias:
  assumes "uinet_iffind_byname a l = None" "a \<noteq> []"
  shows "a \<notin> set (aliases l)"
  using assms by (auto simp: uinet_iffind_byname_def find_None_iff aliases_def)

lemma aliases_append: "aliases (l @ [u]) = aliases l @ (if uif_alias u = [] then [] else [uif_alias u])"
  by (simp add: aliases_def)

lemma aliases_filter: "distinct (aliases l) \<Longrightarrow> distinct (aliases (filter P l))"
  by (induction l) (auto simp: aliases_def)

text \<open>What a successful creation has checked and done.\<close>

lemma uinet_ifcreate_ok:
  assumes "uinet_ifcreate env cfg s = Inr (e, r, s')"
  shows "(e = 0 \<longrightarrow> (\<exists>u. ce_new env = Some (uif_addr u) \<and> r = Some u \<and>
       uif_alias u = (case cfg_alias cfg of None \<Rightarrow> [] | Some al \<Rightarrow> al) \<and>
       cs_list s' = cs_list s @ [u] \<and> cs_interface_count s' = cs_interface_count s + 1 \<and> cs_leaked s' = cs_leaked s \<and>
       uif_name u = if_dpdk_name (cs_interface_count s) \<and> detachable (ce_sts env) u \<and>
       length (uif_alias u) < IF_NAMESIZE \<and>
       (uif_alias u \<noteq> [] \<longrightarrow> uinet_iffind_byname (uif_alias u) (cs_list s) = None))) \<and>
     (e \<noteq> 0 \<longrightarrow> r = None \<and> cs_list s' = cs_list s \<and>
       (cs_interface_count s' = cs_interface_count s \<or> cs_interface_count s' = cs_interface_count s + 1))"
proof -
  obtain al where al: "al = (case cfg_alias cfg of None \<Rightarrow> [] | Some x \<Rightarrow> x)" by blast
  show ?thesis
  proof (cases "ce_new env = None \<or> cfg_type cfg \<noteq> UINET_IFTYPE_DPDK \<or> length al \<ge> IF_NAMESIZE \<or>
      al \<noteq> [] \<and> uinet_iffind_byname al (cs_list s) \<noteq> None \<or> ce_sts env \<and> \<not> ce_created_cb_ok env")
    case True
    then show ?thesis
      using assms al by (auto simp: uinet_ifcreate_def Let_def IF_NAMESIZE_def split: option.splits if_splits)
  next
    case False
    then obtain a where a: "ce_new env = Some a" by auto
    let ?u = "new_uif env cfg a (cs_interface_count s)"
    obtain error sc st where
      att: "if_dpdk_attach (uif_attach_env env ?u) (driver_state [] (cs_interface_count s)) = Inr (error, sc, st)" and
      r: "e = error" "r = (if error = 0 then Some (?u\<lparr>uif_ifdata := sc, uif_owned := as_owned st\<rparr>) else None)"
        "cs_interface_count s' = as_interface_count st"
        "cs_list s' = cs_list s @ (if error = 0 then [?u\<lparr>uif_ifdata := sc, uif_owned := as_owned st\<rparr>] else [])"
        "error = 0 \<longrightarrow> cs_leaked s' = cs_leaked s"
      using assms False a al by (auto simp: uinet_ifcreate_def Let_def split: option.splits if_splits prod.splits)
    have cs: "at_configstr (uif_attach_env env ?u) = cfg_configstr cfg"
      by (simp add: uif_attach_env_def new_uif_def)
    note cnt = attach_count [OF att, unfolded cs]
    have ty: "uif_type ?u = UINET_IFTYPE_DPDK" "uif_alias ?u = al" using False al by (auto simp: new_uif_def)
    have nm: "uif_name ?u = if_dpdk_name (cs_interface_count s)" if "error = 0"
      using cnt(2) that False by (simp add: new_uif_def)
    have det: "detachable (ce_sts env) (?u\<lparr>uif_ifdata := sc, uif_owned := as_owned st\<rparr>)" if "error = 0"
      using attach_detachable [OF att [unfolded that] ty(1)] .
    show ?thesis
    proof (cases "error = 0")
      case True
      define v where "v = ?u\<lparr>uif_ifdata := sc, uif_owned := as_owned st\<rparr>"
      have v: "uif_name v = if_dpdk_name (cs_interface_count s)" "uif_alias v = al" "detachable (ce_sts env) v"
        using nm [OF True] ty det [OF True] by (simp_all add: v_def)
      have "cs_interface_count s' = cs_interface_count s + 1"
        using r(3) cnt(1) cnt(2) [OF True] by (simp add: driver_state_def)
      moreover have "uif_addr v = a" by (simp add: v_def new_uif_def)
      ultimately show ?thesis
        using v a False True r al unfolding v_def [symmetric] by auto
    next
      case err: False
      then show ?thesis using r cnt(1) by (auto simp: driver_state_def)
    qed
  qed
qed

lemma uinet_ifdestroy_ok:
  assumes "detachable sts u"
  shows "\<exists>s'. uinet_ifdestroy_internal sts u s = Inr (0, s') \<and>
    cs_list s' = filter (\<lambda>v. uif_addr v \<noteq> uif_addr u) (cs_list s) \<and>
    cs_interface_count s' = cs_interface_count s \<and> cs_leaked s' = cs_leaked s @ [Ifnet]"
proof -
  obtain st where st: "if_dpdk_detach sts (uif_ifdata u) (driver_state (uif_owned u) (cs_interface_count s)) = Inr st"
    "as_owned st = [Ifnet]" "uif_type u = UINET_IFTYPE_DPDK"
    using assms by (auto simp: detachable_def)
  then show ?thesis by (cases sts) (auto simp: uinet_ifdestroy_internal_def Let_def)
qed

lemma config_inv_start: "config_inv sts config_start"
  by (simp add: config_inv_def config_start_def aliases_def)

lemma config_inv_create:
  assumes inv: "config_inv sts s" and cr: "uinet_ifcreate env cfg s = Inr (e, r, s')" and sts: "ce_sts env = sts"
    and new: "case ce_new env of None \<Rightarrow> True | Some a \<Rightarrow> a \<notin> uif_addr ` set (cs_list s)"
    and cnt: "unat (cs_interface_count s) + 1 < 2 ^ 32"
  shows "config_inv sts s'"
proof -
  have up: "i < cs_interface_count s \<Longrightarrow> i < cs_interface_count s + 1" for i
    using cnt by (simp add: word_less_nat_alt u32_plus)
  have lt: "cs_interface_count s < cs_interface_count s + 1"
    using cnt by (simp add: word_less_nat_alt u32_plus)
  have old: "\<exists>i < cs_interface_count s + 1. uif_name v = if_dpdk_name i" if "v \<in> set (cs_list s)" for v
    using inv that up unfolding config_inv_def by blast
  show ?thesis
  proof (cases "e = 0")
    case True
    then obtain u where u: "ce_new env = Some (uif_addr u)" "cs_list s' = cs_list s @ [u]"
        "cs_interface_count s' = cs_interface_count s + 1" "uif_name u = if_dpdk_name (cs_interface_count s)"
        "detachable sts u" "length (uif_alias u) < IF_NAMESIZE"
        "uif_alias u \<noteq> [] \<longrightarrow> uinet_iffind_byname (uif_alias u) (cs_list s) = None"
      using uinet_ifcreate_ok [OF cr] sts by auto
    have "uif_name u \<notin> uif_name ` set (cs_list s)"
      using inv u(4) by (force simp: config_inv_def if_dpdk_name_inj)
    moreover have "uif_alias u \<noteq> [] \<longrightarrow> uif_alias u \<notin> set (aliases (cs_list s))"
      using u(7) find_alias by blast
    moreover have "\<exists>i < cs_interface_count s + 1. uif_name u = if_dpdk_name i" using u(4) lt by blast
    ultimately show ?thesis
      using inv u new old by (simp add: config_inv_def aliases_append)
  next
    case False
    then have "cs_list s' = cs_list s"
        "cs_interface_count s' = cs_interface_count s \<or> cs_interface_count s' = cs_interface_count s + 1"
      using uinet_ifcreate_ok [OF cr] by auto
    then show ?thesis using inv old by (auto simp: config_inv_def)
  qed
qed

lemma config_inv_destroy:
  assumes "config_inv sts s" "uinet_ifdestroy_byname sts ifname s = Inr (e, s')"
  shows "config_inv sts s'"
proof (cases "uinet_iffind_byname ifname (cs_list s)")
  case None
  then show ?thesis using assms by (simp add: uinet_ifdestroy_byname_def)
next
  case (Some u)
  then have "u \<in> set (cs_list s)" by (auto simp: uinet_iffind_byname_def find_Some_iff)
  then have "cs_list s' = filter (\<lambda>v. uif_addr v \<noteq> uif_addr u) (cs_list s)" "cs_interface_count s' = cs_interface_count s"
    using uinet_ifdestroy_ok [of sts u s] assms Some by (auto simp: config_inv_def uinet_ifdestroy_byname_def)
  then show ?thesis
    using assms(1) by (auto simp: config_inv_def distinct_map_filter aliases_filter)
qed

lemma config_inv_reachable: "(config_step sts)\<^sup>*\<^sup>* config_start s \<Longrightarrow> config_inv sts s"
proof (induction rule: rtranclp_induct)
  case (step s s')
  then show ?case by (auto elim!: config_step.cases intro: config_inv_create config_inv_destroy)
qed (rule config_inv_start)

text \<open>Lookups after a creation.\<close>

lemma find_created:
  assumes "uinet_ifcreate env cfg s = Inr (0, u, s')" "cfg_alias cfg = Some a" "a \<noteq> []"
  shows "uinet_iffind_byname a (cs_list s') = u \<and> u \<noteq> None \<and>
    (\<forall>n. n \<noteq> a \<and> n \<noteq> uinet_ifgenericname u \<longrightarrow>
       uinet_iffind_byname n (cs_list s') = uinet_iffind_byname n (cs_list s))"
proof -
  obtain v where v: "u = Some v" "uif_alias v = a" "cs_list s' = cs_list s @ [v]"
      "uinet_iffind_byname a (cs_list s) = None"
    using uinet_ifcreate_ok [OF assms(1)] assms(2,3) by auto
  have app: "find P (xs @ [y]) = (case find P xs of None \<Rightarrow> if P y then Some y else None | Some z \<Rightarrow> Some z)"
    for P and xs :: "uinet_if list" and y by (induction xs) auto
  show ?thesis
    using v assms(3) by (auto simp: uinet_iffind_byname_def app uinet_ifgenericname_def split: option.splits)
qed

section \<open>Properties\<close>

text \<open>
  C38. Whatever interfaces were created and destroyed, the interfaces of the list have
  different generic names of the form \<^verbatim>\<open>dpdk\<close>\<open>n\<close>, different aliases where they have one, each
  shorter than the field it is stored in, and the driver of each can be detached.
\<close>

theorem config_names_unique:
  assumes "(config_step sts)\<^sup>*\<^sup>* config_start s"
  shows "distinct (map uif_name (cs_list s)) \<and> distinct (filter (\<lambda>a. a \<noteq> []) (map uif_alias (cs_list s))) \<and>
    (\<forall>u \<in> set (cs_list s). length (uif_alias u) < IF_NAMESIZE \<and> (\<exists>i. uif_name u = if_dpdk_name i) \<and>
       (\<exists>s'. uinet_ifdestroy sts u s = Inr (0, s')))"
proof -
  have inv: "config_inv sts s" by (rule config_inv_reachable [OF assms])
  then have "\<exists>s'. uinet_ifdestroy sts u s = Inr (0, s')" if "u \<in> set (cs_list s)" for u
    using uinet_ifdestroy_ok [of sts u s] that by (auto simp: config_inv_def uinet_ifdestroy_def)
  then show ?thesis using inv by (auto simp: config_inv_def aliases_def)
qed

text \<open>
  An interface that was just created is found under its alias, and every lookup of
  another string than its two names finds what it found before.
\<close>

theorem find_after_create:
  assumes "uinet_ifcreate env cfg s = Inr (0, u, s')" "cfg_alias cfg = Some a" "a \<noteq> []"
  shows "uinet_iffind_byname a (cs_list s') = u \<and> u \<noteq> None \<and>
    (\<forall>n. n \<noteq> a \<and> n \<noteq> uinet_ifgenericname u \<longrightarrow>
       uinet_iffind_byname n (cs_list s') = uinet_iffind_byname n (cs_list s))"
  by (rule find_created [OF assms])

text \<open>
  Destroying an interface by name removes exactly it; its driver leaves the interface
  structure behind, each time.
\<close>

theorem destroy_byname_spec:
  assumes "(config_step sts)\<^sup>*\<^sup>* config_start s" "uinet_iffind_byname ifname (cs_list s) = Some u"
  shows "\<exists>s'. uinet_ifdestroy_byname sts ifname s = Inr (0, s') \<and>
    cs_list s' = remove1 u (cs_list s) \<and> cs_leaked s' = cs_leaked s @ [Ifnet]"
proof -
  have inv: "config_inv sts s" by (rule config_inv_reachable [OF assms(1)])
  have u: "u \<in> set (cs_list s)" using assms(2) by (auto simp: uinet_iffind_byname_def find_Some_iff)
  have d: "distinct (cs_list s)" "inj_on uif_addr (set (cs_list s))"
    using inv by (auto simp: config_inv_def distinct_map)
  have "filter (\<lambda>v. uif_addr v \<noteq> uif_addr u) (cs_list s) = filter ((\<noteq>) u) (cs_list s)"
    using d(2) u by (intro filter_cong) (auto dest: inj_onD)
  also have "\<dots> = remove1 u (cs_list s)" using d(1) by (simp add: distinct_remove1_removeAll removeAll_filter_not_eq)
  finally show ?thesis
    using uinet_ifdestroy_ok [of sts u s] inv u assms(2) by (auto simp: uinet_ifdestroy_byname_def config_inv_def)
qed

text \<open>
  The walk over the list with \<^verbatim>\<open>uinet_ifnext\<close> never ends on a list that is not empty: after
  the last interface comes the first again.
\<close>

theorem ifnext_cycles:
  assumes "distinct (map uif_addr l)" "i < length l"
  shows "uinet_ifnext (Some (l ! i)) l = Some (l ! (Suc i mod length l)) \<and> uinet_ifnext None l = Some (l ! 0)"
proof -
  have next_nth: "tailq_next (uif_addr (l ! i)) l = (if Suc i < length l then Some (l ! Suc i) else None)"
    using assms
  proof (induction l arbitrary: i)
    case (Cons u us)
    show ?case
    proof (cases i)
      case 0
      then show ?thesis by (cases us) auto
    next
      case (Suc j)
      then have "j < length us" using Cons.prems by simp
      then have "uif_addr (us ! j) \<in> set (map uif_addr us)" by simp
      then have "uif_addr u \<noteq> uif_addr (us ! j)" using Cons.prems by auto
      then show ?thesis using Suc Cons.IH [of j] Cons.prems by simp
    qed
  qed simp
  show ?thesis
    using assms(2) next_nth by (cases l) (auto simp: uinet_ifnext_def Let_def mod_Suc split: if_splits)
qed

section \<open>Instances\<close>

definition config_demo :: "nat \<Rightarrow> config_env" where
  "config_demo a = \<lparr>ce_new = Some a, ce_sts = False, ce_created_cb_ok = True,
     ce_attach = attach_demo\<lparr>at_rx_thread_ok := True\<rparr>\<rparr>"

definition cfg_demo :: "string \<Rightarrow> uinet_if_cfg" where
  "cfg_demo al = \<lparr>cfg_type = UINET_IFTYPE_DPDK, cfg_configstr = Some ''eth0'', cfg_alias = Some al,
     cfg_rx_cpu = 2, cfg_tx_cpu = 2, cfg_rx_batch_size = 2, cfg_tx_inject_queue_len = 4,
     cfg_timestamp_mode = TS_NONE, cfg_type_cfg = if_dpdk_default_config\<rparr>"

text \<open>Attaching with the outcomes of the instance succeeds.\<close>

lemma attach_demo_ok:
  "\<exists>sc st. if_dpdk_attach (uif_attach_env (config_demo a) (new_uif (config_demo a) (cfg_demo al) a count))
     (driver_state [] count) = Inr (0, Some sc, st) \<and> as_interface_count st = count + 1"
  by (simp add: if_dpdk_attach_def attach_demo_def attach_rest_def if_dpdk_process_configstr_def
      if_dpdk_extract_ifname_def FILE_PREFIX_def uinet_pd_ring_alloc_def attach_setup_def
      if_dpdk_setup_interface_def attach_simps Let_def uif_attach_env_def config_demo_def new_uif_def
      cfg_demo_def driver_state_def)

lemma create_demo:
  assumes "length al < IF_NAMESIZE" "al \<noteq> []" "uinet_iffind_byname al (cs_list s) = None"
  shows "\<exists>u s'. uinet_ifcreate (config_demo a) (cfg_demo al) s = Inr (0, Some u, s') \<and>
     cs_list s' = cs_list s @ [u] \<and> uif_alias u = al \<and> uif_name u = if_dpdk_name (cs_interface_count s) \<and>
     cs_interface_count s' = cs_interface_count s + 1 \<and> uif_addr u = a"
proof -
  obtain sc st where st: "if_dpdk_attach (uif_attach_env (config_demo a) (new_uif (config_demo a) (cfg_demo al) a (cs_interface_count s)))
     (driver_state [] (cs_interface_count s)) = Inr (0, Some sc, st)" "as_interface_count st = cs_interface_count s + 1"
    using attach_demo_ok by blast
  then show ?thesis
    using assms by (simp add: uinet_ifcreate_def Let_def cfg_demo_def [of al] config_demo_def [of a] new_uif_def
        split del: if_split) 
qed

lemma config_demo_simps [simp]: "ce_sts (config_demo a) = False" "ce_new (config_demo a) = Some a"
  "cfg_alias (cfg_demo al) = Some al"
  by (simp_all add: config_demo_def cfg_demo_def)

lemma first_demo:
  obtains u s where "uinet_ifcreate (config_demo 1) (cfg_demo ''dpdk1'') config_start = Inr (0, Some u, s)"
    "cs_list s = [u]" "uif_alias u = ''dpdk1''" "uif_name u = if_dpdk_name 0" "cs_interface_count s = 1"
    "uif_addr u = 1" "(config_step False)\<^sup>*\<^sup>* config_start s"
proof -
  have "uinet_iffind_byname ''dpdk1'' (cs_list config_start) = None"
    by (simp add: uinet_iffind_byname_def config_start_def)
  then obtain u s where c: "uinet_ifcreate (config_demo 1) (cfg_demo ''dpdk1'') config_start = Inr (0, Some u, s)"
      "cs_list s = [u]" "uif_alias u = ''dpdk1''" "uif_name u = if_dpdk_name 0" "cs_interface_count s = 1"
      "uif_addr u = 1"
    using create_demo [of "''dpdk1''" config_start 1] by (auto simp: IF_NAMESIZE_def config_start_def)
  moreover have "config_step False config_start s"
    by (rule config_step.create [OF c(1)]) (simp_all add: config_start_def)
  ultimately show ?thesis using that by blast
qed

text \<open>
  A generic name that the driver assigns later can equal the alias of an older
  interface, which then hides the new one from every lookup by that name.
\<close>

theorem alias_shadows_generic_name:
  "\<exists>u s v s'. uinet_ifcreate (config_demo 1) (cfg_demo ''dpdk1'') config_start = Inr (0, Some u, s) \<and>
     uinet_ifcreate (config_demo 2) (cfg_demo ''b'') s = Inr (0, Some v, s') \<and>
     uinet_ifgenericname (Some v) = ''dpdk1'' \<and> uinet_iffind_byname ''dpdk1'' (cs_list s') = Some u \<and> u \<noteq> v"
proof -
  have d: "if_dpdk_name 0 = ''dpdk0''" "if_dpdk_name 1 = ''dpdk1''"
    by (simp_all add: if_dpdk_name_def digit_def char_of_def bit_0)
  obtain u s where u: "uinet_ifcreate (config_demo 1) (cfg_demo ''dpdk1'') config_start = Inr (0, Some u, s)"
    "cs_list s = [u]" "uif_alias u = ''dpdk1''" "uif_name u = if_dpdk_name 0" "cs_interface_count s = 1"
    "uif_addr u = 1"
    using first_demo by blast
  have "uinet_iffind_byname ''b'' (cs_list s) = None" using u d by (simp add: uinet_iffind_byname_def)
  then obtain v s' where v: "uinet_ifcreate (config_demo 2) (cfg_demo ''b'') s = Inr (0, Some v, s')"
      "cs_list s' = [u, v]" "uif_name v = ''dpdk1''" "uif_addr v = 2"
    using create_demo [of "''b''" s 2] u d by (auto simp: IF_NAMESIZE_def)
  then show ?thesis using u by (auto simp: uinet_iffind_byname_def uinet_ifgenericname_def)
qed

theorem config_names_unique_witness:
  "\<exists>s u. (config_step False)\<^sup>*\<^sup>* config_start s \<and> u \<in> set (cs_list s) \<and> (\<exists>s'. uinet_ifdestroy False u s = Inr (0, s'))"
proof -
  obtain u s where "cs_list s = [u]" "(config_step False)\<^sup>*\<^sup>* config_start s" using first_demo by blast
  then show ?thesis using config_names_unique [of False s] by auto
qed

theorem find_after_create_witness:
  "\<exists>u s. uinet_ifcreate (config_demo 1) (cfg_demo ''dpdk1'') config_start = Inr (0, Some u, s) \<and>
     uinet_iffind_byname ''dpdk1'' (cs_list s) = Some u"
proof -
  obtain u s where u: "uinet_ifcreate (config_demo 1) (cfg_demo ''dpdk1'') config_start = Inr (0, Some u, s)"
    using first_demo by blast
  then show ?thesis using find_after_create [OF u, of "''dpdk1''"] by auto
qed

theorem destroy_byname_spec_witness:
  "\<exists>s s'. (config_step False)\<^sup>*\<^sup>* config_start s \<and> cs_list s \<noteq> [] \<and>
     uinet_ifdestroy_byname False ''dpdk1'' s = Inr (0, s') \<and> cs_list s' = []"
proof -
  obtain u s where u: "cs_list s = [u]" "uif_alias u = ''dpdk1''" "(config_step False)\<^sup>*\<^sup>* config_start s"
    using first_demo by blast
  then have "uinet_iffind_byname ''dpdk1'' (cs_list s) = Some u" by (simp add: uinet_iffind_byname_def)
  from destroy_byname_spec [OF u(3) this] show ?thesis using u by auto
qed

theorem ifnext_cycles_witness:
  "uinet_ifnext (Some (new_uif (config_demo 1) (cfg_demo ''a'') 1 0)) [new_uif (config_demo 1) (cfg_demo ''a'') 1 0] =
   Some (new_uif (config_demo 1) (cfg_demo ''a'') 1 0)"
  using ifnext_cycles [of "[new_uif (config_demo 1) (cfg_demo ''a'') 1 0]" 0] by simp

end
