(* ===== verification/Ud_Ifconfig.thy ===== *)
theory Ud_Ifconfig
  imports Uinet_Config
begin

text \<open>
  Setting up an interface, \<^verbatim>\<open>ud_ifsetup\<close> of \<^verbatim>\<open>src/lib/libudif/ud_ifconfig.c\<close>, with the routines
  of \<^verbatim>\<open>src/lib/libuinet/uinet_api.c\<close> that bring an interface up and give it an address. The
  kernel's \<^verbatim>\<open>socreate\<close>, \<^verbatim>\<open>ifioctl\<close> and \<^verbatim>\<open>soclose\<close> are parameters.
\<close>

unbundle bit_operations_syntax

section \<open>Configuring through a socket\<close>

text \<open>An address that is left to the stack has length zero: \<open>None\<close>.\<close>

record in_aliasreq =
  ifra_name :: string
  ifra_addr :: "u8 list"
  ifra_broadaddr :: "u8 list option"
  ifra_mask :: "u8 list option"

record 'w kern_ops =
  ko_init :: "'w \<Rightarrow> 'w"
  ko_socreate :: "'w \<Rightarrow> int \<times> 'w"
  ko_siocgifflags :: "string \<Rightarrow> 'w \<Rightarrow> (int \<times> u16 \<times> u16) \<times> 'w"
  ko_siocsifflags :: "string \<Rightarrow> u16 \<Rightarrow> u16 \<Rightarrow> 'w \<Rightarrow> int \<times> 'w"
  ko_siocaifaddr :: "in_aliasreq \<Rightarrow> 'w \<Rightarrow> int \<times> 'w"
  ko_siocifcreate :: "string \<Rightarrow> 'w \<Rightarrow> int \<times> 'w"
  ko_soclose :: "'w \<Rightarrow> 'w"

definition IFF_UP :: u16 where "IFF_UP = 1"
definition IFF_PPROMISC :: u32 where "IFF_PPROMISC = 0x20000"
definition IFF_PROMISCINET :: u32 where "IFF_PROMISCINET = 0x800000"

text \<open>The result is the error, and the name in the request.\<close>

definition uinet_ifconfig_begin :: "'w kern_ops \<Rightarrow> uinet_if list \<Rightarrow> string \<Rightarrow> 'w \<Rightarrow> (int + string) \<times> 'w" where
  "uinet_ifconfig_begin ops l name w =
     (case uinet_iffind_byname name l of
        None \<Rightarrow> (Inl UINET_EINVAL, w)
      | Some uif \<Rightarrow>
          (let (error, w) = ko_socreate ops w in
           if error \<noteq> 0 then (Inl error, w) else (Inr (take (IF_NAMESIZE - 1) (uif_name uif)), w)))"

text \<open>\<^verbatim>\<open>inet_pton(AF_INET, ...)\<close> of a string that must not be null, and of one that may be empty.\<close>

definition opt_addr :: "string option \<Rightarrow> u8 list option option" where
  "opt_addr s = (case s of None \<Rightarrow> Some None
     | Some s \<Rightarrow> if s = [] then Some None else map_option Some (inet_pton4 s))"

definition uinet_interface_add_alias ::
  "'w kern_ops \<Rightarrow> uinet_if list \<Rightarrow> string \<Rightarrow> string option \<Rightarrow> string option \<Rightarrow> string option \<Rightarrow> 'w \<Rightarrow> (int \<times> 'w) res"
where
  "uinet_interface_add_alias ops l name addr braddr netmask w =
     (let (r, w) = uinet_ifconfig_begin ops l name w in
      case r of Inl error \<Rightarrow> Inr (error, w)
      | Inr ifname \<Rightarrow>
          res_bind (deref addr) (\<lambda>addr.
          let (error, w) =
            (case inet_pton4 addr of None \<Rightarrow> (UINET_EAFNOSUPPORT, w)
             | Some a \<Rightarrow>
               (case opt_addr braddr of None \<Rightarrow> (UINET_EAFNOSUPPORT, w)
                | Some b \<Rightarrow>
                  (case opt_addr netmask of None \<Rightarrow> (UINET_EAFNOSUPPORT, w)
                   | Some m \<Rightarrow>
                       ko_siocaifaddr ops \<lparr>ifra_name = ifname, ifra_addr = a, ifra_broadaddr = b, ifra_mask = m\<rparr> w)))
          in Inr (error, ko_soclose ops w)))"

definition uinet_interface_create :: "'w kern_ops \<Rightarrow> uinet_if list \<Rightarrow> string \<Rightarrow> 'w \<Rightarrow> int \<times> 'w" where
  "uinet_interface_create ops l name w =
     (let (r, w) = uinet_ifconfig_begin ops l name w in
      case r of Inl error \<Rightarrow> (error, w)
      | Inr ifname \<Rightarrow> let (error, w) = ko_siocifcreate ops ifname w in (error, ko_soclose ops w))"

definition uinet_interface_up ::
  "'w kern_ops \<Rightarrow> uinet_if list \<Rightarrow> string \<Rightarrow> bool \<Rightarrow> bool \<Rightarrow> 'w \<Rightarrow> int \<times> 'w" where
  "uinet_interface_up ops l name promisc promiscinet w =
     (let (r, w) = uinet_ifconfig_begin ops l name w in
      case r of Inl error \<Rightarrow> (error, w)
      | Inr ifname \<Rightarrow>
          let ((error, lo, hi), w) = ko_siocgifflags ops ifname w;
              (error, w) =
                (if error = 0 then
                   let lo = lo OR IFF_UP;
                       hi = (if promisc then hi OR ucast (drop_bit 16 IFF_PPROMISC) else hi);
                       hi = (if promiscinet then hi OR ucast (drop_bit 16 IFF_PROMISCINET) else hi)
                   in ko_siocsifflags ops ifname lo hi w
                 else (error, w))
          in (error, ko_soclose ops w))"

section \<open>Setting up an interface\<close>

record ud_ifcfg =
  ud_name :: string
  ud_addr :: "string option"
  ud_mask :: "string option"
  ud_broadcast :: "string option"

text \<open>
  The table \<^verbatim>\<open>ud_ifs\<close>, the counter \<^verbatim>\<open>udif_count\<close>, which nothing changes, the interfaces, the
  kernel, and the number of listener threads started.
\<close>

definition MAX_UDIF :: nat where "MAX_UDIF = 16"

record 'w udif_state =
  ud_ifs :: "(ud_ifcfg \<times> uinet_if option) option list"
  udif_count :: nat
  ud_config :: config_state
  ud_kern :: 'w
  ud_listeners :: nat

definition udif_getuif :: "'w udif_state \<Rightarrow> string \<Rightarrow> uinet_if option" where
  "udif_getuif st ethname = (case ud_ifs st ! 0 of None \<Rightarrow> None | Some (_, uif) \<Rightarrow> uif)"

text \<open>
  \<open>junk\<close> is what the local variable \<^verbatim>\<open>ifcfg\<close> holds before it is set; \<^verbatim>\<open>uinet_default_cfg\<close>,
  \<^verbatim>\<open>uinet_init\<close> and \<^verbatim>\<open>uinet_install_sighandlers\<close> are \<open>ko_init\<close>.
\<close>

definition ud_ifsetup ::
  "'w kern_ops \<Rightarrow> type_table \<Rightarrow> config_env \<Rightarrow> uinet_if_cfg \<Rightarrow> ud_ifcfg \<Rightarrow> 'w udif_state \<Rightarrow> (int \<times> 'w udif_state) res"
where
  "ud_ifsetup ops tbl env junk param st =
     (let w = ko_init ops (ud_kern st);
          ifcfg = (uinet_if_default_config tbl UINET_IFTYPE_DPDK junk)\<lparr>cfg_configstr := Some (ud_name param),
                    cfg_alias := Some (ud_name param)\<rparr>
      in
      res_bind (uinet_ifcreate env ifcfg (ud_config st)) (\<lambda>(error, uif, cs).
      res_bind
        (if error \<noteq> 0 then Inr (error, ud_ifs st, w)
         else
           let (_, w) = uinet_interface_up ops (cs_list cs) (ud_name param) True False w in
           res_bind (uinet_interface_add_alias ops (cs_list cs) (ud_name param) (ud_addr param) (ud_broadcast param)
                       (ud_mask param) w) (\<lambda>(error, w).
           if udif_count st < length (ud_ifs st) then Inr (error, (ud_ifs st)[udif_count st := Some (param, uif)], w)
           else Inl Out_of_bounds))
        (\<lambda>(error, ifs, w).
          Inr (error, st\<lparr>ud_ifs := ifs, ud_config := cs, ud_kern := w, ud_listeners := Suc (ud_listeners st)\<rparr>))))"

text \<open>A body without a \<^verbatim>\<open>return\<close> statement.\<close>

definition ud_ifclose :: "string \<Rightarrow> int res" where
  "ud_ifclose eth = Inl No_return_value"

section \<open>Lemmas\<close>

lemma if_dpdk_name_length: "length (if_dpdk_name i) < IF_NAMESIZE"
  using dec_length [of "unat i" 10] u32_bound [of i] by (simp add: if_dpdk_name_def IF_NAMESIZE_def)

text \<open>Opening the configuration socket for an interface that was just created.\<close>

lemma ifconfig_begin_created:
  assumes "uinet_ifcreate env cfg s = Inr (0, Some u, s')" "cfg_alias cfg = Some a" "a \<noteq> []"
    "ko_socreate ops w = (0, w')"
  shows "uinet_ifconfig_begin ops (cs_list s') a w = (Inr (uif_name u), w')"
proof -
  have "uif_name u = if_dpdk_name (cs_interface_count s)"
    using uinet_ifcreate_ok [OF assms(1)] by auto
  then have "take (IF_NAMESIZE - 1) (uif_name u) = uif_name u"
    using if_dpdk_name_length [of "cs_interface_count s"] by simp
  then show ?thesis
    using find_created [OF assms(1-3)] assms(4) by (simp add: uinet_ifconfig_begin_def)
qed

section \<open>Properties\<close>


section \<open>Instances\<close>

text \<open>A kernel that logs the requests it receives and refuses to bring interfaces up.\<close>

definition log_kern :: "string list kern_ops" where
  "log_kern = \<lparr>ko_init = (\<lambda>w. w), ko_socreate = Pair 0, ko_siocgifflags = (\<lambda>_ w. ((0, 0, 0), w)),
     ko_siocsifflags = (\<lambda>n _ _ w. (UINET_EINVAL, w @ [n])), ko_siocaifaddr = (\<lambda>r w. (0, w @ [ifra_name r])),
     ko_siocifcreate = (\<lambda>_. Pair 0), ko_soclose = (\<lambda>w. w)\<rparr>"

definition udif_demo :: "string list udif_state" where
  "udif_demo = \<lparr>ud_ifs = replicate MAX_UDIF None, udif_count = 0, ud_config = config_start, ud_kern = [],
     ud_listeners = 0\<rparr>"

definition ifcfg_demo :: ud_ifcfg where
  "ifcfg_demo = \<lparr>ud_name = ''eth0'', ud_addr = Some (dotted [10, 0, 0, 1]), ud_mask = None, ud_broadcast = None\<rparr>"


end
