(* ===== verification/Tcp_Seq.thy ===== *)
theory Tcp_Seq
  imports Prelude
begin

text \<open>
  Sequence numbers of TCP, \<^verbatim>\<open>src/sys/netinet/tcp_seq.h\<close>: 32-bit numbers that are compared
  through the sign of their difference. The comparisons are an order only between numbers
  that lie within half of the number space of each other; the locale \<open>ranked_order\<close> states
  what its clients use, and the comparisons of the code satisfy it in every window.
\<close>

type_synonym tcp_seq = u32

section \<open>The comparisons\<close>

definition SEQ_LT :: "tcp_seq \<Rightarrow> tcp_seq \<Rightarrow> bool" where "SEQ_LT a b \<longleftrightarrow> a - b <s 0"
definition SEQ_LEQ :: "tcp_seq \<Rightarrow> tcp_seq \<Rightarrow> bool" where "SEQ_LEQ a b \<longleftrightarrow> a - b \<le>s 0"
definition SEQ_GT :: "tcp_seq \<Rightarrow> tcp_seq \<Rightarrow> bool" where "SEQ_GT a b \<longleftrightarrow> 0 <s a - b"
definition SEQ_GEQ :: "tcp_seq \<Rightarrow> tcp_seq \<Rightarrow> bool" where "SEQ_GEQ a b \<longleftrightarrow> 0 \<le>s a - b"

definition SEQ_MIN :: "tcp_seq \<Rightarrow> tcp_seq \<Rightarrow> tcp_seq" where
  "SEQ_MIN a b = (if SEQ_LT a b then a else b)"

definition SEQ_MAX :: "tcp_seq \<Rightarrow> tcp_seq \<Rightarrow> tcp_seq" where
  "SEQ_MAX a b = (if SEQ_GT a b then a else b)"

section \<open>The interface of the comparisons\<close>

locale ranked_order =
  fixes inside :: "'s \<Rightarrow> bool" and rank :: "'s \<Rightarrow> nat"
    and lt leq gt geq :: "'s \<Rightarrow> 's \<Rightarrow> bool" and mn mx :: "'s \<Rightarrow> 's \<Rightarrow> 's"
  assumes lt_rank: "inside a \<Longrightarrow> inside b \<Longrightarrow> lt a b \<longleftrightarrow> rank a < rank b"
    and leq_rank: "inside a \<Longrightarrow> inside b \<Longrightarrow> leq a b \<longleftrightarrow> rank a \<le> rank b"
    and gt_rank: "inside a \<Longrightarrow> inside b \<Longrightarrow> gt a b \<longleftrightarrow> rank b < rank a"
    and geq_rank: "inside a \<Longrightarrow> inside b \<Longrightarrow> geq a b \<longleftrightarrow> rank b \<le> rank a"
    and mn_def: "mn a b = (if lt a b then a else b)"
    and mx_def: "mx a b = (if gt a b then a else b)"
begin

lemmas ranks = lt_rank leq_rank gt_rank geq_rank

lemma mn_inside: "inside a \<Longrightarrow> inside b \<Longrightarrow> inside (mn a b)"
  by (simp add: mn_def)

lemma mx_inside: "inside a \<Longrightarrow> inside b \<Longrightarrow> inside (mx a b)"
  by (simp add: mx_def)

lemma mn_rank: "inside a \<Longrightarrow> inside b \<Longrightarrow> rank (mn a b) = min (rank a) (rank b)"
  by (simp add: mn_def lt_rank)

lemma mx_rank: "inside a \<Longrightarrow> inside b \<Longrightarrow> rank (mx a b) = max (rank a) (rank b)"
  by (simp add: mx_def gt_rank)

end

section \<open>Windows\<close>

text \<open>The distance of a number from the base of a window, and the half of the space above it.\<close>

definition off :: "tcp_seq \<Rightarrow> tcp_seq \<Rightarrow> nat" where "off base x = unat (x - base)"

definition in_win :: "tcp_seq \<Rightarrow> tcp_seq \<Rightarrow> bool" where "in_win base x \<longleftrightarrow> off base x < 2 ^ 31"

lemma off_self [simp]: "off b b = 0"
  by (simp add: off_def)

lemma in_win_self [simp]: "in_win b b"
  by (simp add: in_win_def)

lemma off_eq_iff [simp]: "off b x = off b y \<longleftrightarrow> x = y"
  by (metis diff_add_cancel off_def word_unat_eq_iff)

lemma off_diff: "off b y \<le> off b x \<Longrightarrow> unat (x - y) = off b x - off b y"
proof -
  assume "off b y \<le> off b x"
  moreover have "x - y = (x - b) - (y - b)" by simp
  ultimately show ?thesis unfolding off_def by (metis unat_sub word_le_nat_alt)
qed

lemma diff_off:
  assumes "in_win b x" "in_win b y"
  shows "unat (x - y) = (if off b y \<le> off b x then off b x - off b y else off b x + 2 ^ 32 - off b y)"
proof -
  have "x - y = (x - b) - (y - b)" by simp
  then show ?thesis unfolding off_def by (metis u32_minus)
qed

lemma SEQ_sint:
  assumes "in_win b x" "in_win b y"
  shows "sint (x - y) = int (off b x) - int (off b y)"
  using assms diff_off [OF assms] by (auto simp: u32_sint in_win_def split: if_splits)

interpretation seq: ranked_order "in_win b" "off b" SEQ_LT SEQ_LEQ SEQ_GT SEQ_GEQ SEQ_MIN SEQ_MAX for b
  by unfold_locales
     (auto simp: SEQ_LT_def SEQ_LEQ_def SEQ_GT_def SEQ_GEQ_def SEQ_MIN_def SEQ_MAX_def word_sless_alt
        word_sle_eq SEQ_sint)

lemmas seq_simps = seq.ranks seq.mn_rank seq.mx_rank seq.mn_inside seq.mx_inside

section \<open>Properties\<close>

text \<open>
  Within a window of half the number space, wherever it lies and even where it wraps
  around zero, the comparisons of sequence numbers agree with the distances from its base.
\<close>

theorem seq_compare_in_window:
  assumes "in_win b x" "in_win b y"
  shows "(SEQ_LT x y \<longleftrightarrow> off b x < off b y) \<and> (SEQ_LEQ x y \<longleftrightarrow> off b x \<le> off b y) \<and>
    (SEQ_GT x y \<longleftrightarrow> SEQ_LT y x) \<and> (SEQ_GEQ x y \<longleftrightarrow> SEQ_LEQ y x) \<and>
    off b (SEQ_MIN x y) = min (off b x) (off b y) \<and> off b (SEQ_MAX x y) = max (off b x) (off b y)"
  using assms by (simp add: seq_simps)

theorem seq_compare_in_window_witness:
  "SEQ_LT 0xfffffff0 0x10 \<and> SEQ_MAX 0xfffffff0 0x10 = 0x10"
proof -
  have w: "in_win 0xfffffff0 0xfffffff0" "in_win 0xfffffff0 0x10" "off 0xfffffff0 0x10 = 32"
    by (simp_all add: in_win_def off_def)
  show ?thesis using seq_compare_in_window [OF w(1,2)] w(3) by (metis max_def off_eq_iff off_self zero_le zero_less_numeral)
qed

end
