(* ===== verification/Tcp_Sack_Rcv.thy ===== *)
theory Tcp_Sack_Rcv
  imports Tcp_Seq
begin

text \<open>
  The receiver's side of selective acknowledgement, \<^verbatim>\<open>tcp_update_sack_list\<close> and
  \<^verbatim>\<open>tcp_clean_sackreport\<close> of \<^verbatim>\<open>src/sys/netinet/tcp_sack.c\<close>: the list of blocks of data received
  out of order that is reported to the sender.
\<close>

section \<open>Blocks\<close>

record sackblk =
  blk_start :: tcp_seq
  blk_end :: tcp_seq

definition MAX_SACK_BLKS :: nat where "MAX_SACK_BLKS = 6"

text \<open>The valid entries of \<^verbatim>\<open>tp->sackblks\<close>, \<^verbatim>\<open>rcv_numsacks\<close> of them, and \<^verbatim>\<open>rcv_nxt\<close>.\<close>

record sack_rcv =
  rcv_nxt :: tcp_seq
  sackblks :: "sackblk list"

text \<open>The loop: the block being built, and the blocks saved.\<close>

fun merge_blks :: "tcp_seq \<Rightarrow> sackblk list \<Rightarrow> sackblk \<Rightarrow> sackblk list \<Rightarrow> sackblk \<times> sackblk list" where
  "merge_blks nxt [] head_blk saved = (head_blk, saved)"
| "merge_blks nxt (blk # blks) head_blk saved =
     (if SEQ_GEQ (blk_start blk) (blk_end blk) \<or> SEQ_LEQ (blk_start blk) nxt then merge_blks nxt blks head_blk saved
      else if SEQ_LEQ (blk_start head_blk) (blk_end blk) \<and> SEQ_GEQ (blk_end head_blk) (blk_start blk) then
        let head_blk = (if SEQ_GT (blk_start head_blk) (blk_start blk)
                        then head_blk\<lparr>blk_start := blk_start blk\<rparr> else head_blk);
            head_blk = (if SEQ_LT (blk_end head_blk) (blk_end blk)
                        then head_blk\<lparr>blk_end := blk_end blk\<rparr> else head_blk)
        in merge_blks nxt blks head_blk saved
      else merge_blks nxt blks head_blk (saved @ [blk]))"

definition tcp_update_sack_list :: "sack_rcv \<Rightarrow> tcp_seq \<Rightarrow> tcp_seq \<Rightarrow> sack_rcv" where
  "tcp_update_sack_list tp rcv_start rcv_end =
     (let (head_blk, saved) =
            merge_blks (rcv_nxt tp) (sackblks tp) \<lparr>blk_start = rcv_start, blk_end = rcv_end\<rparr> []
      in
      tp\<lparr>sackblks :=
        (if SEQ_GT (blk_start head_blk) (rcv_nxt tp)
         then head_blk # (if length saved \<ge> MAX_SACK_BLKS then butlast saved else saved)
         else saved)\<rparr>)"

definition tcp_clean_sackreport :: "sack_rcv \<Rightarrow> sack_rcv" where
  "tcp_clean_sackreport tp = tp\<lparr>sackblks := []\<rparr>"

section \<open>What the list means\<close>

text \<open>
  The bytes of a block, as distances from the base of a window; a block is good in the
  window when it is not empty; two blocks are apart when they neither overlap nor touch.
\<close>

definition blk_bytes :: "tcp_seq \<Rightarrow> sackblk \<Rightarrow> nat set" where
  "blk_bytes b blk = {off b (blk_start blk) ..< off b (blk_end blk)}"

definition good_blk :: "tcp_seq \<Rightarrow> sackblk \<Rightarrow> bool" where
  "good_blk b blk \<longleftrightarrow> in_win b (blk_start blk) \<and> in_win b (blk_end blk) \<and>
     off b (blk_start blk) < off b (blk_end blk)"

definition apart :: "tcp_seq \<Rightarrow> sackblk \<Rightarrow> sackblk \<Rightarrow> bool" where
  "apart b x y \<longleftrightarrow> off b (blk_end x) < off b (blk_start y) \<or> off b (blk_end y) < off b (blk_start x)"

fun all_apart :: "tcp_seq \<Rightarrow> sackblk list \<Rightarrow> bool" where
  "all_apart b [] = True"
| "all_apart b (x # xs) \<longleftrightarrow> list_all (apart b x) xs \<and> all_apart b xs"

definition bytes :: "tcp_seq \<Rightarrow> sackblk list \<Rightarrow> nat set" where
  "bytes b blks = (\<Union>blk \<in> set blks. blk_bytes b blk)"

text \<open>A report: good blocks above \<^verbatim>\<open>rcv_nxt\<close>, each apart from the others.\<close>

definition good_report :: "tcp_seq \<Rightarrow> tcp_seq \<Rightarrow> sackblk list \<Rightarrow> bool" where
  "good_report b nxt blks \<longleftrightarrow> list_all (\<lambda>blk. good_blk b blk \<and> off b nxt < off b (blk_start blk)) blks \<and>
     all_apart b blks"

section \<open>Lemmas\<close>

lemma apart_sym: "apart b x y \<longleftrightarrow> apart b y x"
  by (auto simp: apart_def)

lemma all_apart_append [simp]:
  "all_apart b (xs @ ys) \<longleftrightarrow> all_apart b xs \<and> all_apart b ys \<and> (\<forall>x \<in> set xs. list_all (apart b x) ys)"
  by (induction xs) (auto simp: list_all_iff)

lemma bytes_simps [simp]: "bytes b [] = {}" "bytes b (x # xs) = blk_bytes b x \<union> bytes b xs"
  "bytes b (xs @ ys) = bytes b xs \<union> bytes b ys"
  by (auto simp: bytes_def)

text \<open>
  Merging. The new block touches some blocks of a list whose members are apart; the result
  is one block, apart from all that were saved, and nothing is lost. Blocks at or below
  \<^verbatim>\<open>rcv_nxt\<close> do not occur.
\<close>

definition touches :: "tcp_seq \<Rightarrow> sackblk \<Rightarrow> sackblk \<Rightarrow> bool" where
  "touches b x y \<longleftrightarrow> off b (blk_start x) \<le> off b (blk_end y) \<and> off b (blk_start y) \<le> off b (blk_end x)"

definition join :: "sackblk \<Rightarrow> sackblk \<Rightarrow> sackblk" where
  "join x y = \<lparr>blk_start = SEQ_MIN (blk_start y) (blk_start x), blk_end = SEQ_MAX (blk_end y) (blk_end x)\<rparr>"

lemma join_simps:
  assumes "good_blk b x" "good_blk b y"
  shows "off b (blk_start (join x y)) = min (off b (blk_start x)) (off b (blk_start y))"
    "off b (blk_end (join x y)) = max (off b (blk_end x)) (off b (blk_end y))"
    "good_blk b (join x y)"
  using assms by (auto simp: join_def good_blk_def seq_simps)

lemma join_bytes:
  assumes "good_blk b x" "good_blk b y" "touches b x y"
  shows "blk_bytes b (join x y) = blk_bytes b x \<union> blk_bytes b y"
  using assms unfolding blk_bytes_def join_simps [OF assms(1,2)] touches_def good_blk_def by auto

lemma apart_join:
  assumes "good_blk b x" "good_blk b y" "good_blk b z" "touches b x y" "apart b z x" "apart b z y"
  shows "apart b z (join x y)"
  using assms unfolding apart_def join_simps [OF assms(1,2)] touches_def good_blk_def by linarith

lemma not_touches: "good_blk b x \<Longrightarrow> good_blk b y \<Longrightarrow> \<not> touches b x y \<longleftrightarrow> apart b x y"
  by (auto simp: touches_def apart_def good_blk_def)

text \<open>One turn of the loop on a good block above \<^verbatim>\<open>rcv_nxt\<close>.\<close>

lemma merge_blks_step:
  assumes "good_blk b blk" "good_blk b head_blk" "in_win b nxt" "off b nxt < off b (blk_start blk)"
  shows "merge_blks nxt (blk # blks) head_blk saved =
    (if touches b head_blk blk then merge_blks nxt blks (join head_blk blk) saved
     else merge_blks nxt blks head_blk (saved @ [blk]))"
proof -
  have "\<not> (SEQ_GEQ (blk_start blk) (blk_end blk) \<or> SEQ_LEQ (blk_start blk) nxt)"
    using assms by (auto simp: good_blk_def seq_simps)
  moreover have "SEQ_LEQ (blk_start head_blk) (blk_end blk) \<and> SEQ_GEQ (blk_end head_blk) (blk_start blk) \<longleftrightarrow>
      touches b head_blk blk"
    using assms by (auto simp: good_blk_def seq_simps touches_def)
  moreover have "(let h = (if SEQ_GT (blk_start head_blk) (blk_start blk)
                        then head_blk\<lparr>blk_start := blk_start blk\<rparr> else head_blk)
            in if SEQ_LT (blk_end h) (blk_end blk) then h\<lparr>blk_end := blk_end blk\<rparr> else h) = join head_blk blk"
    using assms by (cases head_blk) (auto simp: good_blk_def seq_simps join_def SEQ_MIN_def SEQ_MAX_def not_less
        dest: le_neq_implies_less)
  ultimately show ?thesis by (simp add: Let_def)
qed

lemma merge_blks_spec:
  assumes "good_report b nxt (saved @ blks)" "good_blk b head_blk" "in_win b nxt"
    "list_all (apart b head_blk) saved" "merge_blks nxt blks head_blk saved = (h, sv)"
  shows "good_blk b h \<and> blk_bytes b head_blk \<subseteq> blk_bytes b h \<and> good_report b nxt sv \<and>
    list_all (apart b h) sv \<and> bytes b sv \<union> blk_bytes b h = bytes b (saved @ blks) \<union> blk_bytes b head_blk \<and>
    length sv \<le> length (saved @ blks) \<and>
    (off b nxt < off b (blk_start head_blk) \<longrightarrow> off b nxt < off b (blk_start h)) \<and>
    set sv \<subseteq> set (saved @ blks)"
  using assms
proof (induction blks arbitrary: head_blk saved)
  case Nil
  then show ?case by auto
next
  case (Cons blk blks)
  have g: "good_blk b blk" "off b nxt < off b (blk_start blk)"
    using Cons.prems(1) by (auto simp: good_report_def)
  note step = merge_blks_step [OF g(1) Cons.prems(2,3) g(2), of blks saved]
  show ?case
  proof (cases "touches b head_blk blk")
    case True
    let ?j = "join head_blk blk"
    note j = join_simps [OF Cons.prems(2) g(1)] join_bytes [OF Cons.prems(2) g(1) True]
    have good: "good_report b nxt (saved @ blks)"
      using Cons.prems(1) by (auto simp: good_report_def list_all_iff)
    have "list_all (apart b ?j) saved"
      using Cons.prems(1,4) apart_join [OF Cons.prems(2) g(1) _ True]
      by (auto simp: list_all_iff good_report_def apart_sym [of b ?j] apart_sym [of b head_blk])
    then show ?thesis
      using Cons.IH [OF good j(3) Cons.prems(3)] Cons.prems(5) step True j g(2) by (auto split: if_splits)
  next
    case False
    then have "apart b head_blk blk" using not_touches [OF Cons.prems(2) g(1)] by simp
    then show ?thesis
      using Cons.IH [of "saved @ [blk]" head_blk] Cons.prems step False by auto
  qed
qed

section \<open>Properties\<close>

text \<open>
  C16. A segment received out of order. The report stays a list of at most six blocks, good
  and apart from each other; the first block holds the new segment and everything that
  touches it; and the bytes reported are those reported before and those of the segment,
  except that with six other blocks the last of them is dropped. The window may lie anywhere
  in the number space.
\<close>

theorem tcp_update_sack_list_spec:
  assumes "good_report b (rcv_nxt tp) (sackblks tp)" "length (sackblks tp) \<le> MAX_SACK_BLKS"
    "in_win b (rcv_nxt tp)" "in_win b rcv_start" "in_win b rcv_end"
    "off b (rcv_nxt tp) < off b rcv_start" "off b rcv_start < off b rcv_end"
  shows "\<exists>head_blk rest dropped. sackblks (tcp_update_sack_list tp rcv_start rcv_end) = head_blk # rest \<and>
    {off b rcv_start ..< off b rcv_end} \<subseteq> blk_bytes b head_blk \<and>
    good_report b (rcv_nxt tp) (head_blk # rest @ dropped) \<and> length (head_blk # rest) \<le> MAX_SACK_BLKS \<and>
    bytes b (head_blk # rest @ dropped) = bytes b (sackblks tp) \<union> {off b rcv_start ..< off b rcv_end} \<and>
    length dropped \<le> 1 \<and> (dropped \<noteq> [] \<longrightarrow> length (head_blk # rest) = MAX_SACK_BLKS)"
proof -
  let ?seg = "\<lparr>blk_start = rcv_start, blk_end = rcv_end\<rparr>"
  obtain h sv where m: "merge_blks (rcv_nxt tp) (sackblks tp) ?seg [] = (h, sv)" by fastforce
  have seg: "good_blk b ?seg" "blk_bytes b ?seg = {off b rcv_start ..< off b rcv_end}"
    using assms by (simp_all add: good_blk_def blk_bytes_def)
  have spec: "good_blk b h" "blk_bytes b ?seg \<subseteq> blk_bytes b h" "good_report b (rcv_nxt tp) sv"
      "list_all (apart b h) sv" "bytes b sv \<union> blk_bytes b h = bytes b (sackblks tp) \<union> blk_bytes b ?seg"
      "length sv \<le> length (sackblks tp)" "off b (rcv_nxt tp) < off b (blk_start h)"
    using merge_blks_spec [OF _ seg(1) assms(3) _ m] assms(1,6) by auto
  then have gt: "SEQ_GT (blk_start h) (rcv_nxt tp)" using assms(3) seq.gt_rank [of b "blk_start h" "rcv_nxt tp"] by (simp add: good_blk_def)
  have good: "good_report b (rcv_nxt tp) (h # sv)"
    using spec by (simp add: good_report_def)
  show ?thesis
  proof (cases "length sv \<ge> MAX_SACK_BLKS")
    case True
    then have n: "sv \<noteq> []" "length sv = MAX_SACK_BLKS" using assms(2) spec(6) by (auto simp: MAX_SACK_BLKS_def)
    have "sackblks (tcp_update_sack_list tp rcv_start rcv_end) = h # butlast sv"
      using m gt True by (simp add: tcp_update_sack_list_def)
    moreover have "h # butlast sv @ [last sv] = h # sv" using n by simp
    ultimately show ?thesis
      using good spec seg n by (intro exI [of _ h] exI [of _ "butlast sv"] exI [of _ "[last sv]"])
        (auto simp: MAX_SACK_BLKS_def simp del: bytes_simps(3))
  next
    case False
    have "sackblks (tcp_update_sack_list tp rcv_start rcv_end) = h # sv"
      using m gt False by (simp add: tcp_update_sack_list_def)
    then show ?thesis
      using good spec seg False by (intro exI [of _ h] exI [of _ sv] exI [of _ "[]"]) auto
  qed
qed

section \<open>Instances\<close>

text \<open>Two blocks across the wrap of the number space; the new segment closes the gap.\<close>

definition sack_demo :: sack_rcv where
  "sack_demo = \<lparr>rcv_nxt = 0xfffffff0, sackblks = [\<lparr>blk_start = 0x20, blk_end = 0x30\<rparr>,
     \<lparr>blk_start = 0xfffffff8, blk_end = 0x8\<rparr>]\<rparr>"

theorem tcp_update_sack_list_spec_witness:
  "good_report 0xfffffff0 (rcv_nxt sack_demo) (sackblks sack_demo) \<and>
   (\<exists>head_blk rest. sackblks (tcp_update_sack_list sack_demo 0x8 0x20) = head_blk # rest \<and>
     {24 ..< 48} \<subseteq> blk_bytes 0xfffffff0 head_blk)"
proof -
  have o: "off 0xfffffff0 0xfffffff8 = 8" "off 0xfffffff0 0x8 = 24" "off 0xfffffff0 0x20 = 48"
    "off 0xfffffff0 0x30 = 64"
    by (simp_all add: off_def)
  have g: "good_report 0xfffffff0 (rcv_nxt sack_demo) (sackblks sack_demo)"
    by (simp add: good_report_def sack_demo_def good_blk_def in_win_def o apart_def)
  show ?thesis
    using tcp_update_sack_list_spec [OF g, of "0x8" "0x20"] g o
    by (auto simp: sack_demo_def in_win_def MAX_SACK_BLKS_def)
qed

end
