(* ===== verification/Tcp_Sack_Snd.thy ===== *)
theory Tcp_Sack_Snd
  imports Tcp_Sack_Rcv "HOL-Library.Multiset"
begin

text \<open>
  The sender's side of selective acknowledgement, \<^verbatim>\<open>src/sys/netinet/tcp_sack.c\<close>: the scoreboard,
  an ordered list of the holes in the data that the receiver has reported, how
  acknowledgements change it, and what is retransmitted next. The zone of holes is a
  parameter.
\<close>

section \<open>State\<close>

record sackhole =
  h_id :: nat
  h_start :: tcp_seq
  h_end :: tcp_seq
  h_rxmit :: tcp_seq

text \<open>The sender's part of \<^verbatim>\<open>struct tcpcb\<close>, with the global counters and the zone.\<close>

record 'z sack_snd =
  snd_una :: tcp_seq
  snd_nxt :: tcp_seq
  snd_max :: tcp_seq
  snd_fack :: tcp_seq
  snd_holes :: "sackhole list"
  snd_numholes :: int
  nexthole :: "nat option"
  sack_bytes_rexmit :: u32
  last_sack_ack :: tcp_seq
  tcp_sack_globalholes :: int
  tcps_sack_sboverflow :: nat
  sack_hole_zone :: 'z

record 'z sack_ops =
  tcp_sack_maxholes :: int
  tcp_sack_globalmaxholes :: int
  hole_zalloc :: "'z \<Rightarrow> nat option \<times> 'z"
  hole_zfree :: "nat \<Rightarrow> 'z \<Rightarrow> 'z"

definition TCP_MAX_SACK :: nat where "TCP_MAX_SACK = 4"

section \<open>Holes\<close>

definition tcp_sackhole_alloc ::
  "'z sack_ops \<Rightarrow> tcp_seq \<Rightarrow> tcp_seq \<Rightarrow> 'z sack_snd \<Rightarrow> sackhole option \<times> 'z sack_snd" where
  "tcp_sackhole_alloc ops st en tp =
     (if snd_numholes tp \<ge> tcp_sack_maxholes ops \<or> tcp_sack_globalholes tp \<ge> tcp_sack_globalmaxholes ops
      then (None, tp\<lparr>tcps_sack_sboverflow := Suc (tcps_sack_sboverflow tp)\<rparr>)
      else
        let (r, z) = hole_zalloc ops (sack_hole_zone tp); tp = tp\<lparr>sack_hole_zone := z\<rparr> in
        case r of None \<Rightarrow> (None, tp)
        | Some i \<Rightarrow> (Some \<lparr>h_id = i, h_start = st, h_end = en, h_rxmit = st\<rparr>,
            tp\<lparr>snd_numholes := snd_numholes tp + 1, tcp_sack_globalholes := tcp_sack_globalholes tp + 1\<rparr>))"

definition tcp_sackhole_free :: "'z sack_ops \<Rightarrow> sackhole \<Rightarrow> 'z sack_snd \<Rightarrow> 'z sack_snd" where
  "tcp_sackhole_free ops hole tp =
     tp\<lparr>sack_hole_zone := hole_zfree ops (h_id hole) (sack_hole_zone tp), snd_numholes := snd_numholes tp - 1,
        tcp_sack_globalholes := tcp_sack_globalholes tp - 1\<rparr>"

text \<open>
  The two routines that change the list: the caller holds the list split at the place, and
  links or unlinks the hole there; \<open>after\<close> is the part of the list behind the removed hole.
\<close>

definition tcp_sackhole_insert ::
  "'z sack_ops \<Rightarrow> tcp_seq \<Rightarrow> tcp_seq \<Rightarrow> 'z sack_snd \<Rightarrow> sackhole option \<times> 'z sack_snd" where
  "tcp_sackhole_insert ops st en tp =
     (let (hole, tp) = tcp_sackhole_alloc ops st en tp in
      case hole of None \<Rightarrow> (None, tp)
      | Some h \<Rightarrow> (Some h, if nexthole tp = None then tp\<lparr>nexthole := Some (h_id h)\<rparr> else tp))"

definition tcp_sackhole_remove ::
  "'z sack_ops \<Rightarrow> sackhole \<Rightarrow> sackhole list \<Rightarrow> 'z sack_snd \<Rightarrow> 'z sack_snd" where
  "tcp_sackhole_remove ops hole after tp =
     (let tp = (if nexthole tp = Some (h_id hole)
                then tp\<lparr>nexthole := (case after of [] \<Rightarrow> None | h # _ \<Rightarrow> Some (h_id h))\<rparr> else tp)
      in tcp_sackhole_free ops hole tp)"

section \<open>Processing acknowledgements\<close>

text \<open>The blocks of the option that are used.\<close>

definition valid_sack :: "'z sack_snd \<Rightarrow> tcp_seq \<Rightarrow> sackblk \<Rightarrow> bool" where
  "valid_sack tp th_ack sack \<longleftrightarrow>
     SEQ_GT (blk_end sack) (blk_start sack) \<and> SEQ_GT (blk_start sack) (snd_una tp) \<and>
     SEQ_GT (blk_start sack) th_ack \<and> SEQ_LT (blk_start sack) (snd_max tp) \<and>
     SEQ_GT (blk_end sack) (snd_una tp) \<and> SEQ_LEQ (blk_end sack) (snd_max tp)"

text \<open>
  The exchange sort by the ends: one pass of the inner loop puts the least into place \<open>i\<close> and
  leaves the rest in the order the exchanges make.
\<close>

fun sort_pass :: "sackblk \<Rightarrow> sackblk list \<Rightarrow> sackblk \<times> sackblk list" where
  "sort_pass x [] = (x, [])"
| "sort_pass x (y # ys) =
     (if SEQ_GT (blk_end x) (blk_end y) then let (m, r) = sort_pass y ys in (m, x # r)
      else let (m, r) = sort_pass x ys in (m, y # r))"

lemma sort_pass_length: "sort_pass x ys = (m, r) \<Longrightarrow> length r = length ys"
  by (induction ys arbitrary: x m r) (auto split: if_splits prod.splits)

function sort_blks :: "sackblk list \<Rightarrow> sackblk list" where
  "sort_blks [] = []"
| "sort_blks (x # xs) = (let (m, r) = sort_pass x xs in m # sort_blks r)"
  by pat_completeness auto
termination by (relation "measure length") (auto dest: sym [THEN sort_pass_length])

text \<open>
  What a block does to a hole it overlaps but does not cover: it moves the start of the hole
  forward, or its end backward, or splits it. The result is the hole, and the hole behind it
  when there is a new one.
\<close>

definition ack_hole ::
  "'z sack_ops \<Rightarrow> sackblk \<Rightarrow> sackhole \<Rightarrow> 'z sack_snd \<Rightarrow> (sackhole \<times> sackhole list) \<times> 'z sack_snd" where
  "ack_hole ops blk cur tp =
     (if SEQ_LEQ (blk_start blk) (h_start cur) then
        ((cur\<lparr>h_start := blk_end blk, h_rxmit := SEQ_MAX (h_rxmit cur) (blk_end blk)\<rparr>, []), tp)
      else if SEQ_GEQ (blk_end blk) (h_end cur) then
        ((cur\<lparr>h_end := blk_start blk, h_rxmit := SEQ_MIN (h_rxmit cur) (blk_start blk)\<rparr>, []), tp)
      else
        let (r, tp) = tcp_sackhole_insert ops (blk_end blk) (h_end cur) tp in
        case r of None \<Rightarrow> ((cur, []), tp)
        | Some temp \<Rightarrow>
            let (temp, tp) =
              (if SEQ_GT (h_rxmit cur) (h_rxmit temp)
               then (temp\<lparr>h_rxmit := h_rxmit cur\<rparr>,
                     tp\<lparr>sack_bytes_rexmit := sack_bytes_rexmit tp + (h_rxmit cur - h_start temp)\<rparr>)
               else (temp, tp))
            in ((cur\<lparr>h_end := blk_start blk, h_rxmit := SEQ_MIN (h_rxmit cur) (blk_start blk)\<rparr>, [temp]), tp))"

text \<open>
  The loop over blocks and holes from their ends. The blocks left are in reverse order, the
  next one first; \<open>left\<close> are the holes from the current one back to the first, and \<open>after\<close> the
  holes behind the current one. The result is the list of holes.
\<close>

function sack_loop ::
  "'z sack_ops \<Rightarrow> sackblk list \<Rightarrow> sackhole list \<Rightarrow> sackhole list \<Rightarrow> 'z sack_snd \<Rightarrow> sackhole list \<times> 'z sack_snd"
where
  "sack_loop ops [] left after tp = (rev left @ after, tp)"
| "sack_loop ops (blk # blks) [] after tp = (after, tp)"
| "sack_loop ops (blk # blks) (cur # left) after tp =
     (if SEQ_GEQ (blk_start blk) (h_end cur) then sack_loop ops blks (cur # left) after tp
      else if SEQ_LEQ (blk_end blk) (h_start cur) then sack_loop ops (blk # blks) left (cur # after) tp
      else
        let tp = tp\<lparr>sack_bytes_rexmit := sack_bytes_rexmit tp - (h_rxmit cur - h_start cur)\<rparr> in
        if SEQ_LEQ (blk_start blk) (h_start cur) \<and> SEQ_GEQ (blk_end blk) (h_end cur) then
          sack_loop ops (blk # blks) left after (tcp_sackhole_remove ops cur after tp)
        else
          let ((cur, new), tp) = ack_hole ops blk cur tp;
              tp = tp\<lparr>sack_bytes_rexmit := sack_bytes_rexmit tp + (h_rxmit cur - h_start cur)\<rparr> in
          if SEQ_LEQ (blk_start blk) (h_start cur) then sack_loop ops (blk # blks) left (cur # new @ after) tp
          else sack_loop ops blks (cur # left) (new @ after) tp)"
  by pat_completeness auto
termination
  by (relation "measure (\<lambda>(_, blks, left, _, _). length blks + length left)") auto

text \<open>
  The step before the loop, on the highest block: \<^verbatim>\<open>snd_fack\<close> and a hole at the tail. The
  result is the blocks left, in reverse order.
\<close>

definition sack_tail ::
  "'z sack_ops \<Rightarrow> sackblk list \<Rightarrow> 'z sack_snd \<Rightarrow> sackblk list \<times> 'z sack_snd" where
  "sack_tail ops rblks tp =
     (let blk = hd rblks; tp = tp\<lparr>last_sack_ack := blk_end blk\<rparr> in
      if SEQ_LT (snd_fack tp) (blk_start blk) then
        let (r, tp) = tcp_sackhole_insert ops (snd_fack tp) (blk_start blk) tp in
        case r of
          Some temp \<Rightarrow> (tl rblks, tp\<lparr>snd_holes := snd_holes tp @ [temp], snd_fack := blk_end blk\<rparr>)
        | None \<Rightarrow>
            let rest = dropWhile (\<lambda>blk. SEQ_LT (snd_fack tp) (blk_start blk)) rblks in
            (rest, if rest \<noteq> [] \<and> SEQ_LT (snd_fack tp) (blk_end (hd rest))
                   then tp\<lparr>snd_fack := blk_end (hd rest)\<rparr> else tp)
      else if SEQ_LT (snd_fack tp) (blk_end blk) then (rblks, tp\<lparr>snd_fack := blk_end blk\<rparr>)
      else (rblks, tp))"

text \<open>\<open>sacks\<close> are the blocks of the SACK option, if the segment has one.\<close>

definition sack_blocks :: "'z sack_snd \<Rightarrow> sackblk list \<Rightarrow> tcp_seq \<Rightarrow> sackblk list" where
  "sack_blocks tp sacks th_ack =
     (if SEQ_LT (snd_una tp) th_ack \<and> snd_holes tp \<noteq> [] then [\<lparr>blk_start = snd_una tp, blk_end = th_ack\<rparr>] else []) @
     filter (valid_sack tp th_ack) sacks"

definition tcp_sack_doack ::
  "'z sack_ops \<Rightarrow> sackblk list \<Rightarrow> tcp_seq \<Rightarrow> 'z sack_snd \<Rightarrow> 'z sack_snd res" where
  "tcp_sack_doack ops sacks th_ack tp =
     (let blks = sack_blocks tp sacks th_ack in
      if length blks > TCP_MAX_SACK + 1 then Inl Out_of_bounds
      else if blks = [] then Inr tp
      else
        let rblks = rev (sort_blks blks);
            tp = (if snd_holes tp = [] then tp\<lparr>snd_fack := SEQ_MAX (snd_una tp) th_ack\<rparr> else tp);
            (rblks, tp) = sack_tail ops rblks tp;
            (holes, tp) = sack_loop ops rblks (rev (snd_holes tp)) [] tp
        in Inr (tp\<lparr>snd_holes := holes\<rparr>))"

section \<open>The other routines\<close>

fun free_loop :: "'z sack_ops \<Rightarrow> sackhole list \<Rightarrow> 'z sack_snd \<Rightarrow> 'z sack_snd" where
  "free_loop ops [] tp = tp"
| "free_loop ops (q # qs) tp = free_loop ops qs (tcp_sackhole_remove ops q qs tp)"

definition tcp_free_sackholes :: "'z sack_ops \<Rightarrow> 'z sack_snd \<Rightarrow> 'z sack_snd" where
  "tcp_free_sackholes ops tp = (free_loop ops (snd_holes tp) tp)\<lparr>snd_holes := [], sack_bytes_rexmit := 0\<rparr>"

text \<open>
  The next hole to retransmit from: the hint, unless it is exhausted, or the next hole behind
  it with something left. A hint that is no hole of the list is a dangling pointer.
\<close>

definition tcp_sack_output :: "'z sack_snd \<Rightarrow> (sackhole option \<times> u32 \<times> 'z sack_snd) res" where
  "tcp_sack_output tp =
     (case nexthole tp of None \<Rightarrow> Inr (None, sack_bytes_rexmit tp, tp)
      | Some i \<Rightarrow>
          case dropWhile (\<lambda>h. h_id h \<noteq> i) (snd_holes tp) of [] \<Rightarrow> Inl Use_after_free
          | hole # rest \<Rightarrow>
              if SEQ_LT (h_rxmit hole) (h_end hole) then Inr (Some hole, sack_bytes_rexmit tp, tp)
              else
                case dropWhile (\<lambda>h. \<not> SEQ_LT (h_rxmit h) (h_end h)) rest of
                  [] \<Rightarrow> Inr (None, sack_bytes_rexmit tp, tp)
                | h # _ \<Rightarrow> Inr (Some h, sack_bytes_rexmit tp, tp\<lparr>nexthole := Some (h_id h)\<rparr>))"

fun adjust_loop :: "sackhole list \<Rightarrow> tcp_seq \<Rightarrow> tcp_seq \<Rightarrow> tcp_seq" where
  "adjust_loop [] fack nxt = nxt"
| "adjust_loop [cur] fack nxt = (if SEQ_LT nxt (h_end cur) then nxt else fack)"
| "adjust_loop (cur # p # rest) fack nxt =
     (if SEQ_LT nxt (h_end cur) then nxt
      else if SEQ_GEQ nxt (h_start p) then adjust_loop (p # rest) fack nxt
      else h_start p)"

definition tcp_sack_adjust :: "'z sack_snd \<Rightarrow> 'z sack_snd" where
  "tcp_sack_adjust tp =
     (if snd_holes tp = [] then tp
      else if SEQ_GEQ (snd_nxt tp) (snd_fack tp) then tp
      else tp\<lparr>snd_nxt := adjust_loop (snd_holes tp) (snd_fack tp) (snd_nxt tp)\<rparr>)"

end
