(* ===== verification/Tcp_Sack_Board.thy ===== *)
theory Tcp_Sack_Board
  imports Tcp_Sack_Snd
begin

text \<open>
  What the scoreboard of the sender means, as a set of bytes, and what the loop of
  \<^verbatim>\<open>tcp_sack_doack\<close> makes of it.
\<close>

section \<open>What the scoreboard means\<close>

text \<open>
  The bytes of holes, as distances from the base of a window. A hole is good when it is not
  empty and its retransmission point lies in it. The sum is the number of bytes
  retransmitted.
\<close>

definition hole_bytes :: "tcp_seq \<Rightarrow> sackhole \<Rightarrow> nat set" where
  "hole_bytes b h = {off b (h_start h) ..< off b (h_end h)}"

definition holes_bytes :: "tcp_seq \<Rightarrow> sackhole list \<Rightarrow> nat set" where
  "holes_bytes b hs = (\<Union>h \<in> set hs. hole_bytes b h)"

definition good_hole :: "tcp_seq \<Rightarrow> sackhole \<Rightarrow> bool" where
  "good_hole b h \<longleftrightarrow> in_win b (h_start h) \<and> in_win b (h_end h) \<and> in_win b (h_rxmit h) \<and>
     off b (h_start h) < off b (h_end h) \<and> off b (h_start h) \<le> off b (h_rxmit h) \<and> off b (h_rxmit h) \<le> off b (h_end h)"

definition before :: "tcp_seq \<Rightarrow> sackhole \<Rightarrow> sackhole \<Rightarrow> bool" where
  "before b x y \<longleftrightarrow> off b (h_end x) \<le> off b (h_start y)"

definition good_holes :: "tcp_seq \<Rightarrow> sackhole list \<Rightarrow> bool" where
  "good_holes b hs \<longleftrightarrow> list_all (good_hole b) hs \<and> sorted_wrt (before b) hs"

definition retransmitted :: "sackhole list \<Rightarrow> u32" where
  "retransmitted hs = sum_list (map (\<lambda>h. h_rxmit h - h_start h) hs)"

definition hint_ok :: "nat option \<Rightarrow> sackhole list \<Rightarrow> bool" where
  "hint_ok hint hs \<longleftrightarrow> (case hint of None \<Rightarrow> True | Some i \<Rightarrow> i \<in> h_id ` set hs)"

text \<open>
  The scoreboard agrees with the list of its holes: the count, the bytes retransmitted and
  the hint.
\<close>

definition counts_ok :: "sackhole list \<Rightarrow> 'z sack_snd \<Rightarrow> bool" where
  "counts_ok hs tp \<longleftrightarrow> snd_numholes tp = int (length hs) \<and> sack_bytes_rexmit tp = retransmitted hs \<and>
     hint_ok (nexthole tp) hs"

text \<open>\<open>n\<close> more holes can be allocated.\<close>

definition room :: "'z sack_ops \<Rightarrow> nat \<Rightarrow> 'z sack_snd \<Rightarrow> bool" where
  "room ops n tp \<longleftrightarrow> (\<forall>z. fst (hole_zalloc ops z) \<noteq> None) \<and> snd_numholes tp + int n \<le> tcp_sack_maxholes ops \<and>
     tcp_sack_globalholes tp + int n \<le> tcp_sack_globalmaxholes ops"

text \<open>What the loop does not change.\<close>

definition same_conn :: "'z sack_snd \<Rightarrow> 'z sack_snd \<Rightarrow> bool" where
  "same_conn tp tp' \<longleftrightarrow> snd_una tp' = snd_una tp \<and> snd_nxt tp' = snd_nxt tp \<and> snd_max tp' = snd_max tp \<and>
     snd_fack tp' = snd_fack tp \<and> last_sack_ack tp' = last_sack_ack tp \<and> snd_holes tp' = snd_holes tp"

section \<open>Lemmas\<close>

lemma holes_bytes_simps [simp]:
  "holes_bytes b [] = {}" "holes_bytes b (h # hs) = hole_bytes b h \<union> holes_bytes b hs"
  "holes_bytes b (xs @ ys) = holes_bytes b xs \<union> holes_bytes b ys" "holes_bytes b (rev hs) = holes_bytes b hs"
  by (auto simp: holes_bytes_def)

lemma retransmitted_simps [simp]:
  "retransmitted [] = 0" "retransmitted (h # hs) = (h_rxmit h - h_start h) + retransmitted hs"
  "retransmitted (xs @ ys) = retransmitted xs + retransmitted ys"
  by (simp_all add: retransmitted_def)

lemma same_conn_refl [simp]: "same_conn tp tp"
  by (simp add: same_conn_def)

lemma same_conn_trans: "same_conn a b \<Longrightarrow> same_conn b c \<Longrightarrow> same_conn a c"
  by (simp add: same_conn_def)

lemma room_mono: "room ops m tp \<Longrightarrow> n \<le> m \<Longrightarrow> room ops n tp"
  by (auto simp: room_def)

lemma alloc_cases:
  obtains (full) tp' where "tcp_sackhole_insert ops st en tp = (None, tp')" "same_conn tp tp'"
      "snd_numholes tp' = snd_numholes tp" "sack_bytes_rexmit tp' = sack_bytes_rexmit tp" "nexthole tp' = nexthole tp"
      "\<not> room ops 1 tp"
  | (new) i tp' where
      "tcp_sackhole_insert ops st en tp = (Some \<lparr>h_id = i, h_start = st, h_end = en, h_rxmit = st\<rparr>, tp')"
      "same_conn tp tp'" "snd_numholes tp' = snd_numholes tp + 1" "sack_bytes_rexmit tp' = sack_bytes_rexmit tp"
      "nexthole tp' = (case nexthole tp of None \<Rightarrow> Some i | h \<Rightarrow> h)"
      "\<And>n. room ops (Suc n) tp \<Longrightarrow> room ops n tp'"
proof (cases "snd_numholes tp \<ge> tcp_sack_maxholes ops \<or> tcp_sack_globalholes tp \<ge> tcp_sack_globalmaxholes ops")
  case True
  then show ?thesis
    using full [of "tp\<lparr>tcps_sack_sboverflow := Suc (tcps_sack_sboverflow tp)\<rparr>"]
    by (auto simp: tcp_sackhole_insert_def tcp_sackhole_alloc_def same_conn_def room_def)
next
  case False
  obtain r z where r: "hole_zalloc ops (sack_hole_zone tp) = (r, z)" by fastforce
  show ?thesis
  proof (cases r)
    case None
    have "fst (hole_zalloc ops (sack_hole_zone tp)) = None" using r None by simp
    then have "\<not> room ops 1 tp" unfolding room_def by blast
    then show ?thesis
      using full [of "tp\<lparr>sack_hole_zone := z\<rparr>"] False r None
      by (auto simp: tcp_sackhole_insert_def tcp_sackhole_alloc_def same_conn_def)
  next
    case (Some i)
    show ?thesis
      using new [of i "snd (tcp_sackhole_insert ops st en tp)"] False r Some
      by (auto simp: tcp_sackhole_insert_def tcp_sackhole_alloc_def same_conn_def room_def split: option.splits)
  qed
qed

text \<open>A block that overlaps a hole and does not cover it.\<close>

definition cuts :: "tcp_seq \<Rightarrow> sackblk \<Rightarrow> sackhole \<Rightarrow> bool" where
  "cuts b blk h \<longleftrightarrow> off b (blk_start blk) < off b (h_end h) \<and> off b (h_start h) < off b (blk_end blk) \<and>
     \<not> (off b (blk_start blk) \<le> off b (h_start h) \<and> off b (h_end h) \<le> off b (blk_end blk))"

lemma ack_hole_spec:
  assumes "good_hole b cur" "good_blk b blk" "cuts b blk cur" "ack_hole ops blk cur tp = ((c, added), tp')"
  shows "good_holes b (c # added) \<and> h_id c = h_id cur \<and>
    off b (h_start cur) \<le> off b (h_start c) \<and> off b (h_end (last (c # added))) \<le> off b (h_end cur) \<and>
    list_all (\<lambda>h. off b (blk_end blk) \<le> off b (h_start h)) added \<and>
    (off b (blk_start blk) \<le> off b (h_start c) \<longrightarrow> off b (h_start c) = off b (blk_end blk)) \<and>
    hole_bytes b cur - blk_bytes b blk \<subseteq> holes_bytes b (c # added) \<and> holes_bytes b (c # added) \<subseteq> hole_bytes b cur \<and>
    (room ops 1 tp \<longrightarrow> holes_bytes b (c # added) = hole_bytes b cur - blk_bytes b blk) \<and>
    snd_numholes tp' = snd_numholes tp + int (length added) \<and>
    sack_bytes_rexmit tp' = sack_bytes_rexmit tp + retransmitted added \<and> same_conn tp tp' \<and>
    length added \<le> 1 \<and> (nexthole tp' = nexthole tp \<or> (\<exists>h. added = [h] \<and> nexthole tp' = Some (h_id h))) \<and>
    (\<forall>n. room ops (Suc n) tp \<longrightarrow> room ops n tp') \<and>
    (off b (blk_start blk) \<le> off b (h_start c) \<longrightarrow> tp' = tp)"
proof -
  have cmp: "SEQ_LEQ (blk_start blk) (h_start cur) \<longleftrightarrow> off b (blk_start blk) \<le> off b (h_start cur)"
    "SEQ_GEQ (blk_end blk) (h_end cur) \<longleftrightarrow> off b (h_end cur) \<le> off b (blk_end blk)"
    using assms(1,2) by (simp_all add: seq_simps good_hole_def good_blk_def)
  consider (front) "off b (blk_start blk) \<le> off b (h_start cur)"
    | (rear) "off b (h_start cur) < off b (blk_start blk)" "off b (h_end cur) \<le> off b (blk_end blk)"
    | (mid) "off b (h_start cur) < off b (blk_start blk)" "off b (blk_end blk) < off b (h_end cur)"
    by linarith
  then show ?thesis
  proof cases
    case front
    have "off b (SEQ_MAX (h_rxmit cur) (blk_end blk)) = max (off b (h_rxmit cur)) (off b (blk_end blk))"
      "in_win b (SEQ_MAX (h_rxmit cur) (blk_end blk))"
      using assms(1,2) by (simp_all add: good_hole_def good_blk_def seq_simps)
    moreover have "c = cur\<lparr>h_start := blk_end blk, h_rxmit := SEQ_MAX (h_rxmit cur) (blk_end blk)\<rparr>" "added = []" "tp' = tp"
      using assms(4) front cmp by (simp_all add: ack_hole_def)
    ultimately show ?thesis
      using front assms(1-3)
      by (auto simp: good_holes_def good_hole_def good_blk_def cuts_def hole_bytes_def blk_bytes_def intro: room_mono)
  next
    case rear
    have "off b (SEQ_MIN (h_rxmit cur) (blk_start blk)) = min (off b (h_rxmit cur)) (off b (blk_start blk))"
      "in_win b (SEQ_MIN (h_rxmit cur) (blk_start blk))"
      using assms(1,2) by (simp_all add: good_hole_def good_blk_def seq_simps)
    moreover have "c = cur\<lparr>h_end := blk_start blk, h_rxmit := SEQ_MIN (h_rxmit cur) (blk_start blk)\<rparr>" "added = []" "tp' = tp"
      using assms(4) rear cmp by (simp_all add: ack_hole_def)
    ultimately show ?thesis
      using rear assms(1-3)
      by (auto simp: good_holes_def good_hole_def good_blk_def cuts_def hole_bytes_def blk_bytes_def intro: room_mono)
  next
    case mid
    have mn: "off b (SEQ_MIN (h_rxmit cur) (blk_start blk)) = min (off b (h_rxmit cur)) (off b (blk_start blk))"
      "in_win b (SEQ_MIN (h_rxmit cur) (blk_start blk))"
      using assms(1,2) by (simp_all add: good_hole_def good_blk_def seq_simps)
    have gt: "SEQ_GT (h_rxmit cur) (blk_end blk) \<longleftrightarrow> off b (blk_end blk) < off b (h_rxmit cur)"
      using assms(1,2) by (simp add: seq.gt_rank [of b] good_hole_def good_blk_def)
    show ?thesis
    proof (cases rule: alloc_cases [of ops "blk_end blk" "h_end cur" tp])
      case (full tp1)
      then have "c = cur" "added = []" "tp' = tp1" using assms(4) mid cmp by (simp_all add: ack_hole_def)
      then show ?thesis
        using full mid assms(1,2) room_mono [of ops _ tp 1] by (auto simp: good_holes_def)
    next
      case (new i tp1)
      define rx where "rx = (if off b (blk_end blk) < off b (h_rxmit cur) then h_rxmit cur else blk_end blk)"
      define t where "t = \<lparr>h_id = i, h_start = blk_end blk, h_end = h_end cur, h_rxmit = rx\<rparr>"
      have res: "c = cur\<lparr>h_end := blk_start blk, h_rxmit := SEQ_MIN (h_rxmit cur) (blk_start blk)\<rparr>"
        "added = [t]" "tp' = tp1\<lparr>sack_bytes_rexmit := sack_bytes_rexmit tp1 + (rx - blk_end blk)\<rparr>"
        using assms(4) mid cmp gt new(1) by (auto simp: ack_hole_def Let_def t_def rx_def split: if_splits)
      have "good_holes b (c # added)"
        using mid mn assms(1,2) unfolding res(1,2)
        by (auto simp: good_holes_def good_hole_def good_blk_def before_def t_def rx_def)
      moreover have "holes_bytes b (c # added) = hole_bytes b cur - blk_bytes b blk"
        using mid assms(2) unfolding res(1,2) by (auto simp: hole_bytes_def blk_bytes_def t_def good_blk_def)
      moreover have "room ops n tp'" if "room ops (Suc n) tp" for n
        using new(6) [OF that] res(3) by (simp add: room_def)
      ultimately show ?thesis
        using new(2-5) mid unfolding res by (auto simp: t_def same_conn_def split: option.splits)
    qed
  qed
qed

lemma good_holes_append [simp]:
  "good_holes b (xs @ ys) \<longleftrightarrow> good_holes b xs \<and> good_holes b ys \<and> (\<forall>x \<in> set xs. \<forall>y \<in> set ys. before b x y)"
  by (auto simp: good_holes_def sorted_wrt_append)

lemma good_holes_Cons [simp]:
  "good_holes b (x # xs) \<longleftrightarrow> good_hole b x \<and> good_holes b xs \<and> (\<forall>y \<in> set xs. before b x y)"
  by (auto simp: good_holes_def)

lemma good_holes_Nil [simp]: "good_holes b []"
  by (simp add: good_holes_def)

lemma good_holes_replace:
  assumes "good_holes b (xs @ cur # ys)" "good_holes b (c # added)" "length added \<le> 1"
    "off b (h_start cur) \<le> off b (h_start c)" "off b (h_end (last (c # added))) \<le> off b (h_end cur)"
  shows "good_holes b (xs @ c # added @ ys)"
proof (cases added)
  case Nil
  then show ?thesis using assms by (auto simp: before_def)
next
  case (Cons h rest)
  then have "added = [h]" using assms(3) by (cases rest) auto
  then show ?thesis using assms by (fastforce simp: before_def good_hole_def)
qed

lemma hint_ok_None [simp]: "hint_ok None hs"
  by (simp add: hint_ok_def)

lemma hint_ok_mono: "hint_ok hint hs \<Longrightarrow> h_id ` set hs \<subseteq> h_id ` set hs' \<Longrightarrow> hint_ok hint hs'"
  by (auto simp: hint_ok_def split: option.splits)

text \<open>The invariant of the loop: the blocks left do not reach the holes already passed.\<close>

definition loop_inv :: "tcp_seq \<Rightarrow> sackblk list \<Rightarrow> sackhole list \<Rightarrow> sackhole list \<Rightarrow> 'z sack_snd \<Rightarrow> bool" where
  "loop_inv b blks left after tp \<longleftrightarrow>
     sorted_wrt (\<lambda>x y. off b (blk_end y) \<le> off b (blk_end x)) blks \<and> list_all (good_blk b) blks \<and>
     good_holes b (rev left @ after) \<and> counts_ok (rev left @ after) tp \<and>
     (\<forall>blk \<in> set blks. \<forall>h \<in> set after. off b (blk_end blk) \<le> off b (h_start h))"

lemma blk_hole_disjoint:
  "off b (blk_end blk) \<le> off b (h_start h) \<or> off b (h_end h) \<le> off b (blk_start blk) \<Longrightarrow>
   hole_bytes b h \<inter> blk_bytes b blk = {}"
  by (auto simp: hole_bytes_def blk_bytes_def)

lemma holes_disjoint:
  "(\<And>h. h \<in> set hs \<Longrightarrow> off b (blk_end blk) \<le> off b (h_start h) \<or> off b (h_end h) \<le> off b (blk_start blk)) \<Longrightarrow>
   holes_bytes b hs \<inter> blk_bytes b blk = {}"
  using blk_hole_disjoint by (fastforce simp: holes_bytes_def)

text \<open>The holes before the current one end before it starts.\<close>

lemma left_disjoint:
  assumes "loop_inv b (blk # blks) (cur # left) after tp" "off b (h_start cur) < off b (blk_start blk)"
  shows "holes_bytes b (left @ after) \<inter> blk_bytes b blk = {}"
  using assms by (intro holes_disjoint) (auto simp: loop_inv_def before_def good_hole_def)

lemma loop_skip_blk:
  assumes "loop_inv b (blk # blks) (cur # left) after tp" "off b (h_end cur) \<le> off b (blk_start blk)"
  shows "loop_inv b blks (cur # left) after tp \<and> holes_bytes b (cur # left @ after) \<inter> blk_bytes b blk = {}"
  using assms by (intro conjI holes_disjoint) (auto simp: loop_inv_def before_def good_hole_def)

lemma loop_skip_hole:
  assumes "loop_inv b (blk # blks) (cur # left) after tp" "off b (blk_end blk) \<le> off b (h_start cur)"
  shows "loop_inv b (blk # blks) left (cur # after) tp"
  using assms by (fastforce simp: loop_inv_def)

lemma loop_remove:
  assumes "loop_inv b (blk # blks) (cur # left) after tp"
  shows "loop_inv b (blk # blks) left after (tcp_sackhole_remove ops cur after
      (tp\<lparr>sack_bytes_rexmit := sack_bytes_rexmit tp - (h_rxmit cur - h_start cur)\<rparr>))"
  using assms
  by (auto simp: loop_inv_def counts_ok_def tcp_sackhole_remove_def tcp_sackhole_free_def hint_ok_def Let_def
      split: option.splits list.splits)

lemma remove_frame:
  "same_conn tp (tcp_sackhole_remove ops h after (tp\<lparr>sack_bytes_rexmit := x\<rparr>))"
  "room ops n tp \<Longrightarrow> room ops n (tcp_sackhole_remove ops h after (tp\<lparr>sack_bytes_rexmit := x\<rparr>))"
  by (auto simp: same_conn_def room_def tcp_sackhole_remove_def tcp_sackhole_free_def Let_def)

lemma loop_cut:
  assumes inv: "loop_inv b (blk # blks) (cur # left) after tp" and cut: "cuts b blk cur"
    and ack: "ack_hole ops blk cur (tp\<lparr>sack_bytes_rexmit := sack_bytes_rexmit tp - (h_rxmit cur - h_start cur)\<rparr>) =
      ((c, added), tp1)"
  defines "tp2 \<equiv> tp1\<lparr>sack_bytes_rexmit := sack_bytes_rexmit tp1 + (h_rxmit c - h_start c)\<rparr>"
  shows "if off b (blk_start blk) \<le> off b (h_start c) then loop_inv b (blk # blks) left (c # added @ after) tp2
    else loop_inv b blks (c # left) (added @ after) tp2"
proof -
  have g: "good_hole b cur" "good_blk b blk" using inv by (auto simp: loop_inv_def)
  note spec = ack_hole_spec [OF g cut ack]
  have c: "good_holes b (c # added)" "h_id c = h_id cur" "off b (h_start cur) \<le> off b (h_start c)"
    "off b (h_end (last (c # added))) \<le> off b (h_end cur)" "length added \<le> 1"
    by (insert spec, (elim conjE, assumption)+)
  have new: "list_all (\<lambda>h. off b (blk_end blk) \<le> off b (h_start h)) added"
    "off b (blk_start blk) \<le> off b (h_start c) \<longrightarrow> off b (h_start c) = off b (blk_end blk)"
    by (insert spec, (elim conjE, assumption)+)
  let ?tp = "tp\<lparr>sack_bytes_rexmit := sack_bytes_rexmit tp - (h_rxmit cur - h_start cur)\<rparr>"
  have "snd_numholes tp1 = snd_numholes ?tp + int (length added)"
    "sack_bytes_rexmit tp1 = sack_bytes_rexmit ?tp + retransmitted added"
    "nexthole tp1 = nexthole ?tp \<or> (\<exists>h. added = [h] \<and> nexthole tp1 = Some (h_id h))"
    by (insert spec, (elim conjE, assumption)+)
  note tp1 = this [simplified]
  have good: "good_holes b (rev left @ c # added @ after)"
  proof (rule good_holes_replace [OF _ c(1,5,3,4)])
    show "good_holes b (rev left @ cur # after)" using inv by (simp add: loop_inv_def)
  qed
  have "hint_ok (nexthole tp1) (rev left @ c # added @ after)"
  proof (cases "nexthole tp1 = nexthole tp")
    case True
    have "hint_ok (nexthole tp) (rev left @ cur # after)" using inv by (simp add: loop_inv_def counts_ok_def)
    then show ?thesis using True c(2) by (auto simp: hint_ok_def split: option.splits)
  next
    case False
    then show ?thesis using tp1(3) by (auto simp: hint_ok_def)
  qed
  then have counts: "counts_ok (rev left @ c # added @ after) tp2"
    using inv tp1(1,2) by (simp add: loop_inv_def counts_ok_def tp2_def)
  have far: "off b (blk_end x) \<le> off b (h_start h)" if "x \<in> set (blk # blks)" "h \<in> set added" for x h
    using inv new(1) that by (fastforce simp: loop_inv_def list_all_iff)
  have far_c: "off b (blk_end x) \<le> off b (h_start c)"
    if "x \<in> set (blk # blks)" "off b (blk_start blk) \<le> off b (h_start c)" for x
    using inv new(2) that by (auto simp: loop_inv_def)
  have blks: "sorted_wrt (\<lambda>x y. off b (blk_end y) \<le> off b (blk_end x)) (blk # blks)" "list_all (good_blk b) (blk # blks)"
    "\<forall>x \<in> set (blk # blks). \<forall>h \<in> set after. off b (blk_end x) \<le> off b (h_start h)"
    using inv by (simp_all add: loop_inv_def)
  show ?thesis
  proof (cases "off b (blk_start blk) \<le> off b (h_start c)")
    case True
    then show ?thesis
      using blks good counts far far_c [OF _ True] unfolding loop_inv_def by (simp add: ball_Un)
  next
    case False
    then show ?thesis
      using blks good counts far unfolding loop_inv_def by (simp add: ball_Un)
  qed
qed

text \<open>What the loop makes of the holes: \<open>hs\<close> from \<open>hs0\<close> by the blocks \<open>blks\<close>.\<close>

definition loop_post ::
  "'z sack_ops \<Rightarrow> tcp_seq \<Rightarrow> sackblk list \<Rightarrow> nat set \<Rightarrow> 'z sack_snd \<Rightarrow> sackhole list \<Rightarrow> 'z sack_snd \<Rightarrow> bool" where
  "loop_post ops b blks H tp hs tp' \<longleftrightarrow> good_holes b hs \<and> counts_ok hs tp' \<and> same_conn tp tp' \<and>
     H - bytes b blks \<subseteq> holes_bytes b hs \<and> holes_bytes b hs \<subseteq> H \<and>
     (room ops (length blks) tp \<longrightarrow> holes_bytes b hs = H - bytes b blks)"

text \<open>A step that takes \<open>H\<close> to \<open>H'\<close> by a part of the blocks.\<close>

lemma loop_post_step:
  assumes "loop_post ops b blks' H' tp1 hs tp'" "same_conn tp tp1"
    "H - bytes b blks \<subseteq> H' - bytes b blks'" "H' \<subseteq> H"
    "room ops (length blks) tp \<Longrightarrow> room ops (length blks') tp1 \<and> H' - bytes b blks' = H - bytes b blks"
  shows "loop_post ops b blks H tp hs tp'"
  using assms same_conn_trans unfolding loop_post_def by (metis order_trans)

lemma set_sub_skip: "H \<inter> B = {} \<Longrightarrow> H - (B \<union> S) = H - S"
  by blast

text \<open>What each turn adds to the result of the turns after it.\<close>

lemma post_skip:
  assumes "loop_inv b (blk # blks) (cur # left) after tp" "off b (h_end cur) \<le> off b (blk_start blk)"
    "loop_post ops b blks (holes_bytes b ((cur # left) @ after)) tp hs tp'"
  shows "loop_post ops b (blk # blks) (holes_bytes b ((cur # left) @ after)) tp hs tp'"
proof (rule loop_post_step [OF assms(3) same_conn_refl])
  show "room ops (length blks) tp \<and> holes_bytes b ((cur # left) @ after) - bytes b blks =
      holes_bytes b ((cur # left) @ after) - bytes b (blk # blks)" if "room ops (length (blk # blks)) tp"
    using that loop_skip_blk [OF assms(1,2)] set_sub_skip [of "holes_bytes b ((cur # left) @ after)" "blk_bytes b blk"]
    by (auto elim: room_mono)
qed auto

lemma post_cover:
  fixes tp :: "'z sack_snd"
  defines "tp0 \<equiv> \<lambda>cur tp :: 'z sack_snd. tp\<lparr>sack_bytes_rexmit := sack_bytes_rexmit tp - (h_rxmit cur - h_start cur)\<rparr>"
  assumes "off b (blk_start blk) \<le> off b (h_start cur)" "off b (h_end cur) \<le> off b (blk_end blk)"
    "loop_post ops b (blk # blks) (holes_bytes b (left @ after)) (tcp_sackhole_remove ops cur after (tp0 cur tp)) hs tp'"
  shows "loop_post ops b (blk # blks) (holes_bytes b ((cur # left) @ after)) tp hs tp'"
proof (rule loop_post_step [OF assms(4)])
  have "hole_bytes b cur \<subseteq> blk_bytes b blk" using assms(2,3) by (auto simp: hole_bytes_def blk_bytes_def)
  then show "holes_bytes b ((cur # left) @ after) - bytes b (blk # blks) \<subseteq>
      holes_bytes b (left @ after) - bytes b (blk # blks)"
    and "room ops (length (blk # blks)) tp \<Longrightarrow>
      room ops (length (blk # blks)) (tcp_sackhole_remove ops cur after (tp0 cur tp)) \<and>
      holes_bytes b (left @ after) - bytes b (blk # blks) = holes_bytes b ((cur # left) @ after) - bytes b (blk # blks)"
    using remove_frame(2) by (auto simp: tp0_def)
qed (auto simp: tp0_def remove_frame)

lemma post_cut:
  assumes inv: "loop_inv b (blk # blks) (cur # left) after tp" and cut: "cuts b blk cur"
    and ack: "ack_hole ops blk cur (tp\<lparr>sack_bytes_rexmit := sack_bytes_rexmit tp - (h_rxmit cur - h_start cur)\<rparr>) =
      ((c, added), tp1)"
  defines "tp2 \<equiv> tp1\<lparr>sack_bytes_rexmit := sack_bytes_rexmit tp1 + (h_rxmit c - h_start c)\<rparr>"
  assumes post: "if off b (blk_start blk) \<le> off b (h_start c)
     then loop_post ops b (blk # blks) (holes_bytes b (left @ c # added @ after)) tp2 hs tp'
     else loop_post ops b blks (holes_bytes b ((c # left) @ added @ after)) tp2 hs tp'"
  shows "loop_post ops b (blk # blks) (holes_bytes b ((cur # left) @ after)) tp hs tp'"
proof -
  define tp0 where "tp0 = tp\<lparr>sack_bytes_rexmit := sack_bytes_rexmit tp - (h_rxmit cur - h_start cur)\<rparr>"
  have g: "good_hole b cur" "good_blk b blk" using inv by (auto simp: loop_inv_def)
  have s: "hole_bytes b cur - blk_bytes b blk \<subseteq> holes_bytes b (c # added)" "holes_bytes b (c # added) \<subseteq> hole_bytes b cur"
    "room ops 1 tp0 \<longrightarrow> holes_bytes b (c # added) = hole_bytes b cur - blk_bytes b blk"
    "\<forall>n. room ops (Suc n) tp0 \<longrightarrow> room ops n tp1" "off b (blk_start blk) \<le> off b (h_start c) \<longrightarrow> tp1 = tp0"
    "same_conn tp0 tp1" "off b (h_start cur) \<le> off b (h_start c)"
    by (insert ack_hole_spec [OF g cut ack [folded tp0_def]], (elim conjE, assumption)+)
  have r: "room ops n tp0 \<longleftrightarrow> room ops n tp" "room ops n tp2 \<longleftrightarrow> room ops n tp1" for n
    by (simp_all add: room_def tp0_def tp2_def)
  have sc: "same_conn tp tp2" using s(6) by (simp add: same_conn_def tp0_def tp2_def)
  have eq: "holes_bytes b (c # added) = hole_bytes b cur - blk_bytes b blk" if "room ops (length (blk # blks)) tp"
    using that r(1) room_mono [of ops "length (blk # blks)" tp 1] s(3) by simp
  show ?thesis
  proof (cases "off b (blk_start blk) \<le> off b (h_start c)")
    case True
    then have "loop_post ops b (blk # blks) (holes_bytes b (left @ c # added @ after)) tp2 hs tp'" using post by simp
    then show ?thesis
    proof (rule loop_post_step [OF _ sc])
      show "room ops (length (blk # blks)) tp2 \<and> holes_bytes b (left @ c # added @ after) - bytes b (blk # blks) =
          holes_bytes b ((cur # left) @ after) - bytes b (blk # blks)" if "room ops (length (blk # blks)) tp"
        using that eq [OF that] r s(5) True by auto
    qed (use s(1,2) in auto)
  next
    case False
    then have p: "loop_post ops b blks (holes_bytes b ((c # left) @ added @ after)) tp2 hs tp'" using post by simp
    have "off b (h_start cur) < off b (blk_start blk)" using False s(7) by simp
    note dis = left_disjoint [OF inv this]
    show ?thesis
    proof (rule loop_post_step [OF p sc])
      show "room ops (length blks) tp2 \<and> holes_bytes b ((c # left) @ added @ after) - bytes b blks =
          holes_bytes b ((cur # left) @ after) - bytes b (blk # blks)" if "room ops (length (blk # blks)) tp"
        using that eq [OF that] r s(4) dis by auto
    qed (use s(1,2) in auto)
  qed
qed

lemma sack_loop_spec:
  assumes "loop_inv b blks left after tp" "sack_loop ops blks left after tp = (hs, tp')"
  shows "loop_post ops b blks (holes_bytes b (left @ after)) tp hs tp'"
  using assms
proof (induction ops blks left after tp rule: sack_loop.induct)
  case (1 ops left after tp)
  then show ?case by (auto simp: loop_inv_def loop_post_def)
next
  case (2 ops blk blks after tp)
  have "holes_bytes b after \<inter> blk_bytes b x = {}" if "x \<in> set (blk # blks)" for x
    using 2 that by (intro holes_disjoint) (auto simp: loop_inv_def)
  then have "holes_bytes b after \<inter> bytes b (blk # blks) = {}" by (auto simp: bytes_def)
  then show ?case using 2 by (auto simp: loop_inv_def loop_post_def)
next
  case (3 ops blk blks cur left after tp)
  have g: "good_hole b cur" "good_blk b blk" using "3.prems"(1) by (auto simp: loop_inv_def)
  have cmp: "SEQ_GEQ (blk_start blk) (h_end cur) \<longleftrightarrow> off b (h_end cur) \<le> off b (blk_start blk)"
    "SEQ_LEQ (blk_end blk) (h_start cur) \<longleftrightarrow> off b (blk_end blk) \<le> off b (h_start cur)"
    "SEQ_LEQ (blk_start blk) (h_start cur) \<longleftrightarrow> off b (blk_start blk) \<le> off b (h_start cur)"
    "SEQ_GEQ (blk_end blk) (h_end cur) \<longleftrightarrow> off b (h_end cur) \<le> off b (blk_end blk)"
    using g by (simp_all add: seq_simps good_hole_def good_blk_def)
  define tp0 where "tp0 = tp\<lparr>sack_bytes_rexmit := sack_bytes_rexmit tp - (h_rxmit cur - h_start cur)\<rparr>"
  consider (skip) "off b (h_end cur) \<le> off b (blk_start blk)"
    | (pass) "\<not> off b (h_end cur) \<le> off b (blk_start blk)" "off b (blk_end blk) \<le> off b (h_start cur)"
    | (cover) "\<not> off b (h_end cur) \<le> off b (blk_start blk)" "\<not> off b (blk_end blk) \<le> off b (h_start cur)"
        "off b (blk_start blk) \<le> off b (h_start cur)" "off b (h_end cur) \<le> off b (blk_end blk)"
    | (cut) "\<not> off b (h_end cur) \<le> off b (blk_start blk)" "\<not> off b (blk_end blk) \<le> off b (h_start cur)"
        "\<not> (off b (blk_start blk) \<le> off b (h_start cur) \<and> off b (h_end cur) \<le> off b (blk_end blk))"
    by blast
  then show ?case
  proof cases
    case skip
    then show ?thesis
      using "3.IH"(1) loop_skip_blk [OF "3.prems"(1) skip] "3.prems" cmp by (intro post_skip [OF "3.prems"(1) skip]) simp
  next
    case pass
    have "loop_post ops b (blk # blks) (holes_bytes b (left @ cur # after)) tp hs tp'"
      using "3.IH"(2) loop_skip_hole [OF "3.prems"(1) pass(2)] "3.prems"(2) pass cmp by simp
    then show ?thesis by (simp add: Un_left_commute)
  next
    case cover
    have e: "sack_loop ops (blk # blks) left after (tcp_sackhole_remove ops cur after tp0) = (hs, tp')"
      using "3.prems"(2) cover cmp by (simp add: tp0_def Let_def)
    then show ?thesis
      using "3.IH"(3) [OF _ _ tp0_def _ _ e] loop_remove [OF "3.prems"(1), of ops] cover cmp
      by (intro post_cover [OF cover(3,4)]) (simp add: tp0_def)
  next
    case cut
    obtain c added tp1 where ack: "ack_hole ops blk cur tp0 = ((c, added), tp1)" by (metis surj_pair)
    define tp2 where "tp2 = tp1\<lparr>sack_bytes_rexmit := sack_bytes_rexmit tp1 + (h_rxmit c - h_start c)\<rparr>"
    have k: "cuts b blk cur" using cut by (auto simp: cuts_def)
    have "good_holes b (c # added)"
      by (insert ack_hole_spec [OF g k ack], (elim conjE, assumption)+)
    then have c: "SEQ_LEQ (blk_start blk) (h_start c) \<longleftrightarrow> off b (blk_start blk) \<le> off b (h_start c)"
      using g(2) by (simp add: seq_simps good_hole_def good_blk_def)
    have step: "(if off b (blk_start blk) \<le> off b (h_start c) then sack_loop ops (blk # blks) left (c # added @ after) tp2
        else sack_loop ops blks (c # left) (added @ after) tp2) = (hs, tp')"
      using "3.prems"(2) cut cmp ack c by (auto simp: tp0_def [symmetric] tp2_def Let_def)
    have IH: "if off b (blk_start blk) \<le> off b (h_start c)
       then loop_post ops b (blk # blks) (holes_bytes b (left @ c # added @ after)) tp2 hs tp'
       else loop_post ops b blks (holes_bytes b ((c # left) @ added @ after)) tp2 hs tp'"
      using "3.IH"(4,5) [OF _ _ tp0_def _ ack [symmetric] refl refl tp2_def] step
        loop_cut [OF "3.prems"(1) k ack [unfolded tp0_def], folded tp2_def] cut cmp c
      by (cases "off b (blk_start blk) \<le> off b (h_start c)") simp_all
    show ?thesis
      using IH unfolding tp2_def by (rule post_cut [OF "3.prems"(1) k ack [unfolded tp0_def]])
  qed
qed

text \<open>A block that starts before all the holes leaves nothing before its end.\<close>

lemma sack_loop_front:
  assumes "loop_inv b blks left after tp" "sack_loop ops blks left after tp = (hs, tp')" "x \<in> set blks"
    "\<forall>h \<in> set left. off b (blk_start x) \<le> off b (h_start h)"
  shows "\<forall>h \<in> set hs. off b (blk_end x) \<le> off b (h_start h)"
  using assms
proof (induction ops blks left after tp rule: sack_loop.induct)
  case (2 ops blk blks after tp)
  then show ?case by (auto simp: loop_inv_def)
next
  case (3 ops blk blks cur left after tp)
  have g: "good_hole b cur" "good_blk b blk" using "3.prems"(1) by (auto simp: loop_inv_def)
  have cmp: "SEQ_GEQ (blk_start blk) (h_end cur) \<longleftrightarrow> off b (h_end cur) \<le> off b (blk_start blk)"
    "SEQ_LEQ (blk_end blk) (h_start cur) \<longleftrightarrow> off b (blk_end blk) \<le> off b (h_start cur)"
    "SEQ_LEQ (blk_start blk) (h_start cur) \<longleftrightarrow> off b (blk_start blk) \<le> off b (h_start cur)"
    "SEQ_GEQ (blk_end blk) (h_end cur) \<longleftrightarrow> off b (h_end cur) \<le> off b (blk_end blk)"
    using g by (simp_all add: seq_simps good_hole_def good_blk_def)
  have st: "off b (blk_start x) \<le> off b (h_start cur)" "off b (h_start cur) < off b (h_end cur)" using "3.prems"(4) g(1) by (simp_all add: good_hole_def)
  define tp0 where "tp0 = tp\<lparr>sack_bytes_rexmit := sack_bytes_rexmit tp - (h_rxmit cur - h_start cur)\<rparr>"
  consider (skip) "off b (h_end cur) \<le> off b (blk_start blk)"
    | (pass) "\<not> off b (h_end cur) \<le> off b (blk_start blk)" "off b (blk_end blk) \<le> off b (h_start cur)"
    | (cover) "\<not> off b (h_end cur) \<le> off b (blk_start blk)" "\<not> off b (blk_end blk) \<le> off b (h_start cur)"
        "off b (blk_start blk) \<le> off b (h_start cur)" "off b (h_end cur) \<le> off b (blk_end blk)"
    | (cut) "\<not> off b (h_end cur) \<le> off b (blk_start blk)" "\<not> off b (blk_end blk) \<le> off b (h_start cur)"
        "\<not> (off b (blk_start blk) \<le> off b (h_start cur) \<and> off b (h_end cur) \<le> off b (blk_end blk))"
    by blast
  then show ?case
  proof cases
    case skip
    then have "x \<in> set blks" using "3.prems"(3) st by auto
    then show ?thesis
      using "3.IH"(1) loop_skip_blk [OF "3.prems"(1) skip] "3.prems" cmp skip by simp
  next
    case pass
    then show ?thesis
      using "3.IH"(2) loop_skip_hole [OF "3.prems"(1) pass(2)] "3.prems" cmp by simp
  next
    case cover
    have e: "sack_loop ops (blk # blks) left after (tcp_sackhole_remove ops cur after tp0) = (hs, tp')"
      using "3.prems"(2) cover cmp by (simp add: tp0_def Let_def)
    then show ?thesis
      using "3.IH"(3) [OF _ _ tp0_def _ _ e] loop_remove [OF "3.prems"(1), of ops] cover cmp "3.prems"(3,4)
      by (simp add: tp0_def)
  next
    case cut
    obtain c added tp1 where ack: "ack_hole ops blk cur tp0 = ((c, added), tp1)" by (metis surj_pair)
    define tp2 where "tp2 = tp1\<lparr>sack_bytes_rexmit := sack_bytes_rexmit tp1 + (h_rxmit c - h_start c)\<rparr>"
    have k: "cuts b blk cur" using cut by (auto simp: cuts_def)
    have spec: "good_holes b (c # added)" "off b (h_start cur) \<le> off b (h_start c)"
      by (insert ack_hole_spec [OF g k ack], (elim conjE, assumption)+)
    then have c: "SEQ_LEQ (blk_start blk) (h_start c) \<longleftrightarrow> off b (blk_start blk) \<le> off b (h_start c)"
      using g(2) by (simp add: seq_simps good_hole_def good_blk_def)
    have step: "(if off b (blk_start blk) \<le> off b (h_start c) then sack_loop ops (blk # blks) left (c # added @ after) tp2
        else sack_loop ops blks (c # left) (added @ after) tp2) = (hs, tp')"
      using "3.prems"(2) cut cmp ack c by (auto simp: tp0_def [symmetric] tp2_def Let_def)
    have rest: "\<not> off b (blk_start blk) \<le> off b (h_start c) \<Longrightarrow> x \<in> set blks" using "3.prems"(3) st(1) spec(2) by auto
    have lefts: "\<forall>h \<in> set (c # left). off b (blk_start x) \<le> off b (h_start h)" using "3.prems"(4) st(1) spec(2) by auto
    show ?thesis
      using "3.IH"(4,5) [OF _ _ tp0_def _ ack [symmetric] refl refl tp2_def] step rest lefts "3.prems"(3)
        loop_cut [OF "3.prems"(1) k ack [unfolded tp0_def], folded tp2_def] cut cmp c
      by (cases "off b (blk_start blk) \<le> off b (h_start c)") simp_all
  qed
qed simp

end
