(* ===== verification/Tcp_Sack_Doack.thy ===== *)
theory Tcp_Sack_Doack
  imports Tcp_Sack_Board
begin

text \<open>
  The whole of \<^verbatim>\<open>tcp_sack_doack\<close>: the sort, the hole at the tail and the loop together; and the
  other routines on the scoreboard.
\<close>

section \<open>The sort\<close>

lemma sort_pass_spec:
  assumes "sort_pass x ys = (m, r)" "list_all (good_blk b) (x # ys)"
  shows "mset (m # r) = mset (x # ys) \<and> (\<forall>z \<in> set r. off b (blk_end m) \<le> off b (blk_end z))"
  using assms
proof (induction ys arbitrary: x m r)
  case (Cons y ys)
  obtain m' r' where p: "sort_pass (if SEQ_GT (blk_end x) (blk_end y) then y else x) ys = (m', r')" by fastforce
  have gt: "SEQ_GT (blk_end x) (blk_end y) \<longleftrightarrow> off b (blk_end y) < off b (blk_end x)"
    using Cons.prems(2) by (simp add: seq.gt_rank [of b] good_blk_def)
  have IH: "mset (m' # r') = mset ((if SEQ_GT (blk_end x) (blk_end y) then y else x) # ys)"
    "\<forall>z \<in> set r'. off b (blk_end m') \<le> off b (blk_end z)"
    using Cons.IH [OF p] Cons.prems(2) by (auto split: if_splits)
  have "(if SEQ_GT (blk_end x) (blk_end y) then y else x) \<in> set (m' # r')"
    using IH(1) [THEN mset_eq_setD] by auto
  then have "off b (blk_end m') \<le> off b (blk_end (if SEQ_GT (blk_end x) (blk_end y) then y else x))"
    using IH(2) by auto
  then show ?case
    using Cons.prems(1) p IH gt by (auto split: if_splits)
qed auto

lemma sort_blks_spec:
  assumes "list_all (good_blk b) xs"
  shows "mset (sort_blks xs) = mset xs \<and> sorted_wrt (\<lambda>x y. off b (blk_end x) \<le> off b (blk_end y)) (sort_blks xs)"
  using assms
proof (induction xs rule: sort_blks.induct)
  case (2 x xs)
  obtain m r where p: "sort_pass x xs = (m, r)" by fastforce
  note spec = sort_pass_spec [OF p "2.prems"]
  have "set (m # r) = set (x # xs)" using spec [THEN conjunct1] by (rule mset_eq_setD)
  then have r: "list_all (good_blk b) r" using "2.prems" unfolding list_all_iff by (metis list.set_intros(2))
  note IH = "2.IH" [OF p [symmetric] refl r]
  have "set (sort_blks r) = set r" using IH [THEN conjunct1] by (rule mset_eq_setD)
  then show ?case using spec IH p by simp
qed simp

text \<open>A scoreboard whose holes lie below \<open>fack\<close>, in the window of \<open>b\<close>.\<close>

definition board_ok :: "tcp_seq \<Rightarrow> sackhole list \<Rightarrow> tcp_seq \<Rightarrow> bool" where
  "board_ok b hs fack \<longleftrightarrow> good_holes b hs \<and> in_win b fack \<and> (\<forall>h \<in> set hs. off b (h_end h) \<le> off b fack)"

lemma board_ok_bytes: "board_ok b hs fack \<longleftrightarrow> good_holes b hs \<and> in_win b fack \<and> holes_bytes b hs \<subseteq> {..< off b fack}"
proof -
  have 1: "hole_bytes b h \<subseteq> {..< n} \<longleftrightarrow> off b (h_end h) \<le> n" if "good_hole b h" for h n
  proof
    assume "hole_bytes b h \<subseteq> {..< n}"
    moreover have "off b (h_end h) - 1 \<in> hole_bytes b h" "0 < off b (h_end h)"
      using that by (auto simp: hole_bytes_def good_hole_def)
    ultimately show "off b (h_end h) \<le> n" by fastforce
  qed (auto simp: hole_bytes_def)
  have 2: "holes_bytes b hs \<subseteq> {..< n} \<longleftrightarrow> (\<forall>h \<in> set hs. off b (h_end h) \<le> n)" if "list_all (good_hole b) hs" for n
    unfolding holes_bytes_def UN_subset_iff by (intro ball_cong refl 1) (use that in \<open>simp add: list_all_iff\<close>)
  show ?thesis
    by (cases "list_all (good_hole b) hs") (simp_all add: 2 board_ok_def good_holes_def conj_commute)
qed

text \<open>The step before the loop.\<close>

definition tail_post ::
  "'z sack_ops \<Rightarrow> tcp_seq \<Rightarrow> sackblk list \<Rightarrow> 'z sack_snd \<Rightarrow> sackblk list \<Rightarrow> 'z sack_snd \<Rightarrow> bool" where
  "tail_post ops b rblks tp rest tp1 \<longleftrightarrow>
     (let H = holes_bytes b (snd_holes tp) \<union> {off b (snd_fack tp) ..< off b (snd_fack tp1)};
          H1 = holes_bytes b (snd_holes tp1) in
      loop_inv b rest (rev (snd_holes tp1)) [] tp1 \<and> board_ok b (snd_holes tp1) (snd_fack tp1) \<and>
      off b (snd_fack tp) \<le> off b (snd_fack tp1) \<and>
      (\<exists>x \<in> set rblks. off b (snd_fack tp1) \<le> max (off b (snd_fack tp)) (off b (blk_end x))) \<and>
      snd_una tp1 = snd_una tp \<and> snd_max tp1 = snd_max tp \<and> snd_nxt tp1 = snd_nxt tp \<and>
      H - bytes b rblks \<subseteq> H1 - bytes b rest \<and> H1 \<subseteq> H \<and>
      (room ops (length rblks) tp \<longrightarrow> room ops (length rest) tp1 \<and> H1 - bytes b rest = H - bytes b rblks \<and>
         off b (snd_fack tp1) = max (off b (snd_fack tp)) (off b (blk_end (hd rblks)))))"

lemma loop_inv_start:
  "loop_inv b blks (rev hs) [] tp \<longleftrightarrow> sorted_wrt (\<lambda>x y. off b (blk_end y) \<le> off b (blk_end x)) blks \<and>
     list_all (good_blk b) blks \<and> good_holes b hs \<and> counts_ok hs tp"
  by (simp add: loop_inv_def)

definition tail_pre :: "tcp_seq \<Rightarrow> sackblk list \<Rightarrow> 'z sack_snd \<Rightarrow> bool" where
  "tail_pre b rblks tp \<longleftrightarrow> board_ok b (snd_holes tp) (snd_fack tp) \<and> counts_ok (snd_holes tp) tp \<and>
     list_all (good_blk b) rblks \<and> sorted_wrt (\<lambda>x y. off b (blk_end y) \<le> off b (blk_end x)) rblks"

lemma tail_inside:
  assumes "tail_pre b (x # xs) tp" "\<not> off b (snd_fack tp) < off b (blk_start x)"
    "snd_fack tp1 = (if off b (snd_fack tp) < off b (blk_end x) then blk_end x else snd_fack tp)"
    "tp1 = tp\<lparr>last_sack_ack := blk_end x, snd_fack := snd_fack tp1\<rparr>"
  shows "tail_post ops b (x # xs) tp (x # xs) tp1"
proof -
  have tp1: "snd_holes tp1 = snd_holes tp" "snd_una tp1 = snd_una tp" "snd_max tp1 = snd_max tp" "snd_nxt tp1 = snd_nxt tp"
    "counts_ok hs tp1 \<longleftrightarrow> counts_ok hs tp" "room ops n tp1 \<longleftrightarrow> room ops n tp" for hs n
    by (subst assms(4), simp add: counts_ok_def room_def)+
  have "{off b (snd_fack tp) ..< off b (snd_fack tp1)} \<subseteq> blk_bytes b x"
    using assms(2,3) by (auto simp: blk_bytes_def split: if_splits)
  moreover have "off b (snd_fack tp1) = max (off b (snd_fack tp)) (off b (blk_end x))"
    using assms(3) by simp
  moreover have "in_win b (snd_fack tp1)"
    using assms(1,3) by (auto simp: tail_pre_def board_ok_def good_blk_def)
  ultimately show ?thesis
    using assms(1) unfolding tail_post_def Let_def loop_inv_start tp1 board_ok_bytes tail_pre_def by auto
qed

lemma tail_new:
  assumes "tail_pre b (x # xs) tp" "off b (snd_fack tp) < off b (blk_start x)"
    "same_conn tp tp2" "counts_ok (snd_holes tp @ [h]) tp2" "\<And>n. room ops (Suc n) tp \<Longrightarrow> room ops n tp2"
    "h_start h = snd_fack tp" "h_end h = blk_start x" "h_rxmit h = snd_fack tp"
  shows "tail_post ops b (x # xs) tp xs
    (tp2\<lparr>snd_holes := snd_holes tp @ [h], snd_fack := blk_end x\<rparr>)"
proof -
  let ?tp1 = "tp2\<lparr>snd_holes := snd_holes tp @ [h], snd_fack := blk_end x\<rparr>"
  have g: "good_blk b x" "in_win b (snd_fack tp)" "good_holes b (snd_holes tp)"
    "\<forall>y \<in> set (snd_holes tp). off b (h_end y) \<le> off b (snd_fack tp)"
    "holes_bytes b (snd_holes tp) \<subseteq> {..< off b (snd_fack tp)}"
    using assms(1) board_ok_bytes [of b "snd_holes tp" "snd_fack tp"] by (auto simp: tail_pre_def board_ok_def)
  have new: "good_holes b (snd_holes tp @ [h])"
    using g assms(2,6-8) by (auto simp: good_hole_def before_def good_blk_def)
  have "board_ok b (snd_holes tp @ [h]) (blk_end x)"
    using new g assms(2,7) by (fastforce simp: board_ok_def good_blk_def)
  moreover have "holes_bytes b (snd_holes tp @ [h]) - bytes b xs =
      holes_bytes b (snd_holes tp) \<union> {off b (snd_fack tp) ..< off b (blk_end x)} - bytes b (x # xs)"
    using g assms(2,6,7) by (auto simp: hole_bytes_def blk_bytes_def good_blk_def)
  moreover have "holes_bytes b (snd_holes tp @ [h]) \<subseteq>
      holes_bytes b (snd_holes tp) \<union> {off b (snd_fack tp) ..< off b (blk_end x)}"
    using g assms(2,6,7) by (auto simp: hole_bytes_def good_blk_def)
  moreover have "off b (blk_end x) = max (off b (snd_fack tp)) (off b (blk_end x))"
    using g assms(2) by (simp add: good_blk_def)
  moreover have "loop_inv b xs (rev (snd_holes tp @ [h])) [] ?tp1"
    using assms(1,4) new unfolding loop_inv_start by (simp add: tail_pre_def counts_ok_def)
  moreover have "snd_una ?tp1 = snd_una tp" "snd_max ?tp1 = snd_max tp" "snd_nxt ?tp1 = snd_nxt tp"
    using assms(3) by (simp_all add: same_conn_def)
  moreover have "room ops (length xs) ?tp1" if "room ops (length (x # xs)) tp"
    using assms(5) [of "length xs"] that by (simp add: room_def)
  moreover have "snd_holes ?tp1 = snd_holes tp @ [h]" "snd_fack ?tp1 = blk_end x" by simp_all
  ultimately show ?thesis
    unfolding tail_post_def Let_def by (metis list.sel(1) list.set_intros(1) max.cobounded1 max.cobounded2 subset_refl)
qed

lemma tail_full:
  assumes "tail_pre b (x # xs) tp" "same_conn tp tp2" "counts_ok (snd_holes tp) tp2" "\<not> room ops 1 tp"
    "rest = dropWhile (\<lambda>y. off b (snd_fack tp) < off b (blk_start y)) (x # xs)"
    "snd_fack tp1 = (if rest \<noteq> [] \<and> off b (snd_fack tp) < off b (blk_end (hd rest)) then blk_end (hd rest) else snd_fack tp)"
    "tp1 = tp2\<lparr>snd_fack := snd_fack tp1\<rparr>"
  shows "tail_post ops b (x # xs) tp rest tp1"
proof -
  have tp1: "snd_holes tp1 = snd_holes tp" "snd_una tp1 = snd_una tp" "snd_max tp1 = snd_max tp" "snd_nxt tp1 = snd_nxt tp"
    "counts_ok (snd_holes tp) tp1"
    using assms(2,3) by (subst assms(7), simp add: same_conn_def counts_ok_def)+
  have sub: "set rest \<subseteq> set (x # xs)" using assms(5) by (metis set_dropWhileD subsetI)
  obtain pre where pre: "x # xs = pre @ rest" using assms(5) by (metis takeWhile_dropWhile_id)
  have rest: "list_all (good_blk b) rest" "sorted_wrt (\<lambda>x y. off b (blk_end y) \<le> off b (blk_end x)) rest"
    using assms(1) unfolding tail_pre_def pre by (simp_all add: sorted_wrt_append)
  have "\<not> off b (snd_fack tp) < off b (blk_start (hd rest))" if "rest \<noteq> []"
    using that assms(5) hd_dropWhile by blast
  then have cov: "{off b (snd_fack tp) ..< off b (snd_fack tp1)} \<subseteq> bytes b rest"
    using assms(6) by (cases rest) (auto simp: blk_bytes_def split: if_splits)
  have "bytes b rest \<subseteq> bytes b (x # xs)" using sub by (auto simp: bytes_def)
  moreover have "in_win b (snd_fack tp1)" "off b (snd_fack tp) \<le> off b (snd_fack tp1)"
    "\<exists>y \<in> set (x # xs). off b (snd_fack tp1) \<le> max (off b (snd_fack tp)) (off b (blk_end y))"
    using assms(1,6) rest(1) sub by (cases rest; force simp: tail_pre_def board_ok_def good_blk_def split: if_splits)+
  moreover have "\<not> room ops (length (x # xs)) tp" using assms(4) room_mono by force
  ultimately show ?thesis
    using assms(1) cov rest tp1(5) unfolding tail_post_def Let_def loop_inv_start tp1(1-4) board_ok_bytes tail_pre_def by auto
qed

lemma sack_tail_spec:
  assumes pre: "tail_pre b rblks tp" "rblks \<noteq> []" and t: "sack_tail ops rblks tp = (rest, tp1)"
  shows "tail_post ops b rblks tp rest tp1"
proof -
  obtain x xs where x: "rblks = x # xs" using pre(2) by (cases rblks) auto
  have g: "list_all (good_blk b) (x # xs)" "in_win b (snd_fack tp)"
    using pre(1) by (simp_all add: tail_pre_def x board_ok_def)
  have lt: "SEQ_LT (snd_fack tp) y \<longleftrightarrow> off b (snd_fack tp) < off b y" if "in_win b y" for y
    using g that by (simp add: seq.lt_rank)
  have ltx: "SEQ_LT (snd_fack tp) (blk_start y) \<longleftrightarrow> off b (snd_fack tp) < off b (blk_start y)"
    "SEQ_LT (snd_fack tp) (blk_end y) \<longleftrightarrow> off b (snd_fack tp) < off b (blk_end y)" if "y \<in> set (x # xs)" for y
    using g that by (auto intro!: lt simp: list_all_iff good_blk_def)
  define tq where "tq = tp\<lparr>last_sack_ack := blk_end x\<rparr>"
  have preq: "tail_pre b (x # xs) tq" "tail_post ops b (x # xs) tq rest tp1 \<Longrightarrow> tail_post ops b (x # xs) tp rest tp1" for rest tp1
    using pre(1) x by (simp_all add: tail_pre_def tail_post_def counts_ok_def tq_def room_def)
  show ?thesis
  proof (cases "off b (snd_fack tp) < off b (blk_start x)")
    case inside: False
    then show ?thesis
      using t ltx [of x] tail_inside [OF pre(1) [unfolded x] inside, of tp1 ops] x
      by (auto simp: sack_tail_def split: if_splits)
  next
    case beyond: True
    show ?thesis
    proof (cases rule: alloc_cases [of ops "snd_fack tp" "blk_start x" tq])
      case (new i tp2)
      let ?h = "\<lparr>h_id = i, h_start = snd_fack tp, h_end = blk_start x, h_rxmit = snd_fack tp\<rparr>"
      have "counts_ok (snd_holes tp @ [?h]) tp2"
        using new(3-5) preq(1) by (auto simp: tail_pre_def counts_ok_def tq_def hint_ok_def split: option.splits)
      then have "tail_post ops b (x # xs) tq xs (tp2\<lparr>snd_holes := snd_holes tp @ [?h], snd_fack := blk_end x\<rparr>)"
        using tail_new [OF preq(1) _ new(2), of ?h] beyond new(6) by (simp add: tq_def)
      moreover have "rest = xs \<and> tp1 = tp2\<lparr>snd_holes := snd_holes tp @ [?h], snd_fack := blk_end x\<rparr>"
        using t ltx(1) [of x] beyond new(1,2) by (simp add: sack_tail_def x tq_def same_conn_def)
      ultimately show ?thesis using preq(2) x by simp
    next
      case (full tp2)
      have fack: "snd_fack tp2 = snd_fack tp" using full(2) by (simp add: same_conn_def tq_def)
      have "sack_tail ops (x # xs) tp = (let rest = dropWhile (\<lambda>y. SEQ_LT (snd_fack tp2) (blk_start y)) (x # xs) in
          (rest, if rest \<noteq> [] \<and> SEQ_LT (snd_fack tp2) (blk_end (hd rest)) then tp2\<lparr>snd_fack := blk_end (hd rest)\<rparr> else tp2))"
        using ltx(1) [of x] beyond full(1) by (simp add: sack_tail_def tq_def Let_def del: dropWhile.simps)
      then have st: "(rest, tp1) = (let rest = dropWhile (\<lambda>y. SEQ_LT (snd_fack tp) (blk_start y)) (x # xs) in
          (rest, if rest \<noteq> [] \<and> SEQ_LT (snd_fack tp) (blk_end (hd rest)) then tp2\<lparr>snd_fack := blk_end (hd rest)\<rparr> else tp2))"
        using t x fack by metis
      have "dropWhile (\<lambda>y. SEQ_LT (snd_fack tp) (blk_start y)) (x # xs) =
          dropWhile (\<lambda>y. off b (snd_fack tp) < off b (blk_start y)) (x # xs)"
        by (intro dropWhile_cong refl ltx(1))
      then have r: "rest = dropWhile (\<lambda>y. off b (snd_fack tp) < off b (blk_start y)) (x # xs)"
        and tp1: "tp1 = (if rest \<noteq> [] \<and> SEQ_LT (snd_fack tp) (blk_end (hd rest)) then tp2\<lparr>snd_fack := blk_end (hd rest)\<rparr> else tp2)"
        using st unfolding Let_def prod.inject by metis+
      have "hd rest \<in> set (x # xs)" if "rest \<noteq> []" using that r by (metis hd_in_set set_dropWhileD)
      then have tp1': "tp1 = (if rest \<noteq> [] \<and> off b (snd_fack tp) < off b (blk_end (hd rest))
          then tp2\<lparr>snd_fack := blk_end (hd rest)\<rparr> else tp2)"
        using tp1 ltx(2) by metis
      have "tail_post ops b (x # xs) tq rest tp1"
      proof (rule tail_full [OF preq(1) full(2)])
        show "counts_ok (snd_holes tq) tp2" using full(3-5) preq(1) by (simp add: counts_ok_def tail_pre_def)
        show "\<not> room ops 1 tq" by (rule full(6))
        show "rest = dropWhile (\<lambda>y. off b (snd_fack tq) < off b (blk_start y)) (x # xs)" using r by (simp add: tq_def)
      qed (simp_all add: tp1' fack tq_def)
      then show ?thesis using preq(2) x by simp
    qed
  qed
qed

text \<open>
  The sender's state. The window of \<open>b\<close> may start at or below \<^verbatim>\<open>snd_una\<close>. Without holes
  \<^verbatim>\<open>snd_fack\<close> means nothing.
\<close>

definition snd_ok :: "tcp_seq \<Rightarrow> 'z sack_snd \<Rightarrow> bool" where
  "snd_ok b tp \<longleftrightarrow> in_win b (snd_una tp) \<and> in_win b (snd_max tp) \<and> off b (snd_una tp) \<le> off b (snd_max tp) \<and>
     counts_ok (snd_holes tp) tp \<and>
     (snd_holes tp \<noteq> [] \<longrightarrow> board_ok b (snd_holes tp) (snd_fack tp) \<and> off b (snd_fack tp) \<le> off b (snd_max tp))"

text \<open>The checks of the code put a block into the window.\<close>

lemma between_in_win:
  assumes "in_win b u" "in_win b m" "off b u \<le> off b m" "0 <s x - u" "x - m \<le>s 0"
  shows "in_win b x \<and> off b u < off b x \<and> off b x \<le> off b m"
proof -
  define d e where "d = unat (x - u)" and "e = unat (x - m)"
  have b32: "d < 2 ^ 32" "e < 2 ^ 32" using u32_bound by (simp_all add: d_def e_def)
  have d: "0 < d" "d < 2 ^ 31" and e: "e = 0 \<or> 2 ^ 31 \<le> e"
    using assms(4,5) b32 unfolding word_sless_alt word_sle_eq u32_sint d_def [symmetric] e_def [symmetric]
    by (auto split: if_splits)
  have "x - b = (x - u) + (u - b)" "x - m = (x - b) - (m - b)" by simp_all
  then have "off b x = d + off b u" "e = (if off b m \<le> off b x then off b x - off b m else off b x + 2 ^ 32 - off b m)"
    using d assms(1) u32_plus [of "x - u" "u - b"] u32_minus [of "x - b" "m - b"]
    by (simp_all add: d_def e_def off_def in_win_def)
  then show ?thesis using d e assms(1-3) by (auto simp: in_win_def split: if_splits)
qed

lemma valid_sack_good:
  assumes "snd_ok b tp" "valid_sack tp th_ack s"
  shows "good_blk b s \<and> off b (snd_una tp) < off b (blk_start s) \<and> off b (blk_end s) \<le> off b (snd_max tp)"
proof -
  have "x - y <s 0 \<Longrightarrow> x - y \<le>s 0" for x y :: u32 by (simp add: word_sless_alt word_sle_eq)
  then have "in_win b (blk_start s)" "in_win b (blk_end s)" "off b (snd_una tp) < off b (blk_start s)"
    "off b (blk_end s) \<le> off b (snd_max tp)"
    using assms between_in_win [of b "snd_una tp" "snd_max tp" "blk_start s"]
      between_in_win [of b "snd_una tp" "snd_max tp" "blk_end s"]
    by (auto simp: snd_ok_def valid_sack_def SEQ_GT_def SEQ_LT_def SEQ_LEQ_def)
  moreover have "off b (blk_start s) < off b (blk_end s)"
    using assms(2) calculation(1,2) seq.gt_rank [of b "blk_end s" "blk_start s"] by (simp add: valid_sack_def)
  ultimately show ?thesis by (simp add: good_blk_def)
qed

lemma sack_blocks_good:
  assumes "snd_ok b tp" "in_win b th_ack" "off b th_ack \<le> off b (snd_max tp)"
  shows "list_all (good_blk b) (sack_blocks tp sacks th_ack)"
    "x \<in> set (sack_blocks tp sacks th_ack) \<Longrightarrow> off b (blk_end x) \<le> off b (snd_max tp)"
proof -
  have "SEQ_LT (snd_una tp) th_ack \<longleftrightarrow> off b (snd_una tp) < off b th_ack"
    using assms(1,2) by (simp add: seq.lt_rank snd_ok_def)
  then have "good_blk b x \<and> off b (blk_end x) \<le> off b (snd_max tp)" if "x \<in> set (sack_blocks tp sacks th_ack)" for x
    using that assms valid_sack_good [OF assms(1)]
    by (auto simp: sack_blocks_def good_blk_def snd_ok_def split: if_splits)
  then show "list_all (good_blk b) (sack_blocks tp sacks th_ack)"
    "x \<in> set (sack_blocks tp sacks th_ack) \<Longrightarrow> off b (blk_end x) \<le> off b (snd_max tp)"
    by (auto simp: list_all_iff)
qed

text \<open>The highest of the sorted blocks ends where the highest block ends.\<close>

lemma hd_rev_sort_blks:
  assumes "list_all (good_blk b) blks" "blks \<noteq> []"
  shows "off b (blk_end (hd (rev (sort_blks blks)))) = Max ((\<lambda>x. off b (blk_end x)) ` set blks)"
proof -
  note spec = sort_blks_spec [OF assms(1)]
  have set: "set (sort_blks blks) = set blks" using spec [THEN conjunct1] by (rule mset_eq_setD)
  then obtain ys y where y: "sort_blks blks = ys @ [y]" using assms(2) by (cases "sort_blks blks" rule: rev_cases) auto
  have "\<forall>x \<in> set blks. off b (blk_end x) \<le> off b (blk_end y)" "y \<in> set blks"
    using spec set y by (auto simp: sorted_wrt_append)
  then show ?thesis using y by (intro Max_eqI [symmetric]) auto
qed

text \<open>All the steps on at least one block.\<close>

lemma doack_steps:
  assumes blks: "list_all (good_blk b) blks" "blks \<noteq> []"
    and tq: "board_ok b (snd_holes tq) (snd_fack tq)" "counts_ok (snd_holes tq) tq"
    and tail: "sack_tail ops (rev (sort_blks blks)) tq = (rest, tp1)"
    and loop: "sack_loop ops rest (rev (snd_holes tp1)) [] tp1 = (hs, tp2)"
  defines "H \<equiv> holes_bytes b (snd_holes tq) \<union> {off b (snd_fack tq) ..< off b (snd_fack tp2)}"
  shows "board_ok b hs (snd_fack tp2) \<and> counts_ok hs tp2 \<and>
    snd_una tp2 = snd_una tq \<and> snd_max tp2 = snd_max tq \<and> snd_nxt tp2 = snd_nxt tq \<and>
    (\<exists>x \<in> set blks. off b (snd_fack tp2) \<le> max (off b (snd_fack tq)) (off b (blk_end x))) \<and>
    off b (snd_fack tq) \<le> off b (snd_fack tp2) \<and> H - bytes b blks \<subseteq> holes_bytes b hs \<and> holes_bytes b hs \<subseteq> H \<and>
    (room ops (length blks) tq \<longrightarrow> holes_bytes b hs = H - bytes b blks \<and>
      off b (snd_fack tp2) = max (off b (snd_fack tq)) (Max ((\<lambda>x. off b (blk_end x)) ` set blks)))"
proof -
  let ?r = "rev (sort_blks blks)"
  note sort = sort_blks_spec [OF blks(1)]
  have set: "set ?r = set blks" using sort [THEN conjunct1, THEN mset_eq_setD] by simp
  have len: "length ?r = length blks" using sort [THEN conjunct1, THEN mset_eq_length] by simp
  have bytes: "bytes b ?r = bytes b blks" unfolding bytes_def set ..
  have "tail_pre b ?r tq"
    using tq sort blks(1) set by (simp add: tail_pre_def sorted_wrt_rev list_all_iff)
  moreover have "?r \<noteq> []" using set blks(2) by auto
  ultimately have t: "tail_post ops b ?r tq rest tp1" using tail by (rule sack_tail_spec)
  then have l: "loop_post ops b rest (holes_bytes b (snd_holes tp1)) tp1 hs tp2"
    using sack_loop_spec [OF _ loop] by (simp add: tail_post_def Let_def)
  let ?H1 = "holes_bytes b (snd_holes tp1)" and ?H = "holes_bytes b (snd_holes tq) \<union> {off b (snd_fack tq) ..< off b (snd_fack tp1)}"
  have L: "good_holes b hs" "counts_ok hs tp2" "same_conn tp1 tp2" "?H1 - bytes b rest \<subseteq> holes_bytes b hs"
    "holes_bytes b hs \<subseteq> ?H1" "room ops (length rest) tp1 \<longrightarrow> holes_bytes b hs = ?H1 - bytes b rest"
    by (insert l [unfolded loop_post_def], (elim conjE, assumption)+)
  have T: "board_ok b (snd_holes tp1) (snd_fack tp1)" "off b (snd_fack tq) \<le> off b (snd_fack tp1)"
    "\<exists>x \<in> set ?r. off b (snd_fack tp1) \<le> max (off b (snd_fack tq)) (off b (blk_end x))"
    "snd_una tp1 = snd_una tq" "snd_max tp1 = snd_max tq" "snd_nxt tp1 = snd_nxt tq"
    "?H - bytes b ?r \<subseteq> ?H1 - bytes b rest" "?H1 \<subseteq> ?H"
    "room ops (length ?r) tq \<longrightarrow> room ops (length rest) tp1 \<and> ?H1 - bytes b rest = ?H - bytes b ?r \<and>
       off b (snd_fack tp1) = max (off b (snd_fack tq)) (off b (blk_end (hd ?r)))"
    by (insert t [unfolded tail_post_def Let_def], (elim conjE, assumption)+)
  have fack: "snd_fack tp2 = snd_fack tp1" "snd_una tp2 = snd_una tp1" "snd_max tp2 = snd_max tp1" "snd_nxt tp2 = snd_nxt tp1"
    using L(3) by (simp_all add: same_conn_def)
  have "board_ok b hs (snd_fack tp1)"
    using L(1,5) T(1) unfolding board_ok_bytes by (blast dest: order_trans)
  moreover have "?H - bytes b blks \<subseteq> holes_bytes b hs" using T(7) L(4) bytes by (metis order_trans)
  moreover have "holes_bytes b hs \<subseteq> ?H" using T(8) L(5) by (rule order_trans [rotated])
  moreover have "holes_bytes b hs = ?H - bytes b blks \<and>
      off b (snd_fack tp1) = max (off b (snd_fack tq)) (Max ((\<lambda>x. off b (blk_end x)) ` set blks))"
    if "room ops (length blks) tq"
    using T(9) L(6) that unfolding bytes len hd_rev_sort_blks [OF blks] by metis
  ultimately show ?thesis
    using L(2) T(2-6) unfolding H_def fack set by simp
qed

text \<open>
  The whole function. Without holes the forward acknowledgement starts at \<^verbatim>\<open>snd_una\<close> or the acknowledged
  number, whichever is higher: the segment may be older than \<^verbatim>\<open>snd_una\<close>.
\<close>

definition old_fack :: "tcp_seq \<Rightarrow> 'z sack_snd \<Rightarrow> tcp_seq" where
  "old_fack th_ack tp = (if snd_holes tp = [] then SEQ_MAX (snd_una tp) th_ack else snd_fack tp)"

lemma doack_run:
  assumes "snd_ok b tp" "in_win b th_ack" "off b th_ack \<le> off b (snd_max tp)" "length sacks \<le> TCP_MAX_SACK"
  defines "blks \<equiv> sack_blocks tp sacks th_ack" and "fack \<equiv> old_fack th_ack tp"
  obtains tp' where "tcp_sack_doack ops sacks th_ack tp = Inr tp'" "snd_ok b tp'"
    "snd_una tp' = snd_una tp" "snd_max tp' = snd_max tp" "snd_nxt tp' = snd_nxt tp"
    "blks = [] \<Longrightarrow> tp' = tp"
    "blks \<noteq> [] \<Longrightarrow> board_ok b (snd_holes tp') (snd_fack tp')"
    "blks \<noteq> [] \<Longrightarrow> off b fack \<le> off b (snd_fack tp')"
    "blks \<noteq> [] \<Longrightarrow> holes_bytes b (snd_holes tp) \<union> {off b fack ..< off b (snd_fack tp')} - bytes b blks \<subseteq> holes_bytes b (snd_holes tp')"
    "blks \<noteq> [] \<Longrightarrow> holes_bytes b (snd_holes tp') \<subseteq> holes_bytes b (snd_holes tp) \<union> {off b fack ..< off b (snd_fack tp')}"
    "blks \<noteq> [] \<Longrightarrow> room ops (length blks) tp \<Longrightarrow> holes_bytes b (snd_holes tp') =
       holes_bytes b (snd_holes tp) \<union> {off b fack ..< off b (snd_fack tp')} - bytes b blks"
    "blks \<noteq> [] \<Longrightarrow> room ops (length blks) tp \<Longrightarrow> off b (snd_fack tp') = max (off b fack) (Max ((\<lambda>x. off b (blk_end x)) ` set blks))"
proof (cases "blks = []")
  case True
  then have "tcp_sack_doack ops sacks th_ack tp = Inr tp" by (simp add: tcp_sack_doack_def blks_def)
  then show ?thesis using that True assms(1) by simp
next
  case False
  define tq where "tq = (if snd_holes tp = [] then tp\<lparr>snd_fack := SEQ_MAX (snd_una tp) th_ack\<rparr> else tp)"
  obtain rest tp1 hs tp2 where run: "sack_tail ops (rev (sort_blks blks)) tq = (rest, tp1)"
    "sack_loop ops rest (rev (snd_holes tp1)) [] tp1 = (hs, tp2)" by (metis surj_pair)
  have una: "in_win b (snd_una tp)" "off b (snd_una tp) \<le> off b (snd_max tp)" using assms(1) by (simp_all add: snd_ok_def)
  have mx: "in_win b (SEQ_MAX (snd_una tp) th_ack)" "off b (SEQ_MAX (snd_una tp) th_ack) \<le> off b (snd_max tp)"
    using una assms(2,3) by (simp_all add: seq.mx_inside seq.mx_rank [OF una(1) assms(2)])
  have tq: "snd_fack tq = fack" "snd_holes tq = snd_holes tp"
    "snd_una tq = snd_una tp" "snd_max tq = snd_max tp" "snd_nxt tq = snd_nxt tp"
    "counts_ok (snd_holes tq) tq" "room ops n tq \<longleftrightarrow> room ops n tp" for n
    using assms(1) by (auto simp: tq_def snd_ok_def counts_ok_def room_def fack_def old_fack_def)
  have "board_ok b (snd_holes tq) (snd_fack tq)" and bound: "off b fack \<le> off b (snd_max tp)"
    using assms(1) mx unfolding tq(1,2) by (auto simp: snd_ok_def board_ok_def fack_def old_fack_def)
  note steps = doack_steps [OF sack_blocks_good(1) [OF assms(1-3), of sacks, folded blks_def] False this(1) tq(6) run, unfolded tq]
  have steps': "board_ok b hs (snd_fack tp2)" "counts_ok hs tp2" "snd_una tp2 = snd_una tp" "snd_max tp2 = snd_max tp" "snd_nxt tp2 = snd_nxt tp"
    "\<exists>x \<in> set blks. off b (snd_fack tp2) \<le> max (off b fack) (off b (blk_end x))" "off b fack \<le> off b (snd_fack tp2)"
    "holes_bytes b (snd_holes tp) \<union> {off b fack ..< off b (snd_fack tp2)} - bytes b blks \<subseteq> holes_bytes b hs"
    "holes_bytes b hs \<subseteq> holes_bytes b (snd_holes tp) \<union> {off b fack ..< off b (snd_fack tp2)}"
    "room ops (length blks) tp \<longrightarrow> holes_bytes b hs = holes_bytes b (snd_holes tp) \<union> {off b fack ..< off b (snd_fack tp2)} - bytes b blks \<and>
      off b (snd_fack tp2) = max (off b fack) (Max ((\<lambda>x. off b (blk_end x)) ` set blks))"
    by (insert steps, (elim conjE, assumption)+)
  have "length (filter P sacks) \<le> TCP_MAX_SACK" for P
    using length_filter_le [of P sacks] assms(4) by (rule le_trans)
  then have "\<not> TCP_MAX_SACK + 1 < length blks" by (simp add: blks_def sack_blocks_def not_less le_SucI)
  then have res: "tcp_sack_doack ops sacks th_ack tp = Inr (tp2\<lparr>snd_holes := hs\<rparr>)"
    using False run unfolding tcp_sack_doack_def blks_def [symmetric] tq_def [symmetric] by simp
  have ok: "snd_ok b (tp2\<lparr>snd_holes := hs\<rparr>)"
    using assms(1) bound steps'(1-6) sack_blocks_good(2) [OF assms(1-3), of _ sacks, folded blks_def]
    unfolding snd_ok_def by (force simp: counts_ok_def)
  show ?thesis by (rule that [OF res ok]) (use False steps' in simp_all)
qed

text \<open>The new holes start at or above the acknowledged number and \<^verbatim>\<open>snd_una\<close>, when the old ones started at or above \<^verbatim>\<open>snd_una\<close>.\<close>

lemma sack_tail_front:
  assumes "sack_tail ops rblks tq = (rest, tp1)" "in_win b (snd_fack tq)" "list_all (good_blk b) rblks" "rblks \<noteq> []"
    "x \<in> set rblks" "off b (blk_start x) \<le> off b (snd_fack tq)"
    "\<forall>h \<in> set (snd_holes tq). off b (blk_start x) \<le> off b (h_start h)"
  shows "x \<in> set rest \<and> (\<forall>h \<in> set (snd_holes tp1). off b (blk_start x) \<le> off b (h_start h))"
proof -
  obtain y ys where r: "rblks = y # ys" using assms(4) by (cases rblks) auto
  define t1 where "t1 = tq\<lparr>last_sack_ack := blk_end y\<rparr>"
  have lt: "SEQ_LT (snd_fack tq) (blk_start z) \<longleftrightarrow> off b (snd_fack tq) < off b (blk_start z)" if "z \<in> set rblks" for z
    using assms(2,3) that by (simp add: seq.lt_rank list_all_iff good_blk_def)
  show ?thesis
  proof (cases "SEQ_LT (snd_fack tq) (blk_start y)")
    case True
    then have "x \<noteq> y" using lt [of y] assms(6) r by auto
    then have x: "x \<in> set ys" using assms(5) r by simp
    show ?thesis
    proof (cases rule: alloc_cases [of ops "snd_fack tq" "blk_start y" t1, case_names full new])
      case (full t2)
      have "x \<in> set (dropWhile (\<lambda>blk. SEQ_LT (snd_fack tq) (blk_start blk)) rblks)"
      proof -
        have "\<not> SEQ_LT (snd_fack tq) (blk_start x)" using lt [OF assms(5)] assms(6) by simp
        then show ?thesis using assms(5) by (induction rblks) auto
      qed
      moreover have "rest = dropWhile (\<lambda>blk. SEQ_LT (snd_fack tq) (blk_start blk)) rblks" "snd_holes tp1 = snd_holes tq"
        using assms(1) True full(1,2) unfolding r
        by (auto simp: sack_tail_def Let_def t1_def same_conn_def split: if_splits)
      ultimately show ?thesis using assms(7) by simp
    next
      case (new i t2)
      then show ?thesis
        using assms(1,6,7) True x unfolding r by (auto simp: sack_tail_def Let_def t1_def same_conn_def)
    qed
  next
    case False
    then have "rest = rblks" "snd_holes tp1 = snd_holes tq" using assms(1) unfolding r by (auto simp: sack_tail_def Let_def split: if_splits)
    then show ?thesis using assms(5,7) by simp
  qed
qed

lemma hole_start_in: "good_holes b hs \<Longrightarrow> h \<in> set hs \<Longrightarrow> off b (h_start h) \<in> holes_bytes b hs"
  by (auto simp: good_holes_def list_all_iff good_hole_def holes_bytes_def hole_bytes_def)

lemma doack_front:
  assumes "snd_ok b tp" "in_win b th_ack" "off b th_ack \<le> off b (snd_max tp)" "length sacks \<le> TCP_MAX_SACK"
    "tcp_sack_doack ops sacks th_ack tp = Inr tp'" and above: "\<forall>h \<in> set (snd_holes tp). off b (snd_una tp) \<le> off b (h_start h)"
    and h: "h \<in> set (snd_holes tp')"
  shows "max (off b (snd_una tp)) (off b th_ack) \<le> off b (h_start h)"
proof -
  let ?blks = "sack_blocks tp sacks th_ack"
  have una: "in_win b (snd_una tp)" using assms(1) by (simp add: snd_ok_def)
  have lt: "SEQ_LT (snd_una tp) th_ack \<longleftrightarrow> off b (snd_una tp) < off b th_ack" using una assms(2) by (simp add: seq.lt_rank)
  note good = sack_blocks_good(1) [OF assms(1-3), of sacks]
  have run: "?blks = [] \<Longrightarrow> tp' = tp" "?blks \<noteq> [] \<Longrightarrow> board_ok b (snd_holes tp') (snd_fack tp')"
    "?blks \<noteq> [] \<Longrightarrow> holes_bytes b (snd_holes tp') \<subseteq> holes_bytes b (snd_holes tp) \<union> {off b (old_fack th_ack tp) ..< off b (snd_fack tp')}"
    using doack_run [OF assms(1-4), of ops] assms(5) by (metis (no_types, lifting) sum.inject(2))+
  show ?thesis
  proof (cases "snd_holes tp = [] \<or> \<not> off b (snd_una tp) < off b th_ack")
    case True
    show ?thesis
    proof (cases "?blks = []")
      case False
      have "off b (h_start h) \<in> holes_bytes b (snd_holes tp')" using run(2) [OF False] h by (auto simp: board_ok_def intro: hole_start_in)
      then have in_old: "off b (h_start h) \<in> holes_bytes b (snd_holes tp) \<or> off b (old_fack th_ack tp) \<le> off b (h_start h)"
        using run(3) [OF False] by auto
      show ?thesis
      proof (cases "snd_holes tp = []")
        case True
        then show ?thesis using in_old seq.mx_rank [OF una assms(2)] by (simp add: old_fack_def)
      next
        case holes: False
        then obtain g where g: "g \<in> set (snd_holes tp)" by (cases "snd_holes tp") auto
        have b: "board_ok b (snd_holes tp) (snd_fack tp)" using assms(1) holes by (simp add: snd_ok_def)
        have "off b (h_start g) < off b (h_end g)" "off b (h_end g) \<le> off b (snd_fack tp)"
          using b g by (auto simp: board_ok_def good_holes_def list_all_iff good_hole_def)
        then have "off b (snd_una tp) \<le> off b (old_fack th_ack tp)" using above g holes by (force simp: old_fack_def)
        moreover have "off b (snd_una tp) \<le> n" if "n \<in> holes_bytes b (snd_holes tp)" for n
          using that above by (fastforce simp: holes_bytes_def hole_bytes_def)
        ultimately show ?thesis using in_old True holes by force
      qed
    qed (use run(1) h above True in force)
  next
    case False
    let ?x = "\<lparr>blk_start = snd_una tp, blk_end = th_ack\<rparr> :: sackblk"
    have x: "?x \<in> set ?blks" using False lt by (simp add: sack_blocks_def)
    let ?r = "rev (sort_blks ?blks)"
    note sort = sort_blks_spec [OF good]
    have set: "set ?r = set ?blks" using sort [THEN conjunct1, THEN mset_eq_setD] by simp
    obtain rest tp1 where tail: "sack_tail ops ?r tp = (rest, tp1)" by (metis surj_pair)
    obtain hs tp2 where loop: "sack_loop ops rest (rev (snd_holes tp1)) [] tp1 = (hs, tp2)" by (metis surj_pair)
    have "\<not> TCP_MAX_SACK + 1 < length ?blks" using assms(5) by (auto simp: tcp_sack_doack_def Let_def)
    moreover have "?blks \<noteq> []" using x by (metis empty_iff empty_set)
    ultimately have hs: "snd_holes tp' = hs" using assms(5) False tail loop unfolding tcp_sack_doack_def by auto
    have b: "board_ok b (snd_holes tp) (snd_fack tp)" using assms(1) False by (simp add: snd_ok_def)
    have pre: "tail_pre b ?r tp"
      using b assms(1) sort good set by (simp add: tail_pre_def sorted_wrt_rev list_all_iff snd_ok_def)
    have ne: "?r \<noteq> []" using x set by (metis empty_iff empty_set)
    obtain g where g: "g \<in> set (snd_holes tp)" using False by (cases "snd_holes tp") auto
    have "off b (h_start g) < off b (h_end g)" "off b (h_end g) \<le> off b (snd_fack tp)"
      using b g by (auto simp: board_ok_def good_holes_def list_all_iff good_hole_def)
    then have "off b (blk_start ?x) \<le> off b (snd_fack tp)" using above g by force
    then have f: "?x \<in> set rest" "\<forall>h \<in> set (snd_holes tp1). off b (blk_start ?x) \<le> off b (h_start h)"
      using sack_tail_front [OF tail, of b ?x] b ne x set good above by (auto simp: board_ok_def list_all_iff)
    have "loop_inv b rest (rev (snd_holes tp1)) [] tp1"
      using sack_tail_spec [OF pre ne tail] by (simp add: tail_post_def Let_def)
    then have "\<forall>h \<in> set hs. off b (blk_end ?x) \<le> off b (h_start h)"
      using sack_loop_front [OF _ loop f(1)] f(2) by simp
    then show ?thesis using h hs False by auto
  qed
qed

section \<open>Properties\<close>


lemma adjust_loop_spec:
  assumes "good_holes b hs" "hs \<noteq> []" "board_ok b hs fack" "in_win b nxt" "off b nxt < off b fack"
  defines "n \<equiv> adjust_loop hs fack nxt"
  shows "off b nxt \<le> off b n \<and> {off b nxt ..< off b n} \<inter> holes_bytes b hs = {} \<and>
    (off b (h_start (hd hs)) \<le> off b nxt \<longrightarrow> off b n \<in> holes_bytes b hs \<or> n = fack)"
  using assms(1-5) unfolding n_def
proof (induction hs fack nxt rule: adjust_loop.induct)
  case (2 cur fack nxt)
  then have "SEQ_LT nxt (h_end cur) \<longleftrightarrow> off b nxt < off b (h_end cur)"
    by (simp add: seq.lt_rank [of b] good_hole_def)
  then show ?case using 2 by (auto simp: hole_bytes_def)
next
  case (3 cur p rest fack nxt)
  have c: "SEQ_LT nxt (h_end cur) \<longleftrightarrow> off b nxt < off b (h_end cur)"
    "SEQ_GEQ nxt (h_start p) \<longleftrightarrow> off b (h_start p) \<le> off b nxt"
    using "3.prems" by (simp_all add: seq.lt_rank [of b] seq.geq_rank [of b] good_hole_def)
  have le: "off b (h_start p) \<le> off b (h_start h)" if "h \<in> set (p # rest)" for h
    using "3.prems"(1) that by (auto simp: before_def good_hole_def)
  consider (here) "off b nxt < off b (h_end cur)" | (on) "off b (h_end cur) \<le> off b nxt" "off b (h_start p) \<le> off b nxt"
    | (gap) "off b (h_end cur) \<le> off b nxt" "off b nxt < off b (h_start p)" by linarith
  then show ?case
  proof cases
    case here
    then show ?thesis using c by (auto simp: hole_bytes_def)
  next
    case on
    then have "board_ok b (p # rest) fack" using "3.prems"(1,3) by (simp add: board_ok_def)
    moreover have "{off b nxt ..< m} \<inter> hole_bytes b cur = {}" for m using on(1) by (auto simp: hole_bytes_def)
    ultimately show ?thesis using "3.IH" c on "3.prems" by (auto simp del: adjust_loop.simps(2) board_ok_bytes simp: Int_Un_distrib)
  next
    case gap
    have "{off b nxt ..< off b (h_start p)} \<inter> holes_bytes b (cur # p # rest) = {}"
      using gap(1) le by (fastforce simp: holes_bytes_def hole_bytes_def)
    moreover have "off b (h_start p) \<in> hole_bytes b p" using "3.prems"(1) by (simp add: hole_bytes_def good_hole_def)
    ultimately show ?thesis using gap c by auto
  qed
qed simp

lemma free_loop_spec:
  assumes "snd_numholes tp = int (length hs)" "hint_ok (nexthole tp) hs"
  shows "snd_numholes (free_loop ops hs tp) = 0 \<and> nexthole (free_loop ops hs tp) = None \<and>
    tcp_sack_globalholes (free_loop ops hs tp) = tcp_sack_globalholes tp - int (length hs)"
  using assms
proof (induction hs arbitrary: tp)
  case Nil
  then show ?case by (auto simp: hint_ok_def split: option.splits)
next
  case (Cons h hs)
  let ?tp = "tcp_sackhole_remove ops h hs tp"
  have "snd_numholes ?tp = int (length hs)" "tcp_sack_globalholes ?tp = tcp_sack_globalholes tp - 1" "hint_ok (nexthole ?tp) hs"
    using Cons.prems
    by (auto simp: tcp_sackhole_remove_def tcp_sackhole_free_def hint_ok_def Let_def split: option.splits list.splits)
  then show ?case using Cons.IH [of ?tp] by simp
qed

lemma adjust_loop_le:
  assumes "board_ok b hs fack" "in_win b nxt" "off b nxt < off b fack"
  shows "in_win b (adjust_loop hs fack nxt) \<and> off b (adjust_loop hs fack nxt) \<le> off b fack"
  using assms
proof (induction hs fack nxt rule: adjust_loop.induct)
  case (3 cur p rest fack nxt)
  then have "off b (h_start p) < off b (h_end p)" "off b (h_end p) \<le> off b fack" "in_win b (h_start p)" "board_ok b (p # rest) fack"
    by (auto simp: board_ok_def good_holes_def good_hole_def)
  then show ?case using 3 by (auto simp del: adjust_loop.simps(2))
qed (auto simp: board_ok_def)

lemma sack_adjust_run:
  assumes "snd_ok b tp" "in_win b (snd_nxt tp)" "off b (snd_nxt tp) \<le> off b (snd_max tp)"
  obtains nxt where "tcp_sack_adjust tp = tp\<lparr>snd_nxt := nxt\<rparr>" "in_win b nxt" "off b (snd_nxt tp) \<le> off b nxt" "off b nxt \<le> off b (snd_max tp)"
proof (cases "snd_holes tp = [] \<or> off b (snd_fack tp) \<le> off b (snd_nxt tp)")
  case True
  then have "tcp_sack_adjust tp = tp\<lparr>snd_nxt := snd_nxt tp\<rparr>"
    using assms(1,2) by (auto simp: tcp_sack_adjust_def snd_ok_def board_ok_def seq.geq_rank [of b])
  then show ?thesis using assms(2,3) by (intro that) auto
next
  case False
  then have board: "board_ok b (snd_holes tp) (snd_fack tp)" "good_holes b (snd_holes tp)" "off b (snd_fack tp) \<le> off b (snd_max tp)"
    using assms(1) by (auto simp: snd_ok_def board_ok_def)
  then have "tcp_sack_adjust tp = tp\<lparr>snd_nxt := adjust_loop (snd_holes tp) (snd_fack tp) (snd_nxt tp)\<rparr>"
    using False assms(2) by (auto simp: tcp_sack_adjust_def board_ok_def seq.geq_rank [of b])
  then show ?thesis
    using adjust_loop_spec [OF board(2) _ board(1) assms(2)] adjust_loop_le [OF board(1) assms(2)] False board(3)
    by (intro that [of "adjust_loop (snd_holes tp) (snd_fack tp) (snd_nxt tp)"]) auto
qed

lemma sack_output_run:
  assumes "snd_ok b tp"
  shows "\<exists>r tp'. tcp_sack_output tp = Inr (r, sack_bytes_rexmit tp, tp') \<and> snd_ok b tp' \<and>
    (case r of
       None \<Rightarrow> tp' = tp \<and> (nexthole tp = None \<or>
         (\<exists>pre h rest. snd_holes tp = pre @ h # rest \<and> nexthole tp = Some (h_id h) \<and>
            list_all (\<lambda>h. h_rxmit h = h_end h) (h # rest)))
     | Some h \<Rightarrow> h \<in> set (snd_holes tp) \<and> off b (h_rxmit h) < off b (h_end h) \<and> tp' = tp\<lparr>nexthole := Some (h_id h)\<rparr>)"
proof (cases "nexthole tp")
  case None
  then show ?thesis using assms by (simp add: tcp_sack_output_def)
next
  case (Some i)
  then have "i \<in> h_id ` set (snd_holes tp)" using assms(1) by (simp add: snd_ok_def counts_ok_def hint_ok_def)
  then have "dropWhile (\<lambda>h. h_id h \<noteq> i) (snd_holes tp) \<noteq> []" by auto
  then obtain h rest where h: "dropWhile (\<lambda>h. h_id h \<noteq> i) (snd_holes tp) = h # rest" by (meson neq_Nil_conv)
  then have id: "h_id h = i" using hd_dropWhile [of "\<lambda>h. h_id h \<noteq> i" "snd_holes tp"] by simp
  obtain pre where split: "snd_holes tp = pre @ h # rest" using h by (metis takeWhile_dropWhile_id)
  have good: "good_hole b x" if "x \<in> set (snd_holes tp)" for x
    using assms that by (auto simp: snd_ok_def board_ok_def good_holes_def list_all_iff)
  have lt: "SEQ_LT (h_rxmit x) (h_end x) \<longleftrightarrow> off b (h_rxmit x) < off b (h_end x)"
    "off b (h_rxmit x) < off b (h_end x) \<longleftrightarrow> h_rxmit x \<noteq> h_end x" if "x \<in> set (snd_holes tp)" for x
    using good [OF that] by (auto simp: good_hole_def seq.lt_rank [of b] intro!: le_neq_implies_less)
  have ok: "snd_ok b (tp\<lparr>nexthole := Some (h_id x)\<rparr>)" if "x \<in> set (snd_holes tp)" for x
    using assms(1) that by (auto simp: snd_ok_def counts_ok_def hint_ok_def)
  show ?thesis
  proof (cases "SEQ_LT (h_rxmit h) (h_end h)")
    case True
    have "h \<in> set (snd_holes tp)" "tp = tp\<lparr>nexthole := Some (h_id h)\<rparr>" using split Some id by simp_all
    then show ?thesis
      using True lt [of h] Some h assms(1) by (auto simp: tcp_sack_output_def intro!: exI [of _ "Some h"] exI [of _ tp])
  next
    case spent: False
    let ?left = "dropWhile (\<lambda>h. \<not> SEQ_LT (h_rxmit h) (h_end h)) rest"
    show ?thesis
    proof (cases ?left)
      case Nil
      then have out: "tcp_sack_output tp = Inr (None, sack_bytes_rexmit tp, tp)"
        unfolding tcp_sack_output_def using spent Some h Nil by (simp del: dropWhile_eq_Nil_conv)
      have "list_all (\<lambda>h. h_rxmit h = h_end h) (h # rest)"
        using Nil spent lt split by (auto simp: list_all_iff)
      then have "\<exists>pre h rest. snd_holes tp = pre @ h # rest \<and> nexthole tp = Some (h_id h) \<and>
            list_all (\<lambda>h. h_rxmit h = h_end h) (h # rest)" using split Some id by blast
      then show ?thesis
        using out assms(1) by (intro exI [of _ None] exI [of _ tp]) simp
    next
      case (Cons x xs)
      then have "x \<in> set rest" "SEQ_LT (h_rxmit x) (h_end x)"
        using hd_dropWhile [of "\<lambda>h. \<not> SEQ_LT (h_rxmit h) (h_end h)" rest] 
        by (auto intro: set_dropWhileD [of x "\<lambda>h. \<not> SEQ_LT (h_rxmit h) (h_end h)" rest])
      then show ?thesis
        using spent Cons Some h split lt(1) [of x] ok [of x]
        by (intro exI [of _ "Some x"] exI [of _ "tp\<lparr>nexthole := Some (h_id x)\<rparr>"]) (simp add: tcp_sack_output_def)
    qed
  qed
qed


text \<open>
  C27. The next hole to retransmit. With a hint that names a hole, no freed hole is touched;
  the hole returned is on the list and has bytes that were not retransmitted, and becomes the
  hint; nothing is returned only when no hole from the hint on has such bytes.
\<close>

theorem tcp_sack_output_spec:
  assumes "snd_ok b tp"
  shows "\<exists>r tp'. tcp_sack_output tp = Inr (r, sack_bytes_rexmit tp, tp') \<and> snd_ok b tp' \<and>
    (case r of
       None \<Rightarrow> tp' = tp \<and> (nexthole tp = None \<or>
         (\<exists>pre h rest. snd_holes tp = pre @ h # rest \<and> nexthole tp = Some (h_id h) \<and>
            list_all (\<lambda>h. h_rxmit h = h_end h) (h # rest)))
     | Some h \<Rightarrow> h \<in> set (snd_holes tp) \<and> off b (h_rxmit h) < off b (h_end h) \<and> tp' = tp\<lparr>nexthole := Some (h_id h)\<rparr>)"
  using assms by (rule sack_output_run)

text \<open>
  Clearing the scoreboard leaves no hole, no hint and no count, as the assertions at the end
  of the routine say, and gives the holes back to the global count.
\<close>

theorem tcp_free_sackholes_spec:
  assumes "counts_ok (snd_holes tp) tp"
  shows "let tp' = tcp_free_sackholes ops tp in snd_holes tp' = [] \<and> snd_numholes tp' = 0 \<and> nexthole tp' = None \<and>
    counts_ok [] tp' \<and> tcp_sack_globalholes tp' = tcp_sack_globalholes tp - int (length (snd_holes tp))"
  using free_loop_spec [of tp "snd_holes tp" ops] assms
  by (simp add: tcp_free_sackholes_def counts_ok_def Let_def)

section \<open>Instances\<close>

text \<open>
  A window across the wrap of the number space; the zone is a counter. Nothing is known to be
  lost, and a block above a gap is reported.
\<close>

definition snd_demo_ops :: "nat sack_ops" where
  "snd_demo_ops = \<lparr>tcp_sack_maxholes = 128, tcp_sack_globalmaxholes = 65536,
     hole_zalloc = (\<lambda>z. (Some z, Suc z)), hole_zfree = (\<lambda>i z. z)\<rparr>"

definition snd_demo :: "sackhole list \<Rightarrow> tcp_seq \<Rightarrow> nat sack_snd" where
  "snd_demo hs nxt = \<lparr>snd_una = 0xfffffff0, snd_nxt = nxt, snd_max = 0x30, snd_fack = 0x20, snd_holes = hs,
     snd_numholes = int (length hs), nexthole = (case hs of [] \<Rightarrow> None | h # _ \<Rightarrow> Some (h_id h)),
     sack_bytes_rexmit = retransmitted hs, last_sack_ack = 0, tcp_sack_globalholes = int (length hs),
     tcps_sack_sboverflow = 0, sack_hole_zone = 7\<rparr>"

definition hole_demo :: sackhole where
  "hole_demo = \<lparr>h_id = 3, h_start = 0xfffffff0, h_end = 0x8, h_rxmit = 0xfffffff8\<rparr>"

lemma demo_offs [simp]: "off 0xfffffff0 0xfffffff8 = 8" "off 0xfffffff0 0x8 = 24" "off 0xfffffff0 0x10 = 32"
  "off 0xfffffff0 0x20 = 48" "off 0xfffffff0 0x30 = 64" "off 0xfffffff0 0x12 = 34"
  by (simp_all add: off_def)

lemma snd_demo_ok: "snd_ok 0xfffffff0 (snd_demo [] nxt)" "snd_ok 0xfffffff0 (snd_demo [hole_demo] nxt)"
  by (simp_all add: snd_ok_def snd_demo_def in_win_def counts_ok_def hint_ok_def board_ok_def good_hole_def hole_demo_def)



theorem tcp_sack_output_spec_witness:
  "\<exists>n tp'. tcp_sack_output (snd_demo [hole_demo] 0x12) = Inr (Some hole_demo, n, tp') \<and> snd_ok 0xfffffff0 tp'"
proof -
  from tcp_sack_output_spec [OF snd_demo_ok(2), of "0x12"] show ?thesis
    by (auto simp: snd_demo_def hole_demo_def tcp_sack_output_def SEQ_LT_def word_sless_alt u32_sint split: option.splits)
qed

theorem tcp_free_sackholes_spec_witness:
  "snd_numholes (tcp_free_sackholes snd_demo_ops (snd_demo [hole_demo] 0x12)) = 0"
proof -
  have "counts_ok (snd_holes (snd_demo [hole_demo] 0x12)) (snd_demo [hole_demo] 0x12)"
    using snd_demo_ok(2) by (simp add: snd_ok_def)
  from tcp_free_sackholes_spec [OF this, of snd_demo_ops] show ?thesis by (simp add: Let_def)
qed

end
