(* ===== verification/Tcp_Reass.thy ===== *)
theory Tcp_Reass
  imports Tcp_Seq
begin

unbundle bit_operations_syntax

text \<open>
  The reassembly queue of TCP, \<^verbatim>\<open>src/sys/netinet/tcp_reass.c\<close>: segments that arrive out of order
  are queued by sequence number, overlaps are cut away, and whatever becomes contiguous is
  appended to the socket's receive buffer. The build defines \<^verbatim>\<open>PASSIVE_INET\<close>, so every entry is
  also on a second queue, by age, and a passive connection may deliver holes.
\<close>

section \<open>State\<close>

text \<open>
  The address of an entry: in the zone, or the variable \<^verbatim>\<open>tqs\<close> on the stack of \<^verbatim>\<open>tcp_reass\<close>. The
  mbufs of an entry are the bytes they hold.
\<close>

datatype tqe_ref = Zone nat | Tqs

record tseg_qent =
  tqe_ref :: tqe_ref
  tqe_len :: int
  tqe_seq :: tcp_seq
  tqe_flags :: u8
  tqe_m :: "u8 list"
  tqe_ticks :: u32

text \<open>What is appended to the receive buffer: data, or a hole of a given size.\<close>

datatype chunk = Data "u8 list" | Hole int

record reass =
  t_segq :: "tseg_qent list"
  t_segageq :: "tqe_ref list"
  t_segqlen :: int
  t_state :: nat
  t_maxseg :: u32
  rcv_nxt :: tcp_seq
  so_rcv :: "chunk list"
  so_cantrcvmore :: bool
  sb_hiwat :: u32
  tm_reassdl :: int
  zone_freed :: "tqe_ref list"
  tcp_reass_overflows :: nat
  tcps_rcvmemdrop :: nat
  tcps_rcvduppack :: nat
  t_rcvoopack :: nat
  t_starttime :: u32

text \<open>
  What a call meets: whether the connection is passive, what \<^verbatim>\<open>uma_zalloc\<close> returns, whether
  \<^verbatim>\<open>m_gethole\<close> succeeds, the clock and the deadline.
\<close>

record reass_env =
  re_passive :: bool
  re_zalloc :: "nat option"
  re_gethole :: bool
  re_ticks :: u32
  re_reassdl :: int

definition TH_FIN :: u8 where "TH_FIN = 1"

definition TCPS_SYN_RECEIVED :: nat where "TCPS_SYN_RECEIVED = 3"
definition TCPS_ESTABLISHED :: nat where "TCPS_ESTABLISHED = 4"
definition TCPS_CLOSE_WAIT :: nat where "TCPS_CLOSE_WAIT = 5"
definition TCPS_FIN_WAIT_1 :: nat where "TCPS_FIN_WAIT_1 = 6"
definition TCPS_CLOSING :: nat where "TCPS_CLOSING = 7"

definition TCPS_HAVEESTABLISHED :: "nat \<Rightarrow> bool" where
  "TCPS_HAVEESTABLISHED s \<longleftrightarrow> s \<ge> TCPS_ESTABLISHED"

section \<open>The queue by age\<close>

text \<open>
  An entry of the age queue is live while it is in the reassembly queue; touching the links of
  another one touches freed memory. Inserting at the tail writes into the last entry; removing
  an entry writes into its neighbours.
\<close>

definition live :: "reass \<Rightarrow> tqe_ref \<Rightarrow> bool" where
  "live tp r \<longleftrightarrow> r \<in> tqe_ref ` set (t_segq tp)"

definition age_insert_tail :: "tqe_ref \<Rightarrow> reass \<Rightarrow> reass res" where
  "age_insert_tail r tp =
     (if r \<in> set (t_segageq tp) \<or> t_segageq tp \<noteq> [] \<and> \<not> live tp (last (t_segageq tp)) then Inl Use_after_free
      else Inr (tp\<lparr>t_segageq := t_segageq tp @ [r]\<rparr>))"

fun age_unlink :: "(tqe_ref \<Rightarrow> bool) \<Rightarrow> tqe_ref \<Rightarrow> tqe_ref list \<Rightarrow> tqe_ref list res" where
  "age_unlink lv r [] = Inl Use_after_free"
| "age_unlink lv r [x] = (if x = r then Inr [] else Inl Use_after_free)"
| "age_unlink lv r (x # y # rest) =
     (if x = r then (if lv y then Inr (y # rest) else Inl Use_after_free)
      else if y = r \<and> \<not> lv x then Inl Use_after_free
      else res_bind (age_unlink lv r (y # rest)) (\<lambda>l. Inr (x # l)))"

definition age_remove :: "tqe_ref \<Rightarrow> reass \<Rightarrow> reass res" where
  "age_remove r tp = res_bind (age_unlink (live tp) r (t_segageq tp)) (\<lambda>l. Inr (tp\<lparr>t_segageq := l\<rparr>))"

definition tcp_reass_next_hole_deadline :: "reass_env \<Rightarrow> reass \<Rightarrow> int res" where
  "tcp_reass_next_hole_deadline env tp =
     (case t_segageq tp of [] \<Rightarrow> Inr 0
      | r # _ \<Rightarrow>
          case find (\<lambda>q. tqe_ref q = r) (t_segq tp) of None \<Rightarrow> Inl Use_after_free
          | Some q \<Rightarrow>
              let delta = sint (re_ticks env - tqe_ticks q) in
              Inr (if delta < re_reassdl env then re_reassdl env - delta else 1))"

section \<open>Operations\<close>

fun flush_loop :: "tseg_qent list \<Rightarrow> reass \<Rightarrow> reass" where
  "flush_loop [] tp = tp"
| "flush_loop (qe # q) tp =
     flush_loop q (tp\<lparr>t_segq := q, zone_freed := zone_freed tp @ [tqe_ref qe], t_segqlen := t_segqlen tp - 1\<rparr>)"

definition tcp_reass_flush :: "reass \<Rightarrow> reass" where
  "tcp_reass_flush tp = flush_loop (t_segq tp) tp"

definition sbappendstream :: "chunk \<Rightarrow> reass \<Rightarrow> reass" where
  "sbappendstream c tp = tp\<lparr>so_rcv := so_rcv tp @ [c]\<rparr>"

text \<open>Appending a hole: the length is stored before the allocation is checked.\<close>

definition append_hole :: "reass_env \<Rightarrow> int \<Rightarrow> reass \<Rightarrow> reass res" where
  "append_hole env hole_size tp =
     (if re_gethole env then Inr (sbappendstream (Hole hole_size) tp) else Inl Null_deref)"

text \<open>The segments that follow the new one, whose end is \<open>e\<close>, and the entries freed.\<close>

fun trim_next :: "tcp_seq \<Rightarrow> tseg_qent list \<Rightarrow> tseg_qent list \<times> tseg_qent list" where
  "trim_next e [] = ([], [])"
| "trim_next e (q # qs) =
     (let i = sint (e - tqe_seq q) in
      if i \<le> 0 then (q # qs, [])
      else if i < tqe_len q then
        (q\<lparr>tqe_seq := tqe_seq q + of_int i, tqe_len := tqe_len q - i, tqe_m := drop (nat i) (tqe_m q)\<rparr> # qs, [])
      else let (r, fr) = trim_next e qs in (r, q # fr))"

text \<open>
  The loop that presents data to the user. \<open>rep\<close> is \<^verbatim>\<open>replace_tqs_in_list\<close>, \<open>rec\<close> is
  \<^verbatim>\<open>reclaimed_tqe\<close>; the queue is \<^verbatim>\<open>tp->t_segq\<close>. The result is \<^verbatim>\<open>flags\<close>, the two variables and
  the state.
\<close>

definition present_one :: "tseg_qent \<Rightarrow> tseg_qent list \<Rightarrow> bool \<Rightarrow> tqe_ref option \<Rightarrow> reass \<Rightarrow> (bool \<times> tqe_ref option \<times> reass) res" where
  "present_one q qs rep rec tp =
     res_bind (age_remove (tqe_ref q) tp) (\<lambda>tp.
       let tp = tp\<lparr>t_segq := qs, rcv_nxt := rcv_nxt tp + of_int (tqe_len q)\<rparr>;
           tp = (if so_cantrcvmore tp then tp else sbappendstream (Data (tqe_m q)) tp);
           (rep, rec, tp) =
             (if tqe_ref q \<noteq> Tqs then
                if rep \<and> rec = None then (rep, Some (tqe_ref q), tp)
                else (rep, rec, tp\<lparr>zone_freed := zone_freed tp @ [tqe_ref q]\<rparr>)
              else (False, rec, tp))
       in Inr (rep, rec, tp\<lparr>t_segqlen := t_segqlen tp - 1\<rparr>))"

fun present_loop ::
  "tseg_qent list \<Rightarrow> u8 \<Rightarrow> bool \<Rightarrow> tqe_ref option \<Rightarrow> reass \<Rightarrow> (u8 \<times> bool \<times> tqe_ref option \<times> reass) res" where
  "present_loop [] flags rep rec tp = Inr (flags, rep, rec, tp)"
| "present_loop (q # qs) flags rep rec tp =
     res_bind (present_one q qs rep rec tp) (\<lambda>(rep, rec, tp).
       let flags = tqe_flags q AND TH_FIN in
       if qs \<noteq> [] \<and> tqe_seq (hd qs) = rcv_nxt tp then present_loop qs flags rep rec tp
       else Inr (flags, rep, rec, tp))"

text \<open>A reclaimed entry takes the place of the one on the stack, in both queues.\<close>

definition replace_tqs :: "tqe_ref option \<Rightarrow> reass \<Rightarrow> reass res" where
  "replace_tqs rec tp =
     (case rec of None \<Rightarrow> Inl Null_deref
      | Some r \<Rightarrow> Inr (tp\<lparr>t_segq := map (\<lambda>q. if tqe_ref q = Tqs then q\<lparr>tqe_ref := r\<rparr> else q) (t_segq tp),
                        t_segageq := map (\<lambda>x. if x = Tqs then r else x) (t_segageq tp)\<rparr>))"

definition present :: "reass_env \<Rightarrow> bool \<Rightarrow> bool \<Rightarrow> reass \<Rightarrow> (u8 \<times> reass) res" where
  "present env deliver_leading_hole rep tp =
     (if \<not> TCPS_HAVEESTABLISHED (t_state tp) then Inr (0, tp)
      else case t_segq tp of
        [] \<Rightarrow> Inr (0, tp)
      | q # qs \<Rightarrow>
          if tqe_seq q \<noteq> rcv_nxt tp \<and> \<not> deliver_leading_hole then
            if re_passive env then
              res_bind (tcp_reass_next_hole_deadline env tp) (\<lambda>d. Inr (0, tp\<lparr>tm_reassdl := d\<rparr>))
            else Inr (0, tp)
          else
            res_bind
              (if deliver_leading_hole then
                 res_bind (if so_cantrcvmore tp then Inr tp else append_hole env (sint (tqe_seq q - rcv_nxt tp)) tp)
                   (\<lambda>tp. Inr (tp\<lparr>rcv_nxt := tqe_seq q\<rparr>))
               else Inr tp) (\<lambda>tp.
            res_bind (present_loop (q # qs) 0 rep None tp) (\<lambda>(flags, rep, rec, tp).
            res_bind (if rep then replace_tqs rec tp else Inr tp) (\<lambda>tp.
            res_bind (tcp_reass_next_hole_deadline env tp) (\<lambda>d.
            Inr (flags, if tm_reassdl tp = 0 \<or> d = 0 then tp\<lparr>tm_reassdl := d\<rparr> else tp))))))"

text \<open>
  Queueing the segment. The results of \<^verbatim>\<open>tcp_reass\<close> are its value, \<^verbatim>\<open>*tlenp\<close>, \<^verbatim>\<open>th->th_seq\<close> and the
  state.
\<close>

record tcphdr =
  th_seq :: tcp_seq
  th_flags :: u8

definition insert_seg ::
  "reass_env \<Rightarrow> tqe_ref \<Rightarrow> tcphdr \<Rightarrow> int \<Rightarrow> u8 list \<Rightarrow> tseg_qent list \<Rightarrow> tseg_qent list \<Rightarrow> reass \<Rightarrow> reass res" where
  "insert_seg env te th tlen m pre rest tp =
     (let (rest, fr) = trim_next (th_seq th + of_int tlen) rest;
          tp = tp\<lparr>t_rcvoopack := Suc (t_rcvoopack tp), t_segq := pre @ rest,
                zone_freed := zone_freed tp @ map tqe_ref fr, t_segqlen := t_segqlen tp - int (length fr)\<rparr>;
          q = \<lparr>tqe_ref = te, tqe_len = tlen, tqe_seq = th_seq th, tqe_flags = th_flags th, tqe_m = m,
               tqe_ticks = re_ticks env\<rparr>
      in res_bind (age_insert_tail te tp) (\<lambda>tp. Inr (tp\<lparr>t_segq := pre @ q # rest\<rparr>)))"

definition queue_seg ::
  "reass_env \<Rightarrow> tqe_ref \<Rightarrow> bool \<Rightarrow> tcphdr \<Rightarrow> int \<Rightarrow> u8 list \<Rightarrow> reass \<Rightarrow> (u8 \<times> int \<times> tcp_seq \<times> reass) res" where
  "queue_seg env te deliver_leading_hole th tlen m tp =
     (let pre = takeWhile (\<lambda>q. \<not> SEQ_GT (tqe_seq q) (th_seq th)) (t_segq tp);
          rest = dropWhile (\<lambda>q. \<not> SEQ_GT (tqe_seq q) (th_seq th)) (t_segq tp);
          i = (if pre = [] then 0 else sint (tqe_seq (last pre) + of_int (tqe_len (last pre)) - th_seq th));
          tp = tp\<lparr>t_segqlen := t_segqlen tp + 1\<rparr>
      in
      if i > 0 \<and> i \<ge> tlen then
        let tp = tp\<lparr>tcps_rcvduppack := Suc (tcps_rcvduppack tp),
              zone_freed := (if te \<noteq> Tqs then zone_freed tp @ [te] else zone_freed tp),
              t_segqlen := t_segqlen tp - 1\<rparr>
        in res_bind (present env deliver_leading_hole False tp) (\<lambda>(flags, tp). Inr (flags, tlen, th_seq th, tp))
      else
        let (th, tlen, m) =
              (if i > 0 then (th\<lparr>th_seq := th_seq th + of_int i\<rparr>, tlen - i, drop (nat i) m) else (th, tlen, m))
        in res_bind (insert_seg env te th tlen m pre rest tp) (\<lambda>tp.
           res_bind (present env deliver_leading_hole (pre \<noteq> [] \<and> re_passive env \<and> te = Tqs) tp) (\<lambda>(flags, tp).
           Inr (flags, tlen, th_seq th, tp))))"

definition reass_drop :: "tcphdr \<Rightarrow> reass \<Rightarrow> (u8 \<times> int \<times> tcp_seq \<times> reass) res" where
  "reass_drop th tp = Inr (0, 0, th_seq th, tp\<lparr>tcps_rcvmemdrop := Suc (tcps_rcvmemdrop tp)\<rparr>)"

definition tcp_reass ::
  "reass_env \<Rightarrow> (tcphdr \<times> int \<times> u8 list) option \<Rightarrow> reass \<Rightarrow> (u8 \<times> int \<times> tcp_seq \<times> reass) res" where
  "tcp_reass env seg tp =
     (case seg of
        None \<Rightarrow> res_bind (present env False False tp) (\<lambda>(flags, tp). Inr (flags, 0, 0, tp))
      | Some (th, tlen, m) \<Rightarrow>
          let out_of_order = (th_seq th \<noteq> rcv_nxt tp \<or> \<not> TCPS_HAVEESTABLISHED (t_state tp)) in
          if out_of_order \<and> t_maxseg tp = 0 then Inl Div_by_zero
          else
            let full = (out_of_order \<and> of_int (t_segqlen tp) \<ge> sb_hiwat tp div t_maxseg tp + 1);
                tp = (if full then tp\<lparr>tcp_reass_overflows := Suc (tcp_reass_overflows tp)\<rparr> else tp)
            in
            if full \<and> \<not> re_passive env then reass_drop th tp
            else case re_zalloc env of
              Some te \<Rightarrow> queue_seg env (Zone te) full th tlen m tp
            | None \<Rightarrow>
                if out_of_order \<and> \<not> re_passive env then reass_drop th tp
                else queue_seg env Tqs (full \<or> out_of_order) th tlen m tp)"

section \<open>Delivering holes\<close>

text \<open>
  The deadline of a passive connection: everything up to the furthest expired segment, and
  what is contiguous to it, is delivered, with holes for what is missing.
\<close>

definition fin_state :: "nat \<Rightarrow> nat" where
  "fin_state s =
     (if s = TCPS_SYN_RECEIVED \<or> s = TCPS_ESTABLISHED then TCPS_CLOSE_WAIT
      else if s = TCPS_FIN_WAIT_1 then TCPS_CLOSING else s)"

definition hole_one :: "reass_env \<Rightarrow> tseg_qent \<Rightarrow> tseg_qent list \<Rightarrow> reass \<Rightarrow> reass res" where
  "hole_one env q qs tp =
     (let hole_size = sint (tqe_seq q - rcv_nxt tp) in
      res_bind
        (if \<not> so_cantrcvmore tp \<and> hole_size \<noteq> 0
         then if hole_size < 0 then Inl Exit_failure else append_hole env hole_size tp
         else Inr tp) (\<lambda>tp.
      res_bind (age_remove (tqe_ref q) tp) (\<lambda>tp.
        let tp = tp\<lparr>rcv_nxt := tqe_seq q + of_int (tqe_len q), t_segq := qs\<rparr>;
            tp = (if so_cantrcvmore tp then tp else sbappendstream (Data (tqe_m q)) tp);
            tp = (if tqe_flags q AND TH_FIN \<noteq> 0
                  then tp\<lparr>so_cantrcvmore := True, rcv_nxt := rcv_nxt tp + 1, t_state := fin_state (t_state tp),
                    t_starttime := (if t_state tp = TCPS_SYN_RECEIVED then re_ticks env else t_starttime tp)\<rparr>
                  else tp)
        in Inr (tp\<lparr>t_segqlen := t_segqlen tp - 1, zone_freed := zone_freed tp @ [tqe_ref q]\<rparr>))))"

fun holes_loop :: "reass_env \<Rightarrow> tqe_ref \<Rightarrow> bool \<Rightarrow> tseg_qent list \<Rightarrow> reass \<Rightarrow> reass res" where
  "holes_loop env p contiguous [] tp = Inr tp"
| "holes_loop env p contiguous (q # qs) tp =
     (if contiguous \<and> tqe_seq q \<noteq> rcv_nxt tp then Inr tp
      else res_bind (hole_one env q qs tp) (holes_loop env p (contiguous \<or> tqe_ref q = p) qs))"

definition tcp_reass_deliver_holes :: "reass_env \<Rightarrow> reass \<Rightarrow> reass res" where
  "tcp_reass_deliver_holes env tp =
     (case filter (\<lambda>q. sint (re_ticks env - tqe_ticks q) \<ge> re_reassdl env) (t_segq tp) of
        [] \<Rightarrow> Inr tp
      | expired \<Rightarrow>
          res_bind (holes_loop env (tqe_ref (last expired)) False (t_segq tp) tp) (\<lambda>tp.
          res_bind (tcp_reass_next_hole_deadline env tp) (\<lambda>d. Inr (tp\<lparr>tm_reassdl := d\<rparr>))))"

end
