(* ===== verification/Tcp_Reass_Data.thy ===== *)
theory Tcp_Reass_Data
  imports Tcp_Reass
begin

text \<open>
  What the reassembly queue does with the data: whatever the order, the overlaps and the
  repetitions of the segments, what reaches the receive buffer is the stream they were cut
  from.
\<close>

section \<open>What the queue means\<close>

text \<open>
  The stream is a function from the distance to the base of the window to the byte. A segment
  is good when it holds a piece of the stream within the window; the queue is good when its
  segments are, do not overlap, and start at \<open>n\<close> or later.
\<close>

definition seg_end :: "tcp_seq \<Rightarrow> tseg_qent \<Rightarrow> nat" where
  "seg_end b q = off b (tqe_seq q) + nat (tqe_len q)"

definition good_seg :: "tcp_seq \<Rightarrow> (nat \<Rightarrow> u8) \<Rightarrow> tseg_qent \<Rightarrow> bool" where
  "good_seg b str q \<longleftrightarrow> 0 \<le> tqe_len q \<and> seg_end b q < 2 ^ 31 \<and> tqe_m q = map str [off b (tqe_seq q) ..< seg_end b q]"

definition segs_ok :: "tcp_seq \<Rightarrow> (nat \<Rightarrow> u8) \<Rightarrow> nat \<Rightarrow> tseg_qent list \<Rightarrow> bool" where
  "segs_ok b str n qs \<longleftrightarrow> list_all (\<lambda>q. good_seg b str q \<and> n \<le> off b (tqe_seq q)) qs \<and>
     sorted_wrt (\<lambda>x y. seg_end b x \<le> off b (tqe_seq y)) qs"

definition seg_bytes :: "tcp_seq \<Rightarrow> tseg_qent list \<Rightarrow> nat set" where
  "seg_bytes b qs = (\<Union>q \<in> set qs. {off b (tqe_seq q) ..< seg_end b q})"

text \<open>The chunks in the receive buffer cover the stream from \<open>p\<close> to \<open>n\<close>.\<close>

fun chunks_ok :: "(nat \<Rightarrow> u8) \<Rightarrow> nat \<Rightarrow> chunk list \<Rightarrow> nat \<Rightarrow> bool" where
  "chunks_ok str p [] n \<longleftrightarrow> p = n"
| "chunks_ok str p (Data bs # cs) n \<longleftrightarrow> bs = map str [p ..< p + length bs] \<and> chunks_ok str (p + length bs) cs n"
| "chunks_ok str p (Hole k # cs) n \<longleftrightarrow> 0 \<le> k \<and> chunks_ok str (p + nat k) cs n"

definition data_inv :: "tcp_seq \<Rightarrow> (nat \<Rightarrow> u8) \<Rightarrow> nat \<Rightarrow> reass \<Rightarrow> bool" where
  "data_inv b str p tp \<longleftrightarrow> \<not> so_cantrcvmore tp \<and> in_win b (rcv_nxt tp) \<and>
     segs_ok b str (off b (rcv_nxt tp)) (t_segq tp) \<and> chunks_ok str p (so_rcv tp) (off b (rcv_nxt tp))"

text \<open>The bytes the receiver has: delivered or queued.\<close>

definition held :: "tcp_seq \<Rightarrow> reass \<Rightarrow> nat set" where
  "held b tp = {..< off b (rcv_nxt tp)} \<union> seg_bytes b (t_segq tp)"

section \<open>Lemmas\<close>

lemma off_plus: "off b x + n < 2 ^ 32 \<Longrightarrow> off b (x + of_nat n) = off b x + n"
proof -
  assume a: "off b x + n < 2 ^ 32"
  have "x + of_nat n - b = (x - b) + of_nat n" by simp
  moreover have "unat (of_nat n :: u32) = n" using a by (simp add: unat_of_nat take_bit_nat_eq_self)
  ultimately show ?thesis using a unfolding off_def by (metis u32_plus)
qed

lemma off_plus_int: "0 \<le> k \<Longrightarrow> off b x + nat k < 2 ^ 32 \<Longrightarrow> off b (x + of_int k) = off b x + nat k"
  using off_plus [of b x "nat k"] by (metis of_nat_nat of_int_of_nat_eq)

lemma seg_bytes_simps [simp]: "seg_bytes b [] = {}"
  "seg_bytes b (q # qs) = {off b (tqe_seq q) ..< seg_end b q} \<union> seg_bytes b qs"
  "seg_bytes b (xs @ ys) = seg_bytes b xs \<union> seg_bytes b ys"
  by (auto simp: seg_bytes_def)

lemma segs_ok_simps [simp]: "segs_ok b str n []"
  "segs_ok b str n (q # qs) \<longleftrightarrow> good_seg b str q \<and> n \<le> off b (tqe_seq q) \<and> segs_ok b str n qs \<and>
     (\<forall>y \<in> set qs. seg_end b q \<le> off b (tqe_seq y))"
  "segs_ok b str n (xs @ ys) \<longleftrightarrow> segs_ok b str n xs \<and> segs_ok b str n ys \<and>
     (\<forall>x \<in> set xs. \<forall>y \<in> set ys. seg_end b x \<le> off b (tqe_seq y))"
  by (auto simp: segs_ok_def sorted_wrt_append)

lemma good_seg_win: "good_seg b str q \<Longrightarrow> in_win b (tqe_seq q)"
  by (simp add: good_seg_def in_win_def seg_end_def)

lemma seg_end_ge: "off b (tqe_seq q) \<le> seg_end b q"
  by (simp add: seg_end_def)

lemma chunks_ok_append: "chunks_ok str p (xs @ ys) n \<longleftrightarrow> (\<exists>m. chunks_ok str p xs m \<and> chunks_ok str m ys n)"
proof (induction xs arbitrary: p)
  case (Cons x xs)
  then show ?case by (cases x) auto
qed simp

lemma chunks_ok_mono: "chunks_ok str p xs n \<Longrightarrow> p \<le> n"
proof (induction xs arbitrary: p)
  case (Cons x xs)
  then show ?case by (cases x) (force dest: le_trans)+
qed simp

lemma segs_ok_weaken: "segs_ok b str n qs \<Longrightarrow> m \<le> n \<Longrightarrow> segs_ok b str m qs"
  by (auto simp: segs_ok_def list_all_iff)

lemma segs_ok_raise: "segs_ok b str n qs \<Longrightarrow> \<forall>q \<in> set qs. m \<le> off b (tqe_seq q) \<Longrightarrow> segs_ok b str m qs"
  by (auto simp: segs_ok_def list_all_iff)

text \<open>Cutting the front off a segment.\<close>

lemma good_seg_cut:
  assumes "good_seg b str q" "0 < i" "i < tqe_len q"
  defines "q' \<equiv> q\<lparr>tqe_seq := tqe_seq q + of_int i, tqe_len := tqe_len q - i, tqe_m := drop (nat i) (tqe_m q)\<rparr>"
  shows "good_seg b str q' \<and> off b (tqe_seq q') = off b (tqe_seq q) + nat i \<and> seg_end b q' = seg_end b q"
proof -
  have "off b (tqe_seq q) + nat i < 2 ^ 32" using assms(1-3) nat_mono [of i "tqe_len q"] by (simp add: good_seg_def seg_end_def)
  then have o: "off b (tqe_seq q') = off b (tqe_seq q) + nat i"
    using assms(2) off_plus_int [of i b "tqe_seq q"] by (simp add: q'_def)
  then have e: "seg_end b q' = seg_end b q" using assms(2,3) by (simp add: q'_def seg_end_def)
  have "tqe_m q' = map str [off b (tqe_seq q') ..< seg_end b q']"
    using assms(1) o e by (simp add: q'_def good_seg_def drop_map)
  then show ?thesis using o e assms by (simp add: good_seg_def)
qed

lemma trim_next_spec:
  assumes "segs_ok b str n qs" "in_win b e" "trim_next e qs = (r, fr)"
  shows "segs_ok b str (max n (off b e)) r \<and> seg_bytes b r = seg_bytes b qs - {..< off b e} \<and>
    map tqe_ref qs = map tqe_ref fr @ map tqe_ref r \<and>
    (\<forall>q \<in> set fr. off b (tqe_seq q) < off b e \<and> seg_end b q \<le> off b e) \<and> set fr \<subseteq> set qs"
  using assms(1,3)
proof (induction qs arbitrary: r fr)
  case (Cons q qs)
  have g: "good_seg b str q" "n \<le> off b (tqe_seq q)" "\<forall>y \<in> set qs. seg_end b q \<le> off b (tqe_seq y)" "segs_ok b str n qs"
    using Cons.prems(1) by simp_all
  have i: "sint (e - tqe_seq q) = int (off b e) - int (off b (tqe_seq q))"
    using SEQ_sint [OF assms(2) good_seg_win [OF g(1)]] .
  consider (apart) "off b e \<le> off b (tqe_seq q)" | (cut) "off b (tqe_seq q) < off b e" "off b e < seg_end b q"
    | (cover) "off b (tqe_seq q) < off b e" "seg_end b q \<le> off b e" by linarith
  then show ?case
  proof cases
    case apart
    have "\<forall>y \<in> set (q # qs). off b e \<le> off b (tqe_seq y)"
      using apart g(3) seg_end_ge [of b q] by fastforce
    then have "segs_ok b str (max n (off b e)) (q # qs)" "seg_bytes b (q # qs) - {..< off b e} = seg_bytes b (q # qs)"
      using segs_ok_raise [OF Cons.prems(1), of "max n (off b e)"] Cons.prems(1)
      by (auto simp: segs_ok_def list_all_iff seg_bytes_def)
    then show ?thesis using Cons.prems(2) i apart by auto
  next
    case cut
    define q' where "q' = q\<lparr>tqe_seq := tqe_seq q + of_int (sint (e - tqe_seq q)), tqe_len := tqe_len q - sint (e - tqe_seq q),
      tqe_m := drop (nat (sint (e - tqe_seq q))) (tqe_m q)\<rparr>"
    have len: "sint (e - tqe_seq q) < tqe_len q" using i cut g(1) by (simp add: seg_end_def good_seg_def)
    then have q': "good_seg b str q'" "off b (tqe_seq q') = off b e" "seg_end b q' = seg_end b q"
      using good_seg_cut [OF g(1), of "sint (e - tqe_seq q)"] i cut(1) unfolding q'_def by auto
    have "r = q' # qs" "fr = []" using Cons.prems(2) i cut(1) len by (simp_all add: Let_def q'_def)
    moreover have "seg_bytes b qs - {..< off b e} = seg_bytes b qs"
      using g(3) cut(2) by (force simp: seg_bytes_def)
    moreover have "segs_ok b str (max n (off b e)) qs"
      using g(2-4) cut by (intro segs_ok_raise [OF g(4)]) fastforce
    moreover have "tqe_ref q' = tqe_ref q" by (simp add: q'_def)
    ultimately show ?thesis
      using q' g cut by auto
  next
    case cover
    obtain r' fr' where t: "trim_next e qs = (r', fr')" by fastforce
    have "\<not> sint (e - tqe_seq q) < tqe_len q" using i cover g(1) by (simp add: seg_end_def good_seg_def)
    then have "r = r'" "fr = q # fr'" using Cons.prems(2) i cover(1) t by (simp_all add: Let_def)
    then show ?thesis using Cons.IH [OF g(4) t] cover by auto
  qed
qed simp

text \<open>A segment between those before it and what is left of those behind it.\<close>

lemma insert_seg_bytes:
  assumes "segs_ok b str n (pre @ rest)" "n \<le> s0" "s0 \<le> s" "s \<le> e"
    "\<forall>x \<in> set pre. seg_end b x \<le> s" "\<forall>y \<in> set rest. s \<le> off b (tqe_seq y)" "{s0 ..< s} \<subseteq> seg_bytes b pre"
    "good_seg b str q" "off b (tqe_seq q) = s" "seg_end b q = e" "in_win b ew" "off b ew = e"
    "trim_next ew rest = (r, fr)"
  shows "segs_ok b str n (pre @ q # r) \<and> seg_bytes b (pre @ q # r) = seg_bytes b (pre @ rest) \<union> {s0 ..< e}"
proof -
  have t: "segs_ok b str (max n e) r" "seg_bytes b r = seg_bytes b rest - {..< e}"
    using trim_next_spec [OF _ assms(11,13), of str n] assms(1,12) by auto
  have "segs_ok b str n r" using t(1) by (rule segs_ok_weaken) simp
  moreover have "\<forall>y \<in> set r. e \<le> off b (tqe_seq y)" using t(1) by (auto simp: segs_ok_def list_all_iff)
  ultimately have "segs_ok b str n (pre @ q # r)"
    using assms(1-5,8-10) by fastforce
  moreover have "seg_bytes b rest \<subseteq> {s..}" using assms(6) by (fastforce simp: seg_bytes_def)
  then have "seg_bytes b (pre @ q # r) = seg_bytes b (pre @ rest) \<union> {s0 ..< e}"
    using t(2) assms(7,9,10) ivl_disj_un_two(3) [OF assms(3,4)] by auto
  ultimately show ?thesis by blast
qed

text \<open>What presenting changes of the data.\<close>

lemma age_remove_frame:
  "age_remove r tp = Inr tp' \<Longrightarrow> tp' = tp\<lparr>t_segageq := t_segageq tp'\<rparr>"
  by (auto simp: age_remove_def)

lemma present_one_data:
  assumes "present_one q qs rep rec tp = Inr (rep', rec', tp')" "\<not> so_cantrcvmore tp"
  shows "t_segq tp' = qs \<and> rcv_nxt tp' = rcv_nxt tp + of_int (tqe_len q) \<and> so_rcv tp' = so_rcv tp @ [Data (tqe_m q)] \<and>
    \<not> so_cantrcvmore tp' \<and> t_state tp' = t_state tp \<and> tcps_rcvmemdrop tp' = tcps_rcvmemdrop tp"
proof -
  obtain tp1 where tp1: "age_remove (tqe_ref q) tp = Inr tp1" using assms(1) by (auto simp: present_one_def)
  then have "so_cantrcvmore tp1 = so_cantrcvmore tp" "rcv_nxt tp1 = rcv_nxt tp" "so_rcv tp1 = so_rcv tp"
    "t_state tp1 = t_state tp" "tcps_rcvmemdrop tp1 = tcps_rcvmemdrop tp"
    using age_remove_frame by (metis reass.simps reass.surjective)+
  then show ?thesis
    using assms tp1 by (auto simp: present_one_def sbappendstream_def Let_def split: if_splits)
qed

lemma present_one_step:
  assumes "present_one q qs rep rec tp = Inr (rep', rec', tp')" "\<not> so_cantrcvmore tp"
    "segs_ok b str (off b (rcv_nxt tp)) (q # qs)" "tqe_seq q = rcv_nxt tp" "chunks_ok str p (so_rcv tp) (off b (rcv_nxt tp))"
  shows "data_inv b str p tp' \<and> off b (rcv_nxt tp) \<le> off b (rcv_nxt tp') \<and> t_segq tp' = qs \<and>
    held b tp' = {..< off b (rcv_nxt tp)} \<union> seg_bytes b (q # qs) \<and>
    t_state tp' = t_state tp \<and> tcps_rcvmemdrop tp' = tcps_rcvmemdrop tp"
proof -
  note tp' = present_one_data [OF assms(1,2)]
  have g: "good_seg b str q" using assms(3) by simp
  have nxt: "off b (rcv_nxt tp') = seg_end b q"
    using tp' g assms(4) off_plus_int [of "tqe_len q" b "rcv_nxt tp"] by (simp add: good_seg_def seg_end_def)
  have "chunks_ok str p (so_rcv tp') (off b (rcv_nxt tp'))"
    using tp' nxt g assms(4,5) by (auto simp: chunks_ok_append good_seg_def seg_end_def)
  moreover have "segs_ok b str (off b (rcv_nxt tp')) qs"
    using assms(3) nxt segs_ok_raise [of b str "off b (rcv_nxt tp)" qs "seg_end b q"] by simp
  moreover have "in_win b (rcv_nxt tp')" using nxt g by (simp add: in_win_def good_seg_def)
  moreover have "{..< off b (rcv_nxt tp)} \<union> {off b (tqe_seq q) ..< seg_end b q} = {..< seg_end b q}"
    using seg_end_ge [of b q] assms(4) by auto
  ultimately show ?thesis
    using tp' nxt seg_end_ge [of b q] assms(4) by (auto simp: data_inv_def held_def)
qed

lemma present_loop_data:
  assumes "present_loop (q # qs) fl rep rec tp = Inr (fl', rep', rec', tp')" "\<not> so_cantrcvmore tp"
    "segs_ok b str (off b (rcv_nxt tp)) (q # qs)" "tqe_seq q = rcv_nxt tp" "chunks_ok str p (so_rcv tp) (off b (rcv_nxt tp))"
  shows "data_inv b str p tp' \<and> off b (rcv_nxt tp) \<le> off b (rcv_nxt tp') \<and>
    held b tp' = {..< off b (rcv_nxt tp)} \<union> seg_bytes b (q # qs) \<and>
    (t_segq tp' = [] \<or> tqe_seq (hd (t_segq tp')) \<noteq> rcv_nxt tp') \<and>
    t_state tp' = t_state tp \<and> tcps_rcvmemdrop tp' = tcps_rcvmemdrop tp"
  using assms
proof (induction qs arbitrary: q fl rep rec tp)
  case Nil
  then obtain r1 r2 tp1 where o: "present_one q [] rep rec tp = Inr (r1, r2, tp1)" by auto
  then show ?case using present_one_step [OF o Nil.prems(2-5)] Nil.prems(1) by auto
next
  case (Cons q2 qs)
  then obtain r1 r2 tp1 where o: "present_one q (q2 # qs) rep rec tp = Inr (r1, r2, tp1)" by auto
  have s: "data_inv b str p tp1" "off b (rcv_nxt tp) \<le> off b (rcv_nxt tp1)" "t_segq tp1 = q2 # qs"
    "held b tp1 = {..< off b (rcv_nxt tp)} \<union> seg_bytes b (q # q2 # qs)" "t_state tp1 = t_state tp"
    "tcps_rcvmemdrop tp1 = tcps_rcvmemdrop tp"
    by (insert present_one_step [OF o Cons.prems(2-5)], (elim conjE, assumption)+)
  show ?case
  proof (cases "tqe_seq q2 = rcv_nxt tp1")
    case True
    then have "present_loop (q2 # qs) (tqe_flags q AND TH_FIN) r1 r2 tp1 = Inr (fl', rep', rec', tp')"
      using Cons.prems(1) o by (simp add: Let_def)
    note IH = Cons.IH [OF this _ _ True]
    have "\<not> so_cantrcvmore tp1" "segs_ok b str (off b (rcv_nxt tp1)) (q2 # qs)" "chunks_ok str p (so_rcv tp1) (off b (rcv_nxt tp1))"
      using s(1,3) by (simp_all add: data_inv_def)
    note IH = IH [OF this, unfolded s(5,6)]
    have "{..< off b (rcv_nxt tp1)} \<union> seg_bytes b (q2 # qs) = {..< off b (rcv_nxt tp)} \<union> seg_bytes b (q # q2 # qs)"
      using s(3,4) by (simp add: held_def)
    then show ?thesis using IH s(2) by (metis le_trans)
  next
    case False
    then have "tp' = tp1" using Cons.prems(1) o by (simp add: Let_def)
    then show ?thesis using s False by simp
  qed
qed

lemma map_segs:
  assumes "\<And>q. off b (tqe_seq (f q)) = off b (tqe_seq q) \<and> tqe_len (f q) = tqe_len q \<and> tqe_m (f q) = tqe_m q"
  shows "segs_ok b str n (map f qs) \<longleftrightarrow> segs_ok b str n qs" "seg_bytes b (map f qs) = seg_bytes b qs"
proof -
  have "seg_end b (f q) = seg_end b q" "good_seg b str (f q) \<longleftrightarrow> good_seg b str q" for q
    using assms [of q] by (simp_all add: seg_end_def good_seg_def)
  then show "segs_ok b str n (map f qs) \<longleftrightarrow> segs_ok b str n qs" "seg_bytes b (map f qs) = seg_bytes b qs"
    using assms by (simp_all add: segs_ok_def list_all_length sorted_wrt_map seg_bytes_def)
qed

text \<open>The state after presenting agrees with the state before on everything but the data.\<close>

definition presented :: "tcp_seq \<Rightarrow> (nat \<Rightarrow> u8) \<Rightarrow> nat \<Rightarrow> reass \<Rightarrow> reass \<Rightarrow> bool" where
  "presented b str p tp tp' \<longleftrightarrow> data_inv b str p tp' \<and> off b (rcv_nxt tp) \<le> off b (rcv_nxt tp') \<and>
     t_state tp' = t_state tp \<and> tcps_rcvmemdrop tp' = tcps_rcvmemdrop tp \<and>
     (TCPS_HAVEESTABLISHED (t_state tp) \<longrightarrow> t_segq tp' = [] \<or> tqe_seq (hd (t_segq tp')) \<noteq> rcv_nxt tp')"

lemma tm_frame [simp]:
  "presented b str p tp (tp'\<lparr>tm_reassdl := d\<rparr>) \<longleftrightarrow> presented b str p tp tp'" "held b (tp'\<lparr>tm_reassdl := d\<rparr>) = held b tp'"
  by (simp_all add: presented_def data_inv_def held_def)

lemma replace_tqs_data:
  assumes "replace_tqs rec tp = Inr tp'"
  shows "data_inv b str p tp' \<longleftrightarrow> data_inv b str p tp" and "held b tp' = held b tp" and "rcv_nxt tp' = rcv_nxt tp"
    and "t_state tp' = t_state tp" and "tcps_rcvmemdrop tp' = tcps_rcvmemdrop tp"
    and "t_segq tp' = [] \<or> tqe_seq (hd (t_segq tp')) \<noteq> n \<longleftrightarrow> t_segq tp = [] \<or> tqe_seq (hd (t_segq tp)) \<noteq> n"
proof -
  obtain r where r: "rec = Some r" using assms by (cases rec) (simp_all add: replace_tqs_def)
  define f where "f = (\<lambda>q :: tseg_qent. if tqe_ref q = Tqs then q\<lparr>tqe_ref := r\<rparr> else q)"
  have f: "off b (tqe_seq (f q)) = off b (tqe_seq q) \<and> tqe_len (f q) = tqe_len q \<and> tqe_m (f q) = tqe_m q"
    "tqe_seq (f q) = tqe_seq q" for q
    by (simp_all add: f_def)
  note segs = map_segs [of b f, OF f(1)]
  have tp': "tp' = tp\<lparr>t_segq := map f (t_segq tp), t_segageq := map (\<lambda>x. if x = Tqs then r else x) (t_segageq tp)\<rparr>"
    using assms r by (simp add: replace_tqs_def f_def)
  show "data_inv b str p tp' \<longleftrightarrow> data_inv b str p tp" "held b tp' = held b tp" "rcv_nxt tp' = rcv_nxt tp"
    "t_state tp' = t_state tp" "tcps_rcvmemdrop tp' = tcps_rcvmemdrop tp"
    by (simp_all add: tp' data_inv_def held_def segs)
  show "t_segq tp' = [] \<or> tqe_seq (hd (t_segq tp')) \<noteq> n \<longleftrightarrow> t_segq tp = [] \<or> tqe_seq (hd (t_segq tp)) \<noteq> n"
    by (cases "t_segq tp") (simp_all add: tp' f(2))
qed

lemma present_loop_presented:
  assumes "present_loop (q # qs) 0 rep None tp = Inr (fl, rep', rec, tp1)"
    "(if rep' then replace_tqs rec tp1 else Inr tp1) = Inr tp2"
    "tp' = tp2\<lparr>tm_reassdl := d\<rparr> \<or> tp' = tp2"
    "data_inv b str p tp" "t_segq tp = q # qs" "tqe_seq q = rcv_nxt tp"
  shows "presented b str p tp tp' \<and> held b tp' = held b tp"
proof -
  have l: "data_inv b str p tp1" "off b (rcv_nxt tp) \<le> off b (rcv_nxt tp1)" "held b tp1 = held b tp"
    "t_segq tp1 = [] \<or> tqe_seq (hd (t_segq tp1)) \<noteq> rcv_nxt tp1" "t_state tp1 = t_state tp" "tcps_rcvmemdrop tp1 = tcps_rcvmemdrop tp"
    using present_loop_data [OF assms(1), of b str p] assms(4-6) by (simp_all add: data_inv_def held_def)
  have "presented b str p tp tp2 \<and> held b tp2 = held b tp"
  proof (cases rep')
    case True
    then have r: "replace_tqs rec tp1 = Inr tp2" using assms(2) by simp
    show ?thesis
      unfolding presented_def replace_tqs_data(1-5) [OF r] replace_tqs_data(6) [OF r, of "rcv_nxt tp1"] using l by simp
  next
    case False
    then show ?thesis using assms(2) l by (simp add: presented_def)
  qed
  with assms(3) show ?thesis by (elim disjE) (simp_all only: tm_frame)
qed

lemma present_data:
  assumes "present env dlh rep tp = Inr (fl, tp')" "data_inv b str p tp"
  shows "presented b str p tp tp' \<and> held b tp \<subseteq> held b tp' \<and> (\<not> dlh \<longrightarrow> held b tp' = held b tp)"
proof (cases "TCPS_HAVEESTABLISHED (t_state tp) \<and> t_segq tp \<noteq> [] \<and> (tqe_seq (hd (t_segq tp)) = rcv_nxt tp \<or> dlh)")
  case False
  then have "tp' = tp \<or> (\<exists>d. tp' = tp\<lparr>tm_reassdl := d\<rparr>)"
    using assms(1) by (cases "t_segq tp") (auto simp: present_def split: if_splits)
  moreover have "presented b str p tp tp" using False assms(2) unfolding presented_def by fastforce
  ultimately show ?thesis by (elim disjE exE) (simp_all only: tm_frame subset_refl simp_thms)
next
  case True
  then obtain q qs where q: "t_segq tp = q # qs" by (meson neq_Nil_conv)
  define k where "k = sint (tqe_seq q - rcv_nxt tp)"
  define tp0 where "tp0 = (if dlh then tp\<lparr>so_rcv := so_rcv tp @ [Hole k], rcv_nxt := tqe_seq q\<rparr> else tp)"
  have cant: "\<not> so_cantrcvmore tp" using assms(2) by (simp add: data_inv_def)
  have "res_bind (present_loop (q # qs) 0 rep None tp0) (\<lambda>(flags, rep, rec, tp).
      res_bind (if rep then replace_tqs rec tp else Inr tp) (\<lambda>tp.
      res_bind (tcp_reass_next_hole_deadline env tp) (\<lambda>d.
      Inr (flags, if tm_reassdl tp = 0 \<or> d = 0 then tp\<lparr>tm_reassdl := d\<rparr> else tp)))) = Inr (fl, tp')"
  proof (cases dlh)
    case d: True
    have "re_gethole env" using assms(1) True q cant d by (cases "re_gethole env") (simp_all add: present_def append_hole_def)
    then show ?thesis
      using assms(1) True q cant d by (simp add: present_def append_hole_def sbappendstream_def tp0_def k_def del: res_bind_Inr_iff)
  next
    case False
    then show ?thesis using assms(1) True q by (simp add: present_def tp0_def del: res_bind_Inr_iff)
  qed
  then obtain rep' rec tp1 tp2 d where run: "present_loop (q # qs) 0 rep None tp0 = Inr (fl, rep', rec, tp1)"
    "(if rep' then replace_tqs rec tp1 else Inr tp1) = Inr tp2" "tp' = tp2\<lparr>tm_reassdl := d\<rparr> \<or> tp' = tp2"
    unfolding res_bind_Inr_iff by (clarsimp split: prod.splits) (metis (full_types))
  have g: "good_seg b str q" "off b (rcv_nxt tp) \<le> off b (tqe_seq q)" "in_win b (rcv_nxt tp)"
    using assms(2) q by (simp_all add: data_inv_def)
  have "k = int (off b (tqe_seq q)) - int (off b (rcv_nxt tp))"
    unfolding k_def using SEQ_sint [OF good_seg_win [OF g(1)] g(3)] .
  then have k: "0 \<le> k" "off b (rcv_nxt tp) + nat k = off b (tqe_seq q)" using g(2) by auto
  have "\<forall>y \<in> set (q # qs). off b (tqe_seq q) \<le> off b (tqe_seq y)"
    using assms(2) q seg_end_ge [of b q] by (fastforce simp: data_inv_def)
  moreover have "segs_ok b str (off b (rcv_nxt tp)) (q # qs)" using assms(2) q by (simp add: data_inv_def)
  ultimately have "segs_ok b str (off b (tqe_seq q)) (q # qs)" by (rule segs_ok_raise [rotated])
  then have "data_inv b str p tp0"
    using assms(2) q k good_seg_win [OF g(1)] by (auto simp: tp0_def data_inv_def chunks_ok_append)
  moreover have "tqe_seq q = rcv_nxt tp0" "t_segq tp0 = q # qs" using True q by (auto simp: tp0_def)
  ultimately have "presented b str p tp0 tp' \<and> held b tp' = held b tp0"
    using present_loop_presented [OF run] by blast
  moreover have "held b tp \<subseteq> held b tp0" "\<not> dlh \<Longrightarrow> tp0 = tp" using g(2) by (auto simp: tp0_def held_def)
  moreover have "off b (rcv_nxt tp) \<le> off b (rcv_nxt tp0)" "t_state tp0 = t_state tp" "tcps_rcvmemdrop tp0 = tcps_rcvmemdrop tp"
    using g(2) by (simp_all add: tp0_def)
  ultimately show ?thesis unfolding presented_def by fastforce
qed

text \<open>A segment that holds the piece of the stream its header says.\<close>

definition good_arrival :: "tcp_seq \<Rightarrow> (nat \<Rightarrow> u8) \<Rightarrow> tcp_seq \<Rightarrow> int \<Rightarrow> u8 list \<Rightarrow> bool" where
  "good_arrival b str sq tlen m \<longleftrightarrow> 0 \<le> tlen \<and> off b sq + nat tlen < 2 ^ 31 \<and>
     m = map str [off b sq ..< off b sq + nat tlen]"

lemma split_queue:
  assumes "segs_ok b str n qs" "in_win b s"
  defines "pre \<equiv> takeWhile (\<lambda>q. \<not> SEQ_GT (tqe_seq q) s) qs" and "rest \<equiv> dropWhile (\<lambda>q. \<not> SEQ_GT (tqe_seq q) s) qs"
  shows "qs = pre @ rest" "\<forall>x \<in> set pre. off b (tqe_seq x) \<le> off b s" "\<forall>y \<in> set rest. off b s < off b (tqe_seq y)"
proof -
  have gt: "SEQ_GT (tqe_seq q) s \<longleftrightarrow> off b s < off b (tqe_seq q)" if "q \<in> set qs" for q
    using assms(1,2) that good_seg_win by (intro seq.gt_rank) (auto simp: segs_ok_def list_all_iff)
  show split: "qs = pre @ rest" by (simp add: pre_def rest_def)
  show "\<forall>x \<in> set pre. off b (tqe_seq x) \<le> off b s"
    using gt unfolding pre_def by (metis not_le_imp_less set_takeWhileD)
  show "\<forall>y \<in> set rest. off b s < off b (tqe_seq y)"
  proof (cases rest)
    case (Cons y ys)
    then have "SEQ_GT (tqe_seq y) s" using hd_dropWhile [of "\<lambda>q. \<not> SEQ_GT (tqe_seq q) s" qs] unfolding rest_def by force
    then have "off b s < off b (tqe_seq y)" using gt [of y] split Cons by simp
    then show ?thesis using assms(1) split Cons seg_end_ge [of b y] by fastforce
  qed simp
qed

text \<open>How much of the new segment the one before it has.\<close>

lemma overlap_before:
  assumes "segs_ok b str n pre" "pre \<noteq> []" "\<forall>x \<in> set pre. off b (tqe_seq x) \<le> off b s" "in_win b s"
  shows "sint (tqe_seq (last pre) + of_int (tqe_len (last pre)) - s) = int (seg_end b (last pre)) - int (off b s)"
    "\<forall>x \<in> set pre. seg_end b x \<le> seg_end b (last pre)" "{off b s ..< seg_end b (last pre)} \<subseteq> seg_bytes b pre"
proof -
  obtain xs p where p: "pre = xs @ [p]" using assms(2) by (meson rev_exhaust)
  have g: "good_seg b str p" using assms(1) p by simp
  have o: "off b (tqe_seq p + of_int (tqe_len p)) = seg_end b p"
    using g off_plus_int [of "tqe_len p" b "tqe_seq p"] by (simp add: good_seg_def seg_end_def)
  then have "in_win b (tqe_seq p + of_int (tqe_len p))" using g by (simp add: in_win_def good_seg_def)
  then show "sint (tqe_seq (last pre) + of_int (tqe_len (last pre)) - s) = int (seg_end b (last pre)) - int (off b s)"
    using SEQ_sint [of b "tqe_seq p + of_int (tqe_len p)" s] assms(4) o p by simp
  show "\<forall>x \<in> set pre. seg_end b x \<le> seg_end b (last pre)"
    using assms(1) p seg_end_ge [of b p] by fastforce
  show "{off b s ..< seg_end b (last pre)} \<subseteq> seg_bytes b pre" using assms(3) p by auto
qed

lemma insert_seg_data:
  assumes "insert_seg env te th tlen m pre rest tp = Inr tp'" "good_arrival b str (th_seq th) tlen m"
    "segs_ok b str n (pre @ rest)" "n \<le> s0" "s0 \<le> off b (th_seq th)" "{s0 ..< off b (th_seq th)} \<subseteq> seg_bytes b pre"
    "\<forall>x \<in> set pre. seg_end b x \<le> off b (th_seq th)" "\<forall>y \<in> set rest. off b (th_seq th) \<le> off b (tqe_seq y)"
  shows "segs_ok b str n (t_segq tp') \<and>
    seg_bytes b (t_segq tp') = seg_bytes b (pre @ rest) \<union> {s0 ..< off b (th_seq th) + nat tlen} \<and>
    rcv_nxt tp' = rcv_nxt tp \<and> so_rcv tp' = so_rcv tp \<and> so_cantrcvmore tp' = so_cantrcvmore tp \<and>
    t_state tp' = t_state tp \<and> tcps_rcvmemdrop tp' = tcps_rcvmemdrop tp"
proof -
  obtain r fr where t: "trim_next (th_seq th + of_int tlen) rest = (r, fr)" by fastforce
  let ?q = "\<lparr>tqe_ref = te, tqe_len = tlen, tqe_seq = th_seq th, tqe_flags = th_flags th, tqe_m = m, tqe_ticks = re_ticks env\<rparr>"
  have q: "good_seg b str ?q" "seg_end b ?q = off b (th_seq th) + nat tlen"
    using assms(2) by (simp_all add: good_seg_def good_arrival_def seg_end_def)
  have e: "off b (th_seq th + of_int tlen) = off b (th_seq th) + nat tlen"
    using assms(2) off_plus_int [of tlen b "th_seq th"] by (simp add: good_arrival_def)
  then have "in_win b (th_seq th + of_int tlen)" using assms(2) by (simp add: in_win_def good_arrival_def)
  from insert_seg_bytes [OF assms(3-5) _ assms(7,8,6) q(1) _ q(2) this e t]
  have "segs_ok b str n (pre @ ?q # r)"
    "seg_bytes b (pre @ ?q # r) = seg_bytes b (pre @ rest) \<union> {s0 ..< off b (th_seq th) + nat tlen}"
    by simp_all
  moreover have "t_segq tp' = pre @ ?q # r" "rcv_nxt tp' = rcv_nxt tp" "so_rcv tp' = so_rcv tp" "so_cantrcvmore tp' = so_cantrcvmore tp"
    "t_state tp' = t_state tp" "tcps_rcvmemdrop tp' = tcps_rcvmemdrop tp"
    using assms(1) t by (auto simp: insert_seg_def age_insert_tail_def Let_def split: if_splits)
  ultimately show ?thesis by simp
qed

lemma presented_frame:
  assumes "presented b str p tp1 tp'" "rcv_nxt tp1 = rcv_nxt tp" "t_state tp1 = t_state tp" "tcps_rcvmemdrop tp1 = tcps_rcvmemdrop tp"
  shows "presented b str p tp tp'"
  using assms by (simp add: presented_def)

text \<open>\<^verbatim>\<open>tcp_reass\<close> behind the allocation, with the position and the overlap named.\<close>

lemma queue_seg_eq:
  fixes th :: tcphdr
  assumes "pre = takeWhile (\<lambda>q. \<not> SEQ_GT (tqe_seq q) (th_seq th)) (t_segq tp)"
    "rest = dropWhile (\<lambda>q. \<not> SEQ_GT (tqe_seq q) (th_seq th)) (t_segq tp)"
    "i = (if pre = [] then 0 else sint (tqe_seq (last pre) + of_int (tqe_len (last pre)) - th_seq th))"
  shows "queue_seg env te dlh th tlen m tp =
    (if i > 0 \<and> i \<ge> tlen then
       res_bind (present env dlh False (tp\<lparr>tcps_rcvduppack := Suc (tcps_rcvduppack tp),
          zone_freed := (if te \<noteq> Tqs then zone_freed tp @ [te] else zone_freed tp)\<rparr>)) (\<lambda>(flags, tp). Inr (flags, tlen, th_seq th, tp))
     else
       res_bind (insert_seg env te (th\<lparr>th_seq := th_seq th + of_int (max 0 i)\<rparr>) (tlen - max 0 i) (drop (nat i) m) pre rest
          (tp\<lparr>t_segqlen := t_segqlen tp + 1\<rparr>)) (\<lambda>tp.
       res_bind (present env dlh (pre \<noteq> [] \<and> re_passive env \<and> te = Tqs) tp) (\<lambda>(flags, tp).
       Inr (flags, tlen - max 0 i, th_seq th + of_int (max 0 i), tp))))"
  unfolding queue_seg_def Let_def assms(1,2) [symmetric] assms(3) [symmetric] by (auto simp: max_def)

text \<open>The position of the new segment once its front, of size \<open>k\<close>, is cut away.\<close>

lemma cut_position:
  assumes "segs_ok b str n (pre @ rest)" "\<forall>x \<in> set pre. off b (tqe_seq x) \<le> off b s" "\<forall>y \<in> set rest. off b s < off b (tqe_seq y)"
    "in_win b s"
  defines "i \<equiv> (if pre = [] then 0 else sint (tqe_seq (last pre) + of_int (tqe_len (last pre)) - s))"
  shows "{off b s ..< off b s + nat i} \<subseteq> seg_bytes b pre" "\<forall>x \<in> set pre. seg_end b x \<le> off b s + nat i"
    "\<forall>y \<in> set rest. off b s + nat i \<le> off b (tqe_seq y)"
proof -
  have "{off b s ..< off b s + nat i} \<subseteq> seg_bytes b pre \<and> (\<forall>x \<in> set pre. seg_end b x \<le> off b s + nat i) \<and>
    (\<forall>y \<in> set rest. off b s + nat i \<le> off b (tqe_seq y))"
  proof (cases "pre = []")
    case True
    then show ?thesis using assms(3) by (simp add: i_def less_imp_le)
  next
    case False
    note ov = overlap_before [of b str n pre s, OF _ False assms(2,4)]
    have i: "i = int (seg_end b (last pre)) - int (off b s)" using ov(1) assms(1) False by (simp add: i_def)
    have "seg_end b (last pre) \<le> off b s + nat i" "nat i = 0 \<or> off b s + nat i = seg_end b (last pre)"
      unfolding i by linarith+
    moreover have "\<forall>y \<in> set rest. seg_end b (last pre) \<le> off b (tqe_seq y)"
      using assms(1) False by (auto simp: segs_ok_def sorted_wrt_append)
    ultimately show ?thesis using ov(2,3) assms(1,3) by (fastforce simp: less_imp_le)
  qed
  then show "{off b s ..< off b s + nat i} \<subseteq> seg_bytes b pre" "\<forall>x \<in> set pre. seg_end b x \<le> off b s + nat i"
    "\<forall>y \<in> set rest. off b s + nat i \<le> off b (tqe_seq y)" by simp_all
qed

lemma good_arrival_drop:
  assumes "good_arrival b str sq tlen m" "int k \<le> tlen"
  shows "off b (sq + of_int (int k)) = off b sq + k" "good_arrival b str (sq + of_int (int k)) (tlen - int k) (drop k m)"
proof -
  have "off b sq + k < 2 ^ 32" using assms by (simp add: good_arrival_def) linarith
  from off_plus [OF this] show o: "off b (sq + of_int (int k)) = off b sq + k" by simp
  show "good_arrival b str (sq + of_int (int k)) (tlen - int k) (drop k m)"
    using assms unfolding good_arrival_def o by (auto simp: drop_map nat_diff_distrib)
qed

lemma queue_seg_data:
  assumes run: "queue_seg env te dlh th tlen m tp = Inr (fl, tlen2, sq, tp')" and inv: "data_inv b str p tp"
    and arr: "good_arrival b str (th_seq th) tlen m" "off b (rcv_nxt tp) \<le> off b (th_seq th)"
  defines "new \<equiv> held b tp \<union> {off b (th_seq th) ..< off b (th_seq th) + nat tlen}"
  shows "presented b str p tp tp' \<and> new \<subseteq> held b tp' \<and> (\<not> dlh \<longrightarrow> held b tp' = new)"
proof -
  have win: "in_win b (th_seq th)" using arr(1) by (simp add: good_arrival_def in_win_def)
  have segs: "segs_ok b str (off b (rcv_nxt tp)) (t_segq tp)" using inv by (simp add: data_inv_def)
  define pre rest where "pre = takeWhile (\<lambda>q. \<not> SEQ_GT (tqe_seq q) (th_seq th)) (t_segq tp)"
    and "rest = dropWhile (\<lambda>q. \<not> SEQ_GT (tqe_seq q) (th_seq th)) (t_segq tp)"
  note sp = split_queue [OF segs win, folded pre_def rest_def]
  have pr: "segs_ok b str (off b (rcv_nxt tp)) (pre @ rest)" using segs sp(1) by simp
  define i where "i = (if pre = [] then 0 else sint (tqe_seq (last pre) + of_int (tqe_len (last pre)) - th_seq th))"
  note eq = queue_seg_eq [OF pre_def rest_def i_def, of env te dlh tlen m]
  note cut = cut_position [OF pr sp(2,3) win, folded i_def]
  show ?thesis
  proof (cases "i > 0 \<and> i \<ge> tlen")
    case True
    define tp1 where "tp1 = tp\<lparr>tcps_rcvduppack := Suc (tcps_rcvduppack tp),
      zone_freed := (if te \<noteq> Tqs then zone_freed tp @ [te] else zone_freed tp)\<rparr>"
    obtain fl' where pres: "present env dlh False tp1 = Inr (fl', tp')"
      using run True unfolding eq tp1_def by auto
    have tp1: "data_inv b str p tp1" "held b tp1 = held b tp" using inv by (simp_all add: tp1_def data_inv_def held_def)
    have "{off b (th_seq th) ..< off b (th_seq th) + nat tlen} \<subseteq> seg_bytes b pre" using cut(1) True by fastforce
    moreover have "seg_bytes b pre \<subseteq> held b tp" unfolding held_def sp(1) by auto
    ultimately have "new = held b tp1" unfolding tp1(2) new_def by blast
    moreover have fr: "rcv_nxt tp1 = rcv_nxt tp" "t_state tp1 = t_state tp" "tcps_rcvmemdrop tp1 = tcps_rcvmemdrop tp"
      by (simp_all add: tp1_def)
    ultimately show ?thesis using present_data [OF pres tp1(1)] presented_frame [OF _ fr] by blast
  next
    case False
    define k th1 where "k = nat i" and "th1 = th\<lparr>th_seq := th_seq th + of_int (int k)\<rparr>"
    have k: "max 0 i = int k" "int k \<le> tlen" using False arr(1) by (auto simp: k_def good_arrival_def)
    have o1: "off b (th_seq th1) = off b (th_seq th) + k" and a1: "good_arrival b str (th_seq th1) (tlen - int k) (drop k m)"
      using good_arrival_drop [OF arr(1) k(2)] by (simp_all add: th1_def)
    obtain tp1 fl' where ins: "insert_seg env te th1 (tlen - int k) (drop k m) pre rest (tp\<lparr>t_segqlen := t_segqlen tp + 1\<rparr>) = Inr tp1"
      and pres: "present env dlh (pre \<noteq> [] \<and> re_passive env \<and> te = Tqs) tp1 = Inr (fl', tp')"
      using run False unfolding eq k(1) k_def [symmetric] th1_def [symmetric] by (auto simp: res_bind_Inr_iff)
    have d: "segs_ok b str (off b (rcv_nxt tp)) (t_segq tp1) \<and>
      seg_bytes b (t_segq tp1) = seg_bytes b (pre @ rest) \<union> {off b (th_seq th) ..< off b (th_seq th1) + nat (tlen - int k)} \<and>
      rcv_nxt tp1 = rcv_nxt tp \<and> so_rcv tp1 = so_rcv tp \<and> so_cantrcvmore tp1 = so_cantrcvmore tp \<and>
      t_state tp1 = t_state tp \<and> tcps_rcvmemdrop tp1 = tcps_rcvmemdrop tp"
      using insert_seg_data [OF ins a1 pr arr(2)] cut by (simp add: o1 k_def [symmetric])
    then have fr: "rcv_nxt tp1 = rcv_nxt tp" "t_state tp1 = t_state tp" "tcps_rcvmemdrop tp1 = tcps_rcvmemdrop tp" by simp_all
    have inv1: "data_inv b str p tp1" using inv d by (simp add: data_inv_def)
    have "held b tp1 = new" using d sp(1) k(2) by (simp add: held_def new_def o1 nat_diff_distrib Un_assoc)
    then show ?thesis using present_data [OF pres inv1] presented_frame [OF _ fr] by blast
  qed
qed

lemma presented_missing:
  assumes "presented b str p tp tp'" "TCPS_HAVEESTABLISHED (t_state tp)"
  shows "off b (rcv_nxt tp') \<notin> held b tp'"
proof (cases "t_segq tp'")
  case (Cons q qs)
  have segs: "segs_ok b str (off b (rcv_nxt tp')) (q # qs)" and q: "tqe_seq q \<noteq> rcv_nxt tp'"
    using assms Cons by (auto simp: presented_def data_inv_def)
  then have "off b (rcv_nxt tp') < off b (tqe_seq q)" by (simp add: segs_ok_def order_less_le)
  moreover have "off b (tqe_seq q) \<le> off b (tqe_seq x)" if "x \<in> set (q # qs)" for x
    using segs that seg_end_ge [of b q] by (fastforce simp: segs_ok_def)
  ultimately show ?thesis using Cons by (fastforce simp: held_def seg_bytes_def)
qed (simp add: held_def)

lemma presented_least:
  assumes "presented b str p tp tp'" "TCPS_HAVEESTABLISHED (t_state tp)"
  shows "off b (rcv_nxt tp') = (LEAST n. n \<notin> held b tp')"
proof (rule sym, rule Least_equality)
  show "off b (rcv_nxt tp') \<notin> held b tp'" by (rule presented_missing [OF assms])
qed (rule ccontr, simp add: held_def)

text \<open>The branches of \<^verbatim>\<open>tcp_reass\<close> up to the allocation.\<close>

definition out_of_order :: "tcphdr \<Rightarrow> reass \<Rightarrow> bool" where
  "out_of_order th tp \<longleftrightarrow> th_seq th \<noteq> rcv_nxt tp \<or> \<not> TCPS_HAVEESTABLISHED (t_state tp)"

definition queue_full :: "tcphdr \<Rightarrow> reass \<Rightarrow> bool" where
  "queue_full th tp \<longleftrightarrow> out_of_order th tp \<and> of_int (t_segqlen tp) \<ge> sb_hiwat tp div t_maxseg tp + 1"

definition count_overflow :: "tcphdr \<Rightarrow> reass \<Rightarrow> reass" where
  "count_overflow th tp = (if queue_full th tp then tp\<lparr>tcp_reass_overflows := Suc (tcp_reass_overflows tp)\<rparr> else tp)"

lemma count_overflow_frame [simp]:
  "rcv_nxt (count_overflow th tp) = rcv_nxt tp" "t_state (count_overflow th tp) = t_state tp" "t_segq (count_overflow th tp) = t_segq tp"
  "so_rcv (count_overflow th tp) = so_rcv tp" "tcps_rcvmemdrop (count_overflow th tp) = tcps_rcvmemdrop tp"
  "t_segageq (count_overflow th tp) = t_segageq tp" "so_cantrcvmore (count_overflow th tp) = so_cantrcvmore tp"
  "data_inv b str p (count_overflow th tp) = data_inv b str p tp" "held b (count_overflow th tp) = held b tp"
  by (simp_all add: count_overflow_def data_inv_def held_def)

lemma tcp_reass_cases:
  assumes "t_maxseg tp \<noteq> 0"
  obtains (drop) "tcp_reass env (Some (th, tlen, m)) tp = reass_drop th (count_overflow th tp)" "\<not> re_passive env" "queue_full th tp \<or> re_zalloc env = None"
  | (zone) te where "tcp_reass env (Some (th, tlen, m)) tp = queue_seg env (Zone te) (queue_full th tp) th tlen m (count_overflow th tp)"
      "re_zalloc env = Some te" "queue_full th tp \<longrightarrow> re_passive env"
  | (stack) "tcp_reass env (Some (th, tlen, m)) tp = queue_seg env Tqs (out_of_order th tp) th tlen m (count_overflow th tp)"
      "re_zalloc env = None" "out_of_order th tp \<longrightarrow> re_passive env"
proof -
  have fo: "(queue_full th tp \<or> out_of_order th tp) = out_of_order th tp" by (auto simp: queue_full_def)
  have "tcp_reass env (Some (th, tlen, m)) tp =
    (if queue_full th tp \<and> \<not> re_passive env then reass_drop th (count_overflow th tp)
     else case re_zalloc env of
       Some te \<Rightarrow> queue_seg env (Zone te) (queue_full th tp) th tlen m (count_overflow th tp)
     | None \<Rightarrow>
         if out_of_order th tp \<and> \<not> re_passive env then reass_drop th (count_overflow th tp)
         else queue_seg env Tqs (out_of_order th tp) th tlen m (count_overflow th tp))"
    using assms unfolding tcp_reass_def Let_def option.case prod.case out_of_order_def [symmetric] queue_full_def [symmetric]
      count_overflow_def [symmetric] fo by simp
  then show ?thesis using that
    by (cases "queue_full th tp \<and> \<not> re_passive env"; cases "re_zalloc env"; cases "out_of_order th tp \<and> \<not> re_passive env") auto
qed

lemma tcp_reass_data:
  assumes run: "tcp_reass env (Some (th, tlen, m)) tp = Inr (fl, tlen2, sq, tp')" and inv: "data_inv b str p tp"
    and arr: "good_arrival b str (th_seq th) tlen m" "off b (rcv_nxt tp) \<le> off b (th_seq th)"
  shows "\<not> re_passive env \<and> tlen2 = 0 \<and> tp' = (count_overflow th tp)\<lparr>tcps_rcvmemdrop := Suc (tcps_rcvmemdrop tp)\<rparr> \<or>
    presented b str p tp tp' \<and> held b tp \<union> {off b (th_seq th) ..< off b (th_seq th) + nat tlen} \<subseteq> held b tp' \<and>
    (\<not> re_passive env \<longrightarrow> held b tp' = held b tp \<union> {off b (th_seq th) ..< off b (th_seq th) + nat tlen})"
proof -
  have q: ?thesis if "queue_seg env te dlh th tlen m (count_overflow th tp) = Inr (fl, tlen2, sq, tp')" "dlh \<longrightarrow> re_passive env" for te dlh
  proof -
    note d = queue_seg_data [OF that(1) _ arr(1), of p, unfolded count_overflow_frame, OF inv arr(2)]
    have "presented b str p tp tp'" using d by (blast intro: presented_frame [of b str p "count_overflow th tp"] count_overflow_frame)
    then show ?thesis using d that(2) by blast
  qed
  show ?thesis
  proof (cases "t_maxseg tp = 0")
    case True
    then have "\<not> out_of_order th tp" "\<not> queue_full th tp" using run by (auto simp: tcp_reass_def Let_def out_of_order_def queue_full_def split: if_splits)
    moreover have "count_overflow th tp = tp" using calculation by (simp add: count_overflow_def)
    ultimately show ?thesis
      using run q unfolding tcp_reass_def Let_def option.case prod.case out_of_order_def [symmetric] queue_full_def [symmetric]
      by (auto split: option.splits)
  next
    case False
    then show ?thesis
    proof (rule tcp_reass_cases [of tp env th tlen m])
      assume "tcp_reass env (Some (th, tlen, m)) tp = reass_drop th (count_overflow th tp)" "\<not> re_passive env"
      then show ?thesis using run by (auto simp: reass_drop_def)
    qed (use run q in auto)
  qed
qed

section \<open>Properties\<close>


section \<open>Instances\<close>

text \<open>
  A queue across the wrap of the number space: 16 bytes of the stream have been delivered, eight
  more are queued behind a gap of ten; the new segment fills the gap and overlaps the queued one.
\<close>

definition reass_demo :: reass where
  "reass_demo = \<lparr>t_segq = [\<lparr>tqe_ref = Zone 0, tqe_len = 8, tqe_seq = 10, tqe_flags = 0, tqe_m = [26, 27, 28, 29, 30, 31, 32, 33], tqe_ticks = 0\<rparr>],
     t_segageq = [Zone 0], t_segqlen = 1, t_state = TCPS_ESTABLISHED, t_maxseg = 1448, rcv_nxt = 0, so_rcv = [], so_cantrcvmore = False,
     sb_hiwat = 65536, tm_reassdl = 0, zone_freed = [], tcp_reass_overflows = 0, tcps_rcvmemdrop = 0, tcps_rcvduppack = 0,
     t_rcvoopack = 0, t_starttime = 0\<rparr>"

definition reass_demo_env :: reass_env where
  "reass_demo_env = \<lparr>re_passive = False, re_zalloc = Some 1, re_gethole = True, re_ticks = 5, re_reassdl = 100\<rparr>"

end
