(* ===== verification/Tcp_Reass_Live.thy ===== *)
theory Tcp_Reass_Live
  imports Tcp_Reass_Data
begin

text \<open>
  The reassembly queue and its second queue, by age: as long as both hold the same entries
  \<^verbatim>\<open>tcp_reass\<close> returns and keeps them so. It does not when a new segment covers a queued one:
  that one is freed and stays in the queue by age.
\<close>

section \<open>The two queues\<close>

abbreviation refs :: "tseg_qent list \<Rightarrow> tqe_ref set" where "refs qs \<equiv> tqe_ref ` set qs"

definition age_inv :: "reass \<Rightarrow> bool" where
  "age_inv tp \<longleftrightarrow> distinct (t_segageq tp) \<and> distinct (map tqe_ref (t_segq tp)) \<and> set (t_segageq tp) = refs (t_segq tp)"

text \<open>
  The queue between calls: both queues agree, no entry is on the stack, and on an established
  connection the first segment is not the next one expected.
\<close>

definition queue_inv :: "reass \<Rightarrow> bool" where
  "queue_inv tp \<longleftrightarrow> age_inv tp \<and> Tqs \<notin> refs (t_segq tp) \<and>
     (TCPS_HAVEESTABLISHED (t_state tp) \<longrightarrow> t_segq tp = [] \<or> tqe_seq (hd (t_segq tp)) \<noteq> rcv_nxt tp)"

lemma age_unlink_ok:
  assumes "distinct l" "r \<in> set l" "\<And>x. x \<in> set l \<Longrightarrow> lv x"
  shows "age_unlink lv r l = Inr (remove1 r l)"
  using assms by (induction lv r l rule: age_unlink.induct) auto

lemma age_remove_ok:
  assumes "age_inv tp" "t_segq tp = q # qs"
  shows "age_remove (tqe_ref q) tp = Inr (tp\<lparr>t_segageq := remove1 (tqe_ref q) (t_segageq tp)\<rparr>)"
proof -
  have "age_unlink (live tp) (tqe_ref q) (t_segageq tp) = Inr (remove1 (tqe_ref q) (t_segageq tp))"
    using assms by (intro age_unlink_ok) (auto simp: age_inv_def live_def)
  then show ?thesis by (simp add: age_remove_def)
qed

lemma age_inv_tail:
  assumes "age_inv tp" "t_segq tp = q # qs" "t_segq tp' = qs" "t_segageq tp' = remove1 (tqe_ref q) (t_segageq tp)"
  shows "age_inv tp'"
  using assms by (auto simp: age_inv_def)

lemma deadline_ok: "age_inv tp \<Longrightarrow> \<exists>d. tcp_reass_next_hole_deadline env tp = Inr d"
proof (cases "t_segageq tp")
  case (Cons r rs)
  assume "age_inv tp"
  then have "r \<in> refs (t_segq tp)" using Cons unfolding age_inv_def by (metis list.set_intros(1))
  then have "find (\<lambda>q. tqe_ref q = r) (t_segq tp) \<noteq> None" by (auto simp: find_None_iff)
  then show ?thesis using Cons by (auto simp: tcp_reass_next_hole_deadline_def Let_def)
qed (simp add: tcp_reass_next_hole_deadline_def)

section \<open>Presenting data\<close>

lemma present_one_ok:
  assumes "age_inv tp" "t_segq tp = q # qs"
  shows "\<exists>tp'. present_one q qs rep rec tp =
      Inr (rep \<and> tqe_ref q \<noteq> Tqs, if tqe_ref q \<noteq> Tqs \<and> rep \<and> rec = None then Some (tqe_ref q) else rec, tp') \<and>
    age_inv tp' \<and> t_segq tp' = qs"
proof -
  note [simp] = age_remove_ok [OF assms]
  have "\<exists>tp'. present_one q qs rep rec tp =
      Inr (rep \<and> tqe_ref q \<noteq> Tqs, if tqe_ref q \<noteq> Tqs \<and> rep \<and> rec = None then Some (tqe_ref q) else rec, tp') \<and>
    t_segq tp' = qs \<and> t_segageq tp' = remove1 (tqe_ref q) (t_segageq tp)"
    by (simp add: present_one_def sbappendstream_def Let_def)
  then show ?thesis using age_inv_tail [OF assms] by blast
qed

text \<open>
  The entry on the stack is in the rest of the queue only if it is to be replaced, and then an
  entry has been reclaimed for it, or the first one will be.
\<close>

lemma present_loop_ok:
  assumes "age_inv tp" "t_segq tp = q # qs" "Tqs \<in> refs qs \<longrightarrow> rep"
    "case rec of None \<Rightarrow> rep \<longrightarrow> tqe_ref q \<noteq> Tqs | Some r \<Rightarrow> r \<noteq> Tqs \<and> r \<notin> refs (q # qs)"
  shows "\<exists>fl' rep' rec' tp'. present_loop (q # qs) fl rep rec tp = Inr (fl', rep', rec', tp') \<and> age_inv tp' \<and>
    (Tqs \<in> refs (t_segq tp') \<longrightarrow> rep') \<and> (rep' \<longrightarrow> (\<exists>r. rec' = Some r \<and> r \<noteq> Tqs \<and> r \<notin> refs (t_segq tp')))"
  using assms
proof (induction qs arbitrary: q fl rep rec tp)
  case (Nil q)
  then obtain tp1 where "present_one q [] rep rec tp =
      Inr (rep \<and> tqe_ref q \<noteq> Tqs, if tqe_ref q \<noteq> Tqs \<and> rep \<and> rec = None then Some (tqe_ref q) else rec, tp1)"
    "age_inv tp1" "t_segq tp1 = []" using present_one_ok by blast
  then show ?case using Nil by (auto split: option.splits)
next
  case (Cons x xs q)
  define rep1 rec1 where "rep1 = (rep \<and> tqe_ref q \<noteq> Tqs)"
    and "rec1 = (if tqe_ref q \<noteq> Tqs \<and> rep \<and> rec = None then Some (tqe_ref q) else rec)"
  obtain tp1 where one: "present_one q (x # xs) rep rec tp = Inr (rep1, rec1, tp1)" "age_inv tp1" "t_segq tp1 = x # xs"
    using present_one_ok Cons.prems(1,2) unfolding rep1_def rec1_def by blast
  have d: "tqe_ref q \<notin> refs (x # xs)" using Cons.prems(1,2) by (auto simp: age_inv_def)
  have r1: "Tqs \<in> refs (x # xs) \<longrightarrow> rep1" using Cons.prems(3) d by (auto simp: rep1_def)
  have r2: "rep1 \<longrightarrow> (\<exists>r. rec1 = Some r \<and> r \<noteq> Tqs \<and> r \<notin> refs (x # xs))"
    using Cons.prems(4) d by (auto simp: rep1_def rec1_def split: option.splits)
  have r3: "case rec1 of None \<Rightarrow> rep1 \<longrightarrow> tqe_ref x \<noteq> Tqs | Some r \<Rightarrow> r \<noteq> Tqs \<and> r \<notin> refs (x # xs)"
    using Cons.prems(4) d by (auto simp: rep1_def rec1_def split: option.splits)
  show ?case
  proof (cases "tqe_seq x = rcv_nxt tp1")
    case True
    then show ?thesis using Cons.IH [OF one(2,3) _ r3] r1 one(1) by (simp add: Let_def)
  next
    case False
    then show ?thesis using one r1 r2 by (auto simp: Let_def)
  qed
qed

lemma replace_tqs_ok:
  assumes "age_inv tp" "r \<noteq> Tqs" "r \<notin> refs (t_segq tp)"
  shows "\<exists>tp'. replace_tqs (Some r) tp = Inr tp' \<and> age_inv tp' \<and> Tqs \<notin> refs (t_segq tp')"
proof -
  define f where "f = (\<lambda>q :: tseg_qent. if tqe_ref q = Tqs then q\<lparr>tqe_ref := r\<rparr> else q)"
  define g where "g = (\<lambda>x :: tqe_ref. if x = Tqs then r else x)"
  have fg: "tqe_ref (f q) = g (tqe_ref q)" for q by (simp add: f_def g_def)
  have inj: "inj_on g (refs (t_segq tp))" using assms(3) by (auto simp: inj_on_def g_def)
  have m: "tqe_ref \<circ> f = g \<circ> tqe_ref" by (rule ext) (simp add: fg)
  have "distinct (map g (t_segageq tp))" "distinct (map g (map tqe_ref (t_segq tp)))"
    using assms(1) inj by (simp_all add: age_inv_def distinct_map comp_inj_on)
  then have "age_inv (tp\<lparr>t_segq := map f (t_segq tp), t_segageq := map g (t_segageq tp)\<rparr>)"
    using assms(1) m by (simp add: age_inv_def image_image fg)
  moreover have "Tqs \<notin> refs (map f (t_segq tp))" using assms(2) by (auto simp: fg g_def split: if_splits)
  ultimately show ?thesis by (simp add: replace_tqs_def f_def g_def)
qed

lemma age_inv_frame [simp]:
  "age_inv (tp\<lparr>rcv_nxt := v\<rparr>) = age_inv tp" "age_inv (tp\<lparr>so_rcv := c\<rparr>) = age_inv tp" "age_inv (tp\<lparr>tm_reassdl := d\<rparr>) = age_inv tp"
  by (simp_all add: age_inv_def)

lemma present_ok:
  assumes inv: "age_inv tp" and hole: "re_gethole env"
    and tqs: "Tqs \<in> refs (t_segq tp) \<longrightarrow> TCPS_HAVEESTABLISHED (t_state tp) \<and>
      (dlh \<or> tqe_seq (hd (t_segq tp)) = rcv_nxt tp) \<and> (Tqs \<in> refs (List.tl (t_segq tp)) \<longrightarrow> rep)"
    and rep: "rep \<longrightarrow> t_segq tp \<noteq> [] \<and> tqe_ref (hd (t_segq tp)) \<noteq> Tqs"
  shows "\<exists>fl tp'. present env dlh rep tp = Inr (fl, tp') \<and> age_inv tp' \<and> Tqs \<notin> refs (t_segq tp')"
proof (cases "TCPS_HAVEESTABLISHED (t_state tp) \<and> t_segq tp \<noteq> [] \<and> (tqe_seq (hd (t_segq tp)) = rcv_nxt tp \<or> dlh)")
  case False
  obtain d where "tcp_reass_next_hole_deadline env tp = Inr d" using deadline_ok [OF inv] by blast
  then show ?thesis using False inv tqs by (cases "t_segq tp") (auto simp: present_def)
next
  case True
  then obtain q qs where q: "t_segq tp = q # qs" by (meson neq_Nil_conv)
  obtain tp1 where first: "(if dlh then
        res_bind (if so_cantrcvmore tp then Inr tp else append_hole env (sint (tqe_seq q - rcv_nxt tp)) tp)
          (\<lambda>tp. Inr (tp\<lparr>rcv_nxt := tqe_seq q\<rparr>))
      else Inr tp) = Inr tp1" "age_inv tp1" "t_segq tp1 = q # qs"
    using inv hole q by (cases dlh; cases "so_cantrcvmore tp") (simp_all add: append_hole_def sbappendstream_def)
  obtain fl rep' rec' tp2 where loop: "present_loop (q # qs) 0 rep None tp1 = Inr (fl, rep', rec', tp2)" "age_inv tp2"
    "Tqs \<in> refs (t_segq tp2) \<longrightarrow> rep'" "rep' \<longrightarrow> (\<exists>r. rec' = Some r \<and> r \<noteq> Tqs \<and> r \<notin> refs (t_segq tp2))"
    using present_loop_ok [OF first(2,3), of rep None 0] tqs rep q by auto
  obtain tp3 where rpl: "(if rep' then replace_tqs rec' tp2 else Inr tp2) = Inr tp3" "age_inv tp3" "Tqs \<notin> refs (t_segq tp3)"
  proof (cases rep')
    case True
    then obtain r where r: "rec' = Some r" "r \<noteq> Tqs" "r \<notin> refs (t_segq tp2)" using loop(4) by blast
    then show ?thesis using that replace_tqs_ok [OF loop(2) r(2,3)] True by auto
  qed (use that loop(2,3) in auto)
  obtain d where d: "tcp_reass_next_hole_deadline env tp3 = Inr d" using deadline_ok [OF rpl(2)] by blast
  have "present env dlh rep tp = Inr (fl, if tm_reassdl tp3 = 0 \<or> d = 0 then tp3\<lparr>tm_reassdl := d\<rparr> else tp3)"
    unfolding present_def q list.case first(1) res_bind_simps loop(1) prod.case rpl(1) d using True q by auto
  then show ?thesis using rpl(2,3) by simp
qed

section \<open>Inserting a segment\<close>

text \<open>The segments of the queue that the new one, from \<open>s\<close> to \<open>e\<close>, would replace.\<close>

definition covered :: "tcp_seq \<Rightarrow> tcp_seq \<Rightarrow> nat \<Rightarrow> tseg_qent \<Rightarrow> bool" where
  "covered b s e q \<longleftrightarrow> off b s < off b (tqe_seq q) \<and> off b (tqe_seq q) < e \<and> seg_end b q \<le> e"

lemma trim_next_refs:
  assumes "\<forall>q \<in> set qs. good_seg b str q \<and> (off b e \<le> off b (tqe_seq q) \<or> off b e < seg_end b q)" "in_win b e"
  shows "snd (trim_next e qs) = [] \<and> map tqe_ref (fst (trim_next e qs)) = map tqe_ref qs"
proof (cases qs)
  case (Cons q rest)
  have g: "good_seg b str q" "off b e \<le> off b (tqe_seq q) \<or> off b e < seg_end b q" using assms(1) Cons by auto
  then have "sint (e - tqe_seq q) = int (off b e) - int (off b (tqe_seq q))"
    using SEQ_sint [OF assms(2), of "tqe_seq q"] good_seg_win [of b str q] by simp
  then show ?thesis using g Cons by (auto simp: Let_def seg_end_def good_seg_def)
qed simp

lemma insert_seg_ok:
  assumes inv: "age_inv tp" "t_segq tp = pre @ rest" and te: "te \<notin> refs (t_segq tp)"
    and rest: "\<forall>q \<in> set rest. good_seg b str q \<and> (off b e \<le> off b (tqe_seq q) \<or> off b e < seg_end b q)"
    and e: "e = th_seq th + of_int tlen" "in_win b e"
  shows "\<exists>tp' q rest'. insert_seg env te th tlen m pre rest tp = Inr tp' \<and> age_inv tp' \<and> t_segq tp' = pre @ q # rest' \<and>
    tqe_ref q = te \<and> tqe_seq q = th_seq th \<and> map tqe_ref rest' = map tqe_ref rest \<and>
    rcv_nxt tp' = rcv_nxt tp \<and> t_state tp' = t_state tp"
proof -
  obtain r where t: "trim_next (th_seq th + of_int tlen) rest = (r, [])" and r: "map tqe_ref r = map tqe_ref rest"
    using trim_next_refs [OF rest e(2)] unfolding e(1) by (cases "trim_next (th_seq th + of_int tlen) rest") auto
  have s: "refs r = refs rest" using r by (metis set_map)
  have age: "set (t_segageq tp) = refs (pre @ r)" "te \<notin> set (t_segageq tp)" "distinct (map tqe_ref (pre @ r))" "distinct (t_segageq tp)"
    using inv te r s by (auto simp: age_inv_def)
  have "t_segageq tp \<noteq> [] \<Longrightarrow> last (t_segageq tp) \<in> refs (pre @ r)" using age(1) by (metis last_in_set)
  then have ins: "\<exists>tp' q. insert_seg env te th tlen m pre rest tp = Inr tp' \<and> t_segq tp' = pre @ q # r \<and> t_segageq tp' = t_segageq tp @ [te] \<and>
    tqe_ref q = te \<and> tqe_seq q = th_seq th \<and> rcv_nxt tp' = rcv_nxt tp \<and> t_state tp' = t_state tp"
    using age(2) t by (auto simp: insert_seg_def age_insert_tail_def live_def Let_def)
  then obtain tp' q where i: "insert_seg env te th tlen m pre rest tp = Inr tp'" "t_segq tp' = pre @ q # r" "t_segageq tp' = t_segageq tp @ [te]"
    "tqe_ref q = te" "tqe_seq q = th_seq th" "rcv_nxt tp' = rcv_nxt tp" "t_state tp' = t_state tp" by blast
  have "age_inv tp'" using i(2-4) age by (auto simp: age_inv_def)
  then show ?thesis using i r by blast
qed

text \<open>The entry on the stack is used only where the segment can be presented at once.\<close>

lemma queue_seg_ok:
  assumes inv: "queue_inv tp" "data_inv b str p tp" and hole: "re_gethole env"
    and te: "te \<notin> refs (t_segq tp)"
    and tqs: "te = Tqs \<Longrightarrow> TCPS_HAVEESTABLISHED (t_state tp) \<and> (dlh \<and> re_passive env \<or> \<not> dlh \<and> th_seq th = rcv_nxt tp)"
    and arr: "good_arrival b str (th_seq th) tlen m" "off b (rcv_nxt tp) \<le> off b (th_seq th)"
    and cov: "\<forall>q \<in> set (t_segq tp). \<not> covered b (th_seq th) (off b (th_seq th) + nat tlen) q"
  shows "\<exists>fl tlen2 sq tp'. queue_seg env te dlh th tlen m tp = Inr (fl, tlen2, sq, tp') \<and> age_inv tp' \<and> Tqs \<notin> refs (t_segq tp')"
proof -
  have win: "in_win b (th_seq th)" using arr(1) by (simp add: good_arrival_def in_win_def)
  have segs: "segs_ok b str (off b (rcv_nxt tp)) (t_segq tp)" using inv(2) by (simp add: data_inv_def)
  define pre rest where "pre = takeWhile (\<lambda>q. \<not> SEQ_GT (tqe_seq q) (th_seq th)) (t_segq tp)"
    and "rest = dropWhile (\<lambda>q. \<not> SEQ_GT (tqe_seq q) (th_seq th)) (t_segq tp)"
  note sp = split_queue [OF segs win, folded pre_def rest_def]
  define i where "i = (if pre = [] then 0 else sint (tqe_seq (last pre) + of_int (tqe_len (last pre)) - th_seq th))"
  note eq = queue_seg_eq [OF pre_def rest_def i_def, of env te dlh tlen m]
  have age: "age_inv tp" "Tqs \<notin> refs (t_segq tp)" using inv(1) by (simp_all add: queue_inv_def)
  show ?thesis
  proof (cases "i > 0 \<and> i \<ge> tlen")
    case True
    define tp1 where "tp1 = tp\<lparr>tcps_rcvduppack := Suc (tcps_rcvduppack tp),
      zone_freed := (if te \<noteq> Tqs then zone_freed tp @ [te] else zone_freed tp)\<rparr>"
    have "age_inv tp1" "Tqs \<notin> refs (t_segq tp1)" using age by (simp_all add: tp1_def age_inv_def)
    then obtain fl tp' where "present env dlh False tp1 = Inr (fl, tp')" "age_inv tp'" "Tqs \<notin> refs (t_segq tp')"
      using present_ok [OF _ hole, of tp1 dlh False] by auto
    then show ?thesis using True unfolding eq tp1_def by auto
  next
    case False
    define k th1 where "k = nat i" and "th1 = th\<lparr>th_seq := th_seq th + of_int (int k)\<rparr>"
    have k: "max 0 i = int k" "int k \<le> tlen" using False arr(1) by (auto simp: k_def good_arrival_def)
    define e where "e = th_seq th1 + of_int (tlen - int k)"
    have e: "off b e = off b (th_seq th) + nat tlen" "in_win b e"
      using arr(1) off_plus_int [of tlen b "th_seq th"] by (simp_all add: e_def th1_def good_arrival_def in_win_def)
    have rest: "\<forall>q \<in> set rest. good_seg b str q \<and> (off b e \<le> off b (tqe_seq q) \<or> off b e < seg_end b q)"
      using segs cov sp unfolding e(1) covered_def by (fastforce simp: segs_ok_def list_all_iff)
    have "age_inv (tp\<lparr>t_segqlen := t_segqlen tp + 1\<rparr>)" using age(1) by (simp add: age_inv_def)
    then obtain tp1 q rest' where ins: "insert_seg env te th1 (tlen - int k) (drop k m) pre rest (tp\<lparr>t_segqlen := t_segqlen tp + 1\<rparr>) = Inr tp1"
      "age_inv tp1" "t_segq tp1 = pre @ q # rest'" "tqe_ref q = te" "tqe_seq q = th_seq th1"
      "map tqe_ref rest' = map tqe_ref rest" "rcv_nxt tp1 = rcv_nxt tp" "t_state tp1 = t_state tp"
      using insert_seg_ok [OF _ _ _ rest e_def e(2), where tp = "tp\<lparr>t_segqlen := t_segqlen tp + 1\<rparr>" and pre = pre and te = te
          and env = env and m = "drop k m"] sp(1) te by auto
    have "refs rest' = refs rest" using ins(6) by (metis set_map)
    then have free: "Tqs \<notin> refs pre" "Tqs \<notin> refs rest'" using age(2) unfolding sp(1) by (simp_all add: image_Un)
    have front: "pre = [] \<and> th1 = th" if "te = Tqs" "\<not> dlh"
    proof (cases pre)
      case (Cons x xs)
      have "t_segq tp = x # xs @ rest" "off b (tqe_seq x) \<le> off b (th_seq th)" using sp Cons by simp_all
      moreover have "TCPS_HAVEESTABLISHED (t_state tp)" "th_seq th = rcv_nxt tp" using tqs that by simp_all
      ultimately show ?thesis using inv(1) segs by (simp add: queue_inv_def)
    qed (simp add: th1_def k_def i_def)
    have stack: "Tqs \<in> refs (t_segq tp1) \<longrightarrow> TCPS_HAVEESTABLISHED (t_state tp1) \<and> (dlh \<or> tqe_seq (hd (t_segq tp1)) = rcv_nxt tp1) \<and>
        (Tqs \<in> refs (List.tl (t_segq tp1)) \<longrightarrow> pre \<noteq> [] \<and> re_passive env \<and> te = Tqs)"
    proof (cases "te = Tqs")
      case True
      then show ?thesis using tqs front ins(3,5,7,8) free by (cases pre) auto
    next
      case False
      then show ?thesis using ins(3,4) free by (simp add: image_Un)
    qed
    have rep: "pre \<noteq> [] \<and> re_passive env \<and> te = Tqs \<longrightarrow> t_segq tp1 \<noteq> [] \<and> tqe_ref (hd (t_segq tp1)) \<noteq> Tqs"
      using free(1) ins(3) by (cases pre) auto
    from present_ok [OF ins(2) hole stack rep] obtain fl tp' where
      "present env dlh (pre \<noteq> [] \<and> re_passive env \<and> te = Tqs) tp1 = Inr (fl, tp')" "age_inv tp'" "Tqs \<notin> refs (t_segq tp')"
      by blast
    then show ?thesis using False ins(1) unfolding eq k(1) k_def [symmetric] th1_def [symmetric] by auto
  qed
qed


text \<open>A covered segment is freed, and the queue by age still has it.\<close>

lemma trim_next_split: "map tqe_ref (snd (trim_next e qs)) @ map tqe_ref (fst (trim_next e qs)) = map tqe_ref qs"
  by (induction e qs rule: trim_next.induct) (auto simp: Let_def split: prod.splits)

lemma trim_next_covered:
  assumes "segs_ok b str n qs" "in_win b e" "q \<in> set qs" "off b (tqe_seq q) < off b e" "seg_end b q \<le> off b e"
  shows "q \<in> set (snd (trim_next e qs))"
  using assms(1,3)
proof (induction qs)
  case (Cons x qs)
  have g: "good_seg b str x" using Cons.prems(1) by simp
  have "off b (tqe_seq x) < off b e \<and> seg_end b x \<le> off b e"
    using Cons.prems assms(4,5) seg_end_ge [of b x] by (fastforce simp: segs_ok_def)
  moreover have "sint (e - tqe_seq x) = int (off b e) - int (off b (tqe_seq x))"
    using SEQ_sint [OF assms(2) good_seg_win [OF g]] .
  ultimately have "0 < sint (e - tqe_seq x)" "tqe_len x \<le> sint (e - tqe_seq x)"
    using g unfolding seg_end_def good_seg_def by linarith+
  then have "trim_next e (x # qs) = (let (r, fr) = trim_next e qs in (r, x # fr))" by simp
  then show ?case using Cons by (auto simp: segs_ok_def split: prod.splits)
qed simp

lemma queue_seg_covering:
  assumes inv: "age_inv tp" "data_inv b str p tp"
    and arr: "good_arrival b str (th_seq th) tlen m" "off b (rcv_nxt tp) \<le> off b (th_seq th)"
    and cov: "q \<in> set (t_segq tp)" "tqe_ref q = last (t_segageq tp)" "covered b (th_seq th) (off b (th_seq th) + nat tlen) q"
  shows "queue_seg env te dlh th tlen m tp = Inl Use_after_free"
proof -
  have win: "in_win b (th_seq th)" using arr(1) by (simp add: good_arrival_def in_win_def)
  have segs: "segs_ok b str (off b (rcv_nxt tp)) (t_segq tp)" using inv(2) by (simp add: data_inv_def)
  define pre rest where "pre = takeWhile (\<lambda>q. \<not> SEQ_GT (tqe_seq q) (th_seq th)) (t_segq tp)"
    and "rest = dropWhile (\<lambda>q. \<not> SEQ_GT (tqe_seq q) (th_seq th)) (t_segq tp)"
  note sp = split_queue [OF segs win, folded pre_def rest_def]
  have pr: "segs_ok b str (off b (rcv_nxt tp)) (pre @ rest)" using segs sp(1) by simp
  define i where "i = (if pre = [] then 0 else sint (tqe_seq (last pre) + of_int (tqe_len (last pre)) - th_seq th))"
  note eq = queue_seg_eq [OF pre_def rest_def i_def, of env te dlh tlen m]
  note cut = cut_position [OF pr sp(2,3) win, folded i_def]
  have q: "q \<in> set rest" "off b (tqe_seq q) < off b (th_seq th) + nat tlen" "seg_end b q \<le> off b (th_seq th) + nat tlen"
    using cov sp by (fastforce simp: covered_def)+
  have fresh: "\<not> (i > 0 \<and> i \<ge> tlen)" using cut(3) q(1,2) by fastforce
  define e where "e = th_seq th + of_int tlen"
  have e: "off b e = off b (th_seq th) + nat tlen" "in_win b e"
    using arr(1) off_plus_int [of tlen b "th_seq th"] by (simp_all add: e_def good_arrival_def in_win_def)
  obtain r fr where t: "trim_next e rest = (r, fr)" by fastforce
  have "segs_ok b str (off b (rcv_nxt tp)) rest" using pr by simp
  then have "q \<in> set fr" using trim_next_covered [OF _ e(2) q(1)] q(2,3) t unfolding e(1) by simp
  moreover have "map tqe_ref (t_segq tp) = map tqe_ref pre @ map tqe_ref fr @ map tqe_ref r"
    using trim_next_split [of e rest] t sp(1) by (metis fst_conv map_append snd_conv)
  ultimately have gone: "tqe_ref q \<notin> refs (pre @ r)" using inv(1) by (auto simp: age_inv_def)
  have ne: "t_segageq tp \<noteq> []" using inv(1) cov(1) by (auto simp: age_inv_def)
  have "insert_seg env te (th\<lparr>th_seq := th_seq th + of_int (max 0 i)\<rparr>) (tlen - max 0 i) (drop (nat i) m) pre rest (tp\<lparr>t_segqlen := t_segqlen tp + 1\<rparr>) =
    Inl Use_after_free"
    using t gone ne cov(2) by (auto simp: insert_seg_def e_def age_insert_tail_def live_def Let_def)
  then show ?thesis using fresh unfolding eq by auto
qed

section \<open>Properties\<close>


text \<open>
  C22. A segment that covers a queued one completely: the queued entry is freed but stays in the
  queue by age. If it was the last one there, the same call writes into the freed entry.
\<close>

theorem tcp_reass_covering:
  assumes inv: "age_inv tp" "data_inv b str p tp" and "t_maxseg tp \<noteq> 0"
    and room: "of_int (t_segqlen tp) < sb_hiwat tp div t_maxseg tp + 1"
    and zone: "re_zalloc env = Some te" "Zone te \<notin> refs (t_segq tp)"
    and arr: "good_arrival b str (th_seq th) tlen m" "off b (rcv_nxt tp) \<le> off b (th_seq th)"
    and cov: "q \<in> set (t_segq tp)" "tqe_ref q = last (t_segageq tp)" "covered b (th_seq th) (off b (th_seq th) + nat tlen) q"
  shows "tcp_reass env (Some (th, tlen, m)) tp = Inl Use_after_free"
proof -
  have "tcp_reass env (Some (th, tlen, m)) tp = queue_seg env (Zone te) (queue_full th tp) th tlen m (count_overflow th tp)"
    using assms(3) by (rule tcp_reass_cases [of tp env th tlen m]) (use room zone in \<open>auto simp: queue_full_def\<close>)
  also have "\<dots> = Inl Use_after_free"
    by (rule queue_seg_covering [of "count_overflow th tp" b str p]) (use inv arr cov in \<open>simp_all add: age_inv_def\<close>)
  finally show ?thesis .
qed

section \<open>Instances\<close>

lemma reass_demo_facts:
  "data_inv 0xfffffff0 of_nat 16 reass_demo" "queue_inv reass_demo" "t_maxseg reass_demo \<noteq> 0" "rcv_nxt reass_demo = 0"
  "off 0xfffffff0 0 = 16" "off 0xfffffff0 10 = 26" "re_gethole reass_demo_env" "re_zalloc reass_demo_env = Some 1"
  "refs (t_segq reass_demo) = {Zone 0}"
proof -
  show o: "off 0xfffffff0 0 = 16" "off 0xfffffff0 10 = 26" by (simp_all add: off_def)
  show "data_inv 0xfffffff0 of_nat 16 reass_demo"
    by (simp add: data_inv_def reass_demo_def in_win_def o segs_ok_def good_seg_def seg_end_def upt_conv_Cons)
  show "queue_inv reass_demo" by (simp add: queue_inv_def age_inv_def reass_demo_def)
qed (simp_all add: reass_demo_def reass_demo_env_def)


text \<open>Twenty bytes from the gap on: all of the queued segment is in the new one.\<close>

theorem tcp_reass_covering_witness:
  "tcp_reass reass_demo_env (Some (\<lparr>th_seq = 0, th_flags = 0\<rparr>, 20, map of_nat [16 ..< 36])) reass_demo = Inl Use_after_free"
proof (rule tcp_reass_covering [OF _ reass_demo_facts(1,3) _ reass_demo_facts(8), where q = "hd (t_segq reass_demo)"])
  show "good_arrival 0xfffffff0 of_nat (th_seq \<lparr>th_seq = 0, th_flags = 0\<rparr>) 20 (map of_nat [16 ..< 36])"
    by (simp add: good_arrival_def reass_demo_facts)
  show "covered 0xfffffff0 (th_seq \<lparr>th_seq = 0, th_flags = 0\<rparr>) (off 0xfffffff0 (th_seq \<lparr>th_seq = 0, th_flags = 0\<rparr>) + nat 20) (hd (t_segq reass_demo))"
    by (simp add: reass_demo_def covered_def seg_end_def reass_demo_facts(5,6))
qed (use reass_demo_facts(2) in \<open>simp_all add: reass_demo_facts(4,5,9) queue_inv_def, simp_all add: reass_demo_def\<close>)

end
