(* ===== verification/Tcp_Data.thy ===== *)
theory Tcp_Data
  imports Tcp_Sack_Rcv Tcp_Reass_Live
begin

unbundle bit_operations_syntax

text \<open>
  The text of a segment in \<^verbatim>\<open>tcp_do_segment\<close> of \<^verbatim>\<open>src/sys/netinet/tcp_input.c\<close>: the segment is
  trimmed to the receive window, its data go to the receive buffer or into the reassembly queue,
  the list of blocks for selective acknowledgement is brought up to date, and a FIN changes the
  state. What lies between the trimming and the data (timestamps, RST, SYN, ACK, the send
  window and urgent data) leaves the state below alone on an established connection and is not
  modelled.
\<close>

section \<open>State\<close>

definition TH_SYN :: u8 where "TH_SYN = 2"
definition TH_PUSH :: u8 where "TH_PUSH = 8"
definition TH_URG :: u8 where "TH_URG = 0x20"
definition TF_ACKNOW :: u32 where "TF_ACKNOW = 1"
definition TF_DELACK :: u32 where "TF_DELACK = 2"
definition TF_SACK_PERMIT :: u32 where "TF_SACK_PERMIT = 0x200"
definition TF_NEEDSYN :: u32 where "TF_NEEDSYN = 0x400"
definition TCPS_FIN_WAIT_2 :: nat where "TCPS_FIN_WAIT_2 = 9"
definition TCPS_TIME_WAIT :: nat where "TCPS_TIME_WAIT = 10"

definition TCPS_HAVERCVDFIN :: "nat \<Rightarrow> bool" where
  "TCPS_HAVERCVDFIN s \<longleftrightarrow> s \<ge> TCPS_TIME_WAIT"

text \<open>
  A segment on its way through the function: its header, the local variables \<^verbatim>\<open>thflags\<close> and
  \<^verbatim>\<open>tlen\<close>, the text behind the headers, and how much of it \<^verbatim>\<open>drop_hdrlen\<close> will drop.
\<close>

record segment =
  sg_th :: tcphdr
  th_urp :: u16
  thflags :: u8
  tlen :: int
  sg_text :: "u8 list"
  drop_text :: int

text \<open>The connection: the reassembly state, the blocks to report, the flags and the window.\<close>

record conn =
  cn_reass :: reass
  cn_blks :: "sackblk list"
  t_flags :: u32
  rcv_wnd :: u64

abbreviation nxt :: "conn \<Rightarrow> tcp_seq" where "nxt c \<equiv> reass.rcv_nxt (cn_reass c)"

section \<open>Trimming\<close>

definition strip_syn :: "segment \<Rightarrow> segment" where
  "strip_syn sg =
     (let sg = sg\<lparr>thflags := thflags sg AND NOT TH_SYN, sg_th := (sg_th sg)\<lparr>th_seq := th_seq (sg_th sg) + 1\<rparr>\<rparr>
      in if th_urp sg > 1 then sg\<lparr>th_urp := th_urp sg - 1\<rparr> else sg\<lparr>thflags := thflags sg AND NOT TH_URG\<rparr>)"

definition drop_front :: "int \<Rightarrow> segment \<Rightarrow> segment" where
  "drop_front todrop sg =
     (let sg = sg\<lparr>drop_text := drop_text sg + todrop, sg_th := (sg_th sg)\<lparr>th_seq := th_seq (sg_th sg) + of_int todrop\<rparr>,
            tlen := tlen sg - todrop\<rparr>
      in if uint (th_urp sg) > todrop then sg\<lparr>th_urp := th_urp sg - of_int todrop\<rparr>
         else sg\<lparr>thflags := thflags sg AND NOT TH_URG, th_urp := 0\<rparr>)"

definition trim_front :: "segment \<Rightarrow> conn \<Rightarrow> segment \<times> conn" where
  "trim_front sg c =
     (let todrop = sint (nxt c - th_seq (sg_th sg)) in
      if todrop > 0 then
        let (sg, todrop) = (if thflags sg AND TH_SYN \<noteq> 0 then (strip_syn sg, todrop - 1) else (sg, todrop))
        in if todrop > tlen sg \<or> todrop = tlen sg \<and> thflags sg AND TH_FIN = 0
           then (drop_front (tlen sg) (sg\<lparr>thflags := thflags sg AND NOT TH_FIN\<rparr>), c\<lparr>t_flags := t_flags c OR TF_ACKNOW\<rparr>)
           else (drop_front todrop sg, c)
      else (sg, c))"

text \<open>The end of the window; \<open>None\<close> is \<^verbatim>\<open>dropafterack\<close>.\<close>

definition drop_back :: "int \<Rightarrow> segment \<Rightarrow> segment" where
  "drop_back todrop sg =
     sg\<lparr>sg_text := take (length (sg_text sg) - nat todrop) (sg_text sg), tlen := tlen sg - todrop,
       thflags := thflags sg AND NOT (TH_PUSH OR TH_FIN)\<rparr>"

definition trim_back :: "segment \<Rightarrow> conn \<Rightarrow> (segment \<times> conn) option" where
  "trim_back sg c =
     (let todrop = sint ((th_seq (sg_th sg) + of_int (tlen sg)) - (nxt c + ucast (rcv_wnd c))) in
      if todrop > 0 then
        if todrop \<ge> tlen sg then
          if rcv_wnd c = 0 \<and> th_seq (sg_th sg) = nxt c
          then Some (drop_back todrop sg, c\<lparr>t_flags := t_flags c OR TF_ACKNOW\<rparr>) else None
        else Some (drop_back todrop sg, c)
      else Some (sg, c))"

section \<open>Data\<close>

text \<open>
  \<open>dodata\<close>. The results are \<^verbatim>\<open>thflags\<close> and the connection; \<open>delay_ack\<close> is the value of
  \<^verbatim>\<open>DELAY_ACK(tp)\<close>.
\<close>

definition in_order_data :: "bool \<Rightarrow> segment \<Rightarrow> conn \<Rightarrow> u8 \<times> conn" where
  "in_order_data delay_ack sg c =
     (let tp = cn_reass c;
          tp = tp\<lparr>reass.rcv_nxt := reass.rcv_nxt tp + of_int (tlen sg)\<rparr>;
          tp = (if so_cantrcvmore tp then tp else sbappendstream (Data (drop (nat (drop_text sg)) (sg_text sg))) tp)
      in (th_flags (sg_th sg) AND TH_FIN,
          c\<lparr>t_flags := t_flags c OR (if delay_ack then TF_DELACK else TF_ACKNOW), cn_reass := tp\<rparr>))"

definition report_data :: "tcp_seq \<Rightarrow> int \<Rightarrow> conn \<Rightarrow> conn" where
  "report_data save_start len c =
     (if len > 0 \<and> t_flags c AND TF_SACK_PERMIT \<noteq> 0
      then c\<lparr>cn_blks := sackblks (tcp_update_sack_list \<lparr>sack_rcv.rcv_nxt = nxt c, sackblks = cn_blks c\<rparr>
              save_start (save_start + of_int len))\<rparr>
      else c)"

definition do_data :: "reass_env \<Rightarrow> bool \<Rightarrow> segment \<Rightarrow> conn \<Rightarrow> (u8 \<times> conn) res" where
  "do_data env delay_ack sg c =
     (if (tlen sg \<noteq> 0 \<or> thflags sg AND TH_FIN \<noteq> 0) \<and> \<not> TCPS_HAVERCVDFIN (t_state (cn_reass c)) then
        let save_start = th_seq (sg_th sg) in
        if th_seq (sg_th sg) = nxt c \<and> t_segq (cn_reass c) = [] \<and> TCPS_HAVEESTABLISHED (t_state (cn_reass c)) then
          let (fl, c) = in_order_data delay_ack sg c in Inr (fl, report_data save_start (tlen sg) c)
        else
          res_bind (tcp_reass env (Some (sg_th sg, tlen sg, drop (nat (drop_text sg)) (sg_text sg))) (cn_reass c)) (\<lambda>(fl, len, sq, tp).
          Inr (fl, report_data save_start len (c\<lparr>cn_reass := tp, t_flags := t_flags c OR TF_ACKNOW\<rparr>)))
      else Inr (thflags sg AND NOT TH_FIN, c))"

text \<open>A FIN. The flag of the result is set when the function ends in \<^verbatim>\<open>tcp_twstart\<close>.\<close>

definition do_fin :: "u32 \<Rightarrow> u8 \<Rightarrow> conn \<Rightarrow> bool \<times> conn" where
  "do_fin ticks fl c =
     (if fl AND TH_FIN \<noteq> 0 then
        let c = (if TCPS_HAVERCVDFIN (t_state (cn_reass c)) then c
                 else c\<lparr>cn_reass := (cn_reass c)\<lparr>so_cantrcvmore := True, reass.rcv_nxt := nxt c + 1\<rparr>,
                        t_flags := t_flags c OR (if t_flags c AND TF_NEEDSYN \<noteq> 0 then TF_DELACK else TF_ACKNOW)\<rparr>);
            s = t_state (cn_reass c)
        in (s = TCPS_FIN_WAIT_2,
            c\<lparr>cn_reass := (cn_reass c)\<lparr>t_state := fin_state s,
                t_starttime := (if s = TCPS_SYN_RECEIVED then ticks else t_starttime (cn_reass c))\<rparr>\<rparr>)
      else (False, c))"

text \<open>The text of one segment, from the trimming to the data.\<close>

definition seg_text :: "reass_env \<Rightarrow> bool \<Rightarrow> segment \<Rightarrow> conn \<Rightarrow> (u8 \<times> conn) res" where
  "seg_text env delay_ack sg c =
     (let (sg, c) = trim_front sg c in
      case trim_back sg c of
        None \<Rightarrow> Inr (0, c\<lparr>t_flags := t_flags c OR TF_ACKNOW\<rparr>)
      | Some (sg, c) \<Rightarrow> do_data env delay_ack sg c)"

end
