(* ===== verification/Tcp_Data_Stream.thy ===== *)
theory Tcp_Data_Stream
  imports Tcp_Data
begin

unbundle bit_operations_syntax

text \<open>
  What becomes of the text of the segments of a connection: trimming is an intersection with
  the receive window, the receive buffer holds a prefix of the stream, and the blocks
  reported to the sender are data the receiver has.
\<close>

section \<open>Trimming\<close>

definition seg_range :: "tcp_seq \<Rightarrow> segment \<Rightarrow> nat set" where
  "seg_range b sg = {off b (th_seq (sg_th sg)) ..< off b (th_seq (sg_th sg)) + nat (tlen sg)}"

text \<open>The segment carries its piece of the stream.\<close>

definition good_text :: "tcp_seq \<Rightarrow> (nat \<Rightarrow> u8) \<Rightarrow> segment \<Rightarrow> bool" where
  "good_text b str sg \<longleftrightarrow> 0 \<le> drop_text sg \<and> good_arrival b str (th_seq (sg_th sg)) (tlen sg) (drop (nat (drop_text sg)) (sg_text sg))"

definition same_flags :: "conn \<Rightarrow> conn \<Rightarrow> bool" where
  "same_flags c c' \<longleftrightarrow> (\<exists>f. c' = c\<lparr>t_flags := t_flags c OR f\<rparr>)"

lemma same_flags_simps:
  assumes "same_flags c c'"
  shows "cn_reass c' = cn_reass c" "cn_blks c' = cn_blks c" "rcv_wnd c' = rcv_wnd c"
  using assms by (auto simp: same_flags_def)

lemma same_flags_refl [simp]: "same_flags c c"
  unfolding same_flags_def by (rule exI [of _ 0]) simp

lemma same_flags_or [simp]: "same_flags c (c\<lparr>t_flags := t_flags c OR f\<rparr>)"
  unfolding same_flags_def by blast

lemma and_not_self: "(x AND NOT q) AND q = 0" "(x AND (NOT p AND NOT q)) AND q = 0" "((x AND NOT q) AND NOT p) AND q = 0"
  for x :: "'a::len word"
  by (auto simp: bit_eq_iff bit_simps)

lemma and_fin_urg: "(x AND NOT TH_URG) AND TH_FIN = x AND TH_FIN"
  by (simp add: TH_URG_def TH_FIN_def and.assoc)

lemma drop_front_simps [simp]:
  "th_seq (sg_th (drop_front k sg)) = th_seq (sg_th sg) + of_int k" "tlen (drop_front k sg) = tlen sg - k"
  "drop_text (drop_front k sg) = drop_text sg + k" "sg_text (drop_front k sg) = sg_text sg"
  by (simp_all add: drop_front_def Let_def)

lemma drop_front_good:
  assumes "good_text b str sg" "0 \<le> k" "k \<le> tlen sg"
  shows "good_text b str (drop_front k sg)" "off b (th_seq (sg_th (drop_front k sg))) = off b (th_seq (sg_th sg)) + nat k"
proof -
  have k: "int (nat k) = k" using assms(2) by simp
  note d = good_arrival_drop [of b str "th_seq (sg_th sg)" "tlen sg" "drop (nat (drop_text sg)) (sg_text sg)" "nat k", unfolded k]
  show "good_text b str (drop_front k sg)" using d(2) assms by (simp add: good_text_def nat_add_distrib add.commute)
  show "off b (th_seq (sg_th (drop_front k sg))) = off b (th_seq (sg_th sg)) + nat k" using d(1) assms by (simp add: good_text_def)
qed

lemma trim_front_spec:
  assumes good: "good_text b str sg" and syn: "thflags sg AND TH_SYN = 0" and win: "in_win b (nxt c)" and trim: "trim_front sg c = (sg', c')"
  shows "good_text b str sg' \<and> seg_range b sg' = seg_range b sg \<inter> {off b (nxt c) ..} \<and> same_flags c c' \<and>
    (tlen sg' = 0 \<and> thflags sg' AND TH_FIN = 0 \<or> off b (nxt c) \<le> off b (th_seq (sg_th sg')))"
proof -
  let ?s = "off b (th_seq (sg_th sg))" and ?n = "off b (nxt c)"
  have s: "in_win b (th_seq (sg_th sg))" "0 \<le> tlen sg" using good by (simp_all add: good_text_def good_arrival_def in_win_def)
  have td: "sint (nxt c - th_seq (sg_th sg)) = int ?n - int ?s" using SEQ_sint [OF win s(1)] .
  consider (ahead) "?n \<le> ?s" "sg' = sg" "c' = c"
    | (dup) "?s < ?n" "?s + nat (tlen sg) \<le> ?n" "sg' = drop_front (tlen sg) (sg\<lparr>thflags := thflags sg AND NOT TH_FIN\<rparr>)" "same_flags c c'"
    | (part) "?s < ?n" "?n \<le> ?s + nat (tlen sg)" "sg' = drop_front (int ?n - int ?s) sg" "c' = c"
  proof -
    have eq: "trim_front sg c = (if 0 < int ?n - int ?s then
        if tlen sg < int ?n - int ?s \<or> int ?n - int ?s = tlen sg \<and> thflags sg AND TH_FIN = 0
        then (drop_front (tlen sg) (sg\<lparr>thflags := thflags sg AND NOT TH_FIN\<rparr>), c\<lparr>t_flags := t_flags c OR TF_ACKNOW\<rparr>)
        else (drop_front (int ?n - int ?s) sg, c) else (sg, c))"
      unfolding trim_front_def td Let_def using syn by simp
    show ?thesis
    proof (cases "0 < int ?n - int ?s")
      case False
      then have "(sg', c') = (sg, c)" "?n \<le> ?s" using trim unfolding eq if_not_P [OF False] by simp_all
      then show ?thesis using that(1) by blast
    next
      case True
      show ?thesis
      proof (cases "tlen sg < int ?n - int ?s \<or> int ?n - int ?s = tlen sg \<and> thflags sg AND TH_FIN = 0")
        case dup: True
        have "?s < ?n" "?s + nat (tlen sg) \<le> ?n" using True dup s(2) by linarith+
        then show ?thesis using trim that(2) unfolding eq if_P [OF True] if_P [OF dup] by (metis Pair_inject same_flags_or)
      next
        case part: False
        have "?s < ?n" "?n \<le> ?s + nat (tlen sg)" using True part s(2) by linarith+
        then show ?thesis using trim that(3) unfolding eq if_P [OF True] if_not_P [OF part] by (metis Pair_inject)
      qed
    qed
  qed
  then show ?thesis
  proof cases
    case ahead
    then show ?thesis using good by (auto simp: seg_range_def)
  next
    case dup
    let ?sg = "sg\<lparr>thflags := thflags sg AND NOT TH_FIN\<rparr>"
    have g: "good_text b str ?sg" using good by (simp add: good_text_def)
    have "thflags (drop_front (tlen sg) ?sg) AND TH_FIN = 0"
      by (simp add: drop_front_def Let_def and_not_self)
    then show ?thesis using dup drop_front_good(1) [OF g, of "tlen sg"] s(2) by (auto simp: seg_range_def)
  next
    case part
    have k: "0 \<le> int ?n - int ?s" "int ?n - int ?s \<le> tlen sg" using part(1,2) by linarith+
    note d = drop_front_good [OF good k]
    then show ?thesis using part k by (auto simp: seg_range_def)
  qed
qed

lemma drop_back_good:
  assumes "good_text b str sg" "0 \<le> k" "k \<le> tlen sg"
  shows "good_text b str (drop_back k sg)"
proof -
  let ?m = "drop (nat (drop_text sg)) (sg_text sg)" and ?s = "off b (th_seq (sg_th sg))"
  have m: "?m = map str [?s ..< ?s + nat (tlen sg)]" using assms(1) by (simp add: good_text_def good_arrival_def)
  then have "length (sg_text sg) - nat (drop_text sg) = nat (tlen sg)" by (metis length_drop length_map length_upt diff_add_inverse)
  then have "drop (nat (drop_text sg)) (take (length (sg_text sg) - nat k) (sg_text sg)) = take (nat (tlen sg) - nat k) ?m"
    by (simp add: drop_take) (metis add.commute diff_diff_left)
  also have "\<dots> = map str [?s ..< ?s + nat (tlen sg - k)]"
    using assms(2,3) by (simp add: m take_map take_upt nat_diff_distrib)
  finally show ?thesis using assms by (auto simp: good_text_def good_arrival_def drop_back_def)
qed

lemma trim_back_spec:
  assumes good: "good_text b str sg" and win: "in_win b (nxt c)" "off b (nxt c) + unat (rcv_wnd c) < 2 ^ 31"
  shows "case trim_back sg c of
      None \<Rightarrow> seg_range b sg \<inter> {..< off b (nxt c) + unat (rcv_wnd c)} = {}
    | Some (sg', c') \<Rightarrow> good_text b str sg' \<and> seg_range b sg' = seg_range b sg \<inter> {..< off b (nxt c) + unat (rcv_wnd c)} \<and>
        same_flags c c' \<and> th_seq (sg_th sg') = th_seq (sg_th sg) \<and>
        (thflags sg AND TH_FIN = 0 \<longrightarrow> thflags sg' AND TH_FIN = 0) \<and> (tlen sg = 0 \<longrightarrow> tlen sg' = 0)"
proof -
  let ?s = "off b (th_seq (sg_th sg))" and ?e = "off b (nxt c) + unat (rcv_wnd c)"
  have s: "0 \<le> tlen sg" "?s + nat (tlen sg) < 2 ^ 31" using good by (simp_all add: good_text_def good_arrival_def)
  have w: "(ucast (rcv_wnd c) :: u32) = of_nat (unat (rcv_wnd c))" by (simp add: unsigned_eq_0_iff of_nat_unat)
  have e: "off b (nxt c + ucast (rcv_wnd c)) = ?e" using off_plus [of b "nxt c" "unat (rcv_wnd c)"] win(2) unfolding w by simp
  have se: "off b (th_seq (sg_th sg) + of_int (tlen sg)) = ?s + nat (tlen sg)" using off_plus_int [of "tlen sg" b] s by simp
  have td: "sint ((th_seq (sg_th sg) + of_int (tlen sg)) - (nxt c + ucast (rcv_wnd c))) = int (?s + nat (tlen sg)) - int ?e"
    using SEQ_sint [of b "th_seq (sg_th sg) + of_int (tlen sg)" "nxt c + ucast (rcv_wnd c)"] s win(2) unfolding in_win_def e se by simp
  define k where "k = int (?s + nat (tlen sg)) - int ?e"
  have fin: "thflags (drop_back k sg) AND TH_FIN = 0" by (simp add: drop_back_def and_not_self)
  have bk: "th_seq (sg_th (drop_back k sg)) = th_seq (sg_th sg)" "tlen (drop_back k sg) = tlen sg - k" by (simp_all add: drop_back_def)
  have eq: "trim_back sg c = (if 0 < k then
      if tlen sg \<le> k then
        if rcv_wnd c = 0 \<and> th_seq (sg_th sg) = nxt c then Some (drop_back k sg, c\<lparr>t_flags := t_flags c OR TF_ACKNOW\<rparr>) else None
      else Some (drop_back k sg, c) else Some (sg, c))"
    unfolding trim_back_def td Let_def k_def ..
  consider (none) "0 < k" "tlen sg \<le> k" "trim_back sg c = None" | (all) "k \<le> 0" "trim_back sg c = Some (sg, c)"
    | (cut) c' where "0 < k" "k \<le> tlen sg" "trim_back sg c = Some (drop_back k sg, c')" "same_flags c c'"
  proof -
    have "tlen sg = k" if "rcv_wnd c = 0" "th_seq (sg_th sg) = nxt c" using that s(1) by (simp add: k_def)
    then show ?thesis using that unfolding eq 
      by (cases "0 < k"; cases "tlen sg \<le> k"; cases "rcv_wnd c = 0 \<and> th_seq (sg_th sg) = nxt c") auto
  qed
  then show ?thesis
  proof cases
    case none
    then have "?e \<le> ?s" using s(1) unfolding k_def by linarith
    then show ?thesis using none by (auto simp: seg_range_def)
  next
    case all
    then have "?s + nat (tlen sg) \<le> ?e" unfolding k_def by linarith
    then show ?thesis using all good by (auto simp: seg_range_def)
  next
    case cut
    have "good_text b str (drop_back k sg)" using drop_back_good [OF good] cut(1,2) by simp
    moreover have "seg_range b (drop_back k sg) = seg_range b sg \<inter> {..< ?e}"
    proof -
      have "?s + nat (tlen sg - k) = ?e" "?e \<le> ?s + nat (tlen sg)" using cut(1,2) s(1) unfolding k_def by linarith+
      then show ?thesis unfolding seg_range_def bk by auto
    qed
    moreover have "tlen sg = 0 \<longrightarrow> tlen sg - k = 0" using cut(1,2) by simp
    ultimately show ?thesis using cut fin bk by simp
  qed
qed

section \<open>The report\<close>

definition report_inv :: "tcp_seq \<Rightarrow> nat set \<Rightarrow> sackblk list \<Rightarrow> bool" where
  "report_inv b H blks \<longleftrightarrow> list_all (good_blk b) blks \<and> all_apart b blks \<and> bytes b blks \<subseteq> H"

text \<open>Blocks at or below \<^verbatim>\<open>rcv_nxt\<close> are left out.\<close>

lemma merge_blks_filter:
  assumes "list_all (good_blk b) blks" "in_win b n"
  shows "merge_blks n blks h sv = merge_blks n (filter (\<lambda>blk. off b n < off b (blk_start blk)) blks) h sv"
  using assms by (induction n blks h sv rule: merge_blks.induct) (auto simp: Let_def good_blk_def seq_simps)

lemma all_apart_filter: "all_apart b blks \<Longrightarrow> all_apart b (filter P blks)"
  by (induction blks) (auto simp: list_all_iff)

lemma report_inv_update:
  assumes inv: "report_inv b H blks" and win: "in_win b n" "in_win b s" "in_win b e" and seg: "off b s < off b e" "{off b s ..< off b e} \<subseteq> H"
  shows "report_inv b H (sackblks (tcp_update_sack_list \<lparr>sack_rcv.rcv_nxt = n, sackblks = blks\<rparr> s e))"
proof -
  let ?F = "filter (\<lambda>blk. off b n < off b (blk_start blk)) blks" and ?seg = "\<lparr>blk_start = s, blk_end = e\<rparr>"
  obtain h sv where m: "merge_blks n ?F ?seg [] = (h, sv)" by fastforce
  have rep: "good_report b n ([] @ ?F)" using inv by (auto simp: report_inv_def good_report_def list_all_iff intro: all_apart_filter)
  have "good_blk b ?seg" using win seg by (simp add: good_blk_def)
  from merge_blks_spec [OF rep this win(1) _ m] have sp: "good_blk b h" "good_report b n sv" "list_all (apart b h) sv"
    "bytes b sv \<union> blk_bytes b h = bytes b ?F \<union> blk_bytes b ?seg" by auto
  have "bytes b ?F \<subseteq> bytes b blks" by (auto simp: bytes_def)
  then have sub: "bytes b sv \<union> blk_bytes b h \<subseteq> H" using sp(4) inv seg(2) by (auto simp: report_inv_def blk_bytes_def)
  have good: "list_all (good_blk b) sv" "all_apart b sv" using sp(2) by (auto simp: good_report_def list_all_iff)
  have "report_inv b H sv" "report_inv b H (h # sv)" using good sp(1,3) sub by (auto simp: report_inv_def)
  moreover have "report_inv b H (h # butlast sv)" if "report_inv b H (h # sv)"
  proof (cases sv rule: rev_cases)
    case (snoc ys y)
    then show ?thesis using that by (auto simp: report_inv_def)
  qed (use that in simp)
  moreover have "list_all (good_blk b) blks" using inv by (simp add: report_inv_def)
  ultimately show ?thesis
    using m merge_blks_filter [OF _ win(1), of blks] by (auto simp: tcp_update_sack_list_def)
qed

lemma report_inv_mono: "report_inv b H blks \<Longrightarrow> H \<subseteq> H' \<Longrightarrow> report_inv b H' blks"
  by (auto simp: report_inv_def)

lemma report_data_simps [simp]:
  "cn_reass (report_data s n c) = cn_reass c" "rcv_wnd (report_data s n c) = rcv_wnd c" "t_flags (report_data s n c) = t_flags c"
  by (simp_all add: report_data_def)

lemma report_data_inv:
  assumes "report_inv b H (cn_blks c)" "in_win b (nxt c)" "off b s + nat n < 2 ^ 31" "{off b s ..< off b s + nat n} \<subseteq> H"
  shows "report_inv b H (cn_blks (report_data s n c))"
proof (cases "0 < n")
  case True
  then have "off b (s + of_int n) = off b s + nat n" using off_plus_int [of n b s] assms(3) by simp
  then show ?thesis
    using assms True report_inv_update [OF assms(1,2), of s "s + of_int n"] by (simp add: report_data_def in_win_def)
qed (use assms in \<open>simp add: report_data_def\<close>)

section \<open>The data\<close>

text \<open>
  The state of an established connection whose peer sends \<open>str\<close>: nothing that could have been
  delivered is queued, and what is reported has been received.
\<close>

definition conn_inv :: "tcp_seq \<Rightarrow> (nat \<Rightarrow> u8) \<Rightarrow> nat \<Rightarrow> conn \<Rightarrow> bool" where
  "conn_inv b str p c \<longleftrightarrow> data_inv b str p (cn_reass c) \<and> report_inv b (held b (cn_reass c)) (cn_blks c) \<and>
     TCPS_HAVEESTABLISHED (t_state (cn_reass c)) \<and> \<not> TCPS_HAVERCVDFIN (t_state (cn_reass c)) \<and>
     (t_segq (cn_reass c) = [] \<or> tqe_seq (hd (t_segq (cn_reass c))) \<noteq> nxt c)"

abbreviation got :: "tcp_seq \<Rightarrow> conn \<Rightarrow> nat set" where "got b c \<equiv> held b (cn_reass c)"
abbreviation dropped :: "conn \<Rightarrow> nat" where "dropped c \<equiv> tcps_rcvmemdrop (cn_reass c)"

lemma conn_inv_least: "conn_inv b str p c \<Longrightarrow> off b (nxt c) = (LEAST n. n \<notin> got b c)"
  by (rule presented_least [of b str p "cn_reass c"]) (auto simp: conn_inv_def presented_def)

lemma conn_inv_missing: "conn_inv b str p c \<Longrightarrow> off b (nxt c) \<notin> got b c"
  by (rule presented_missing [of b str p "cn_reass c"]) (auto simp: conn_inv_def presented_def)

text \<open>What one segment does to the connection.\<close>

definition advanced :: "tcp_seq \<Rightarrow> (nat \<Rightarrow> u8) \<Rightarrow> nat \<Rightarrow> reass_env \<Rightarrow> nat set \<Rightarrow> conn \<Rightarrow> conn \<Rightarrow> bool" where
  "advanced b str p env R c c' \<longleftrightarrow> conn_inv b str p c' \<and> off b (nxt c) \<le> off b (nxt c') \<and> rcv_wnd c' = rcv_wnd c \<and>
     dropped c \<le> dropped c' \<and>
     (if dropped c' = dropped c then got b c \<union> R \<subseteq> got b c' \<and> (\<not> re_passive env \<longrightarrow> got b c' = got b c \<union> R)
      else \<not> re_passive env \<and> got b c' = got b c)"

lemma do_data_in_order:
  assumes inv: "conn_inv b str p c" and good: "good_text b str sg" and first: "th_seq (sg_th sg) = nxt c" "t_segq (cn_reass c) = []"
  shows "advanced b str p env (seg_range b sg) c (report_data (th_seq (sg_th sg)) (tlen sg) (snd (in_order_data d sg c)))"
proof -
  let ?s = "off b (nxt c)" and ?m = "drop (nat (drop_text sg)) (sg_text sg)"
  define c1 where "c1 = snd (in_order_data d sg c)"
  have g: "0 \<le> tlen sg" "?s + nat (tlen sg) < 2 ^ 31" "?m = map str [?s ..< ?s + nat (tlen sg)]"
    using good first(1) by (simp_all add: good_text_def good_arrival_def)
  have d: "data_inv b str p (cn_reass c)" using inv by (simp add: conn_inv_def)
  have c1: "cn_reass c1 = (cn_reass c)\<lparr>reass.rcv_nxt := nxt c + of_int (tlen sg), so_rcv := so_rcv (cn_reass c) @ [Data ?m]\<rparr>"
    "cn_blks c1 = cn_blks c" "rcv_wnd c1 = rcv_wnd c"
    using d by (simp_all add: c1_def in_order_data_def Let_def data_inv_def sbappendstream_def)
  have o: "off b (nxt c1) = ?s + nat (tlen sg)" using off_plus_int [of "tlen sg" b "nxt c"] g by (simp add: c1)
  have "chunks_ok str p (so_rcv (cn_reass c) @ [Data ?m]) (?s + nat (tlen sg))"
    using d g(3) by (auto simp: data_inv_def chunks_ok_append)
  then have d1: "data_inv b str p (cn_reass c1)" using d o g(2) first(2) unfolding data_inv_def in_win_def by (simp add: c1)
  have h1: "got b c1 = got b c \<union> seg_range b sg" using first o by (auto simp: held_def seg_range_def c1)
  have "report_inv b (got b c1) (cn_blks c1)" using inv h1 unfolding c1(2) by (auto simp: conn_inv_def intro: report_inv_mono)
  then have "report_inv b (got b c1) (cn_blks (report_data (th_seq (sg_th sg)) (tlen sg) c1))"
    using report_data_inv [of b "got b c1" c1 "th_seq (sg_th sg)" "tlen sg"] d1 g first h1 by (simp add: data_inv_def seg_range_def)
  then show ?thesis
    using inv d1 h1 o first(2) unfolding advanced_def conn_inv_def c1_def [symmetric] by (simp add: c1)
qed

lemma queue_seg_len: "queue_seg env te dlh th l m tp = Inr (fl, n, sq, tp') \<Longrightarrow> n \<le> l"
  unfolding queue_seg_eq [OF refl refl refl] by (auto split: if_splits)

lemma tcp_reass_len: "tcp_reass env (Some (th, l, m)) tp = Inr (fl, n, sq, tp') \<Longrightarrow> 0 \<le> l \<Longrightarrow> n \<le> l"
  by (auto simp: tcp_reass_def reass_drop_def Let_def split: if_splits option.splits dest: queue_seg_len)

lemma do_data_queue:
  assumes inv: "conn_inv b str p c" and good: "good_text b str sg" and ahead: "off b (nxt c) \<le> off b (th_seq (sg_th sg))"
    and run: "tcp_reass env (Some (sg_th sg, tlen sg, drop (nat (drop_text sg)) (sg_text sg))) (cn_reass c) = Inr (fl, n, sq, tp)"
  shows "advanced b str p env (seg_range b sg) c (report_data (th_seq (sg_th sg)) n (c\<lparr>cn_reass := tp, t_flags := f\<rparr>))"
proof -
  let ?c = "report_data (th_seq (sg_th sg)) n (c\<lparr>cn_reass := tp, t_flags := f\<rparr>)"
  have d: "data_inv b str p (cn_reass c)" and st: "TCPS_HAVEESTABLISHED (t_state (cn_reass c))" and rep: "report_inv b (got b c) (cn_blks c)"
    using inv by (simp_all add: conn_inv_def)
  have arr: "good_arrival b str (th_seq (sg_th sg)) (tlen sg) (drop (nat (drop_text sg)) (sg_text sg))" using good by (simp add: good_text_def)
  have n: "n \<le> tlen sg" using tcp_reass_len [OF run] arr by (simp add: good_arrival_def)
  consider (drop) "\<not> re_passive env" "n = 0" "tp = (count_overflow (sg_th sg) (cn_reass c))\<lparr>tcps_rcvmemdrop := Suc (dropped c)\<rparr>"
    | (queue) "presented b str p (cn_reass c) tp" "got b c \<union> seg_range b sg \<subseteq> held b tp"
        "re_passive env \<or> held b tp = got b c \<union> seg_range b sg"
    using tcp_reass_data [OF run d arr ahead] unfolding seg_range_def by blast
  then show ?thesis
  proof cases
    case drop
    have h: "held b tp = got b c" "data_inv b str p tp" using d by (simp_all add: drop(3) held_def data_inv_def)
    have "cn_blks ?c = cn_blks c" using drop(2) by (simp add: report_data_def)
    then show ?thesis using inv h drop(1) by (simp add: advanced_def conn_inv_def drop(3))
  next
    case queue
    then have pr: "data_inv b str p tp" "off b (nxt c) \<le> off b (reass.rcv_nxt tp)" "t_state tp = t_state (cn_reass c)"
      "tcps_rcvmemdrop tp = dropped c" "t_segq tp = [] \<or> tqe_seq (hd (t_segq tp)) \<noteq> reass.rcv_nxt tp"
      using st unfolding presented_def by blast+
    have "{off b (th_seq (sg_th sg)) ..< off b (th_seq (sg_th sg)) + nat n} \<subseteq> held b tp"
      using queue(2) n by (fastforce simp: seg_range_def)
    moreover have "off b (th_seq (sg_th sg)) + nat n < 2 ^ 31" using arr n unfolding good_arrival_def by linarith
    moreover have "report_inv b (held b tp) (cn_blks c)" using rep queue(2) by (auto intro: report_inv_mono)
    ultimately have "report_inv b (held b tp) (cn_blks ?c)"
      using report_data_inv [of b "held b tp" "c\<lparr>cn_reass := tp, t_flags := f\<rparr>"] pr(1) by (simp add: data_inv_def)
    then show ?thesis using inv pr queue(2,3) by (simp add: advanced_def conn_inv_def) blast
  qed
qed

lemma do_data_spec:
  assumes inv: "conn_inv b str p c" and good: "good_text b str sg" and run: "do_data env d sg c = Inr (fl, c')"
    and ahead: "tlen sg = 0 \<and> thflags sg AND TH_FIN = 0 \<or> off b (nxt c) \<le> off b (th_seq (sg_th sg))"
  shows "advanced b str p env (seg_range b sg) c c'"
proof (cases "tlen sg = 0 \<and> thflags sg AND TH_FIN = 0")
  case True
  then have "c' = c" "seg_range b sg = {}" using run by (simp_all add: do_data_def seg_range_def)
  then show ?thesis using inv by (simp add: advanced_def)
next
  case False
  have st: "TCPS_HAVEESTABLISHED (t_state (cn_reass c))" "\<not> TCPS_HAVERCVDFIN (t_state (cn_reass c))"
    using inv by (simp_all add: conn_inv_def)
  show ?thesis
  proof (cases "th_seq (sg_th sg) = nxt c \<and> t_segq (cn_reass c) = []")
    case True
    then have "c' = report_data (th_seq (sg_th sg)) (tlen sg) (snd (in_order_data d sg c))"
      using run False st by (auto simp: do_data_def Let_def split: prod.splits)
    then show ?thesis using do_data_in_order [OF inv good] True by simp
  next
    case no: False
    then obtain n sq tp where "tcp_reass env (Some (sg_th sg, tlen sg, drop (nat (drop_text sg)) (sg_text sg))) (cn_reass c) = Inr (fl, n, sq, tp)"
      "c' = report_data (th_seq (sg_th sg)) n (c\<lparr>cn_reass := tp, t_flags := t_flags c OR TF_ACKNOW\<rparr>)"
      using run False st by (auto simp: do_data_def Let_def)
    then show ?thesis using do_data_queue [OF inv good] ahead False by blast
  qed
qed

lemma seg_text_advanced:
  assumes inv: "conn_inv b str p c" and good: "good_text b str sg" and syn: "thflags sg AND TH_SYN = 0"
    and win: "off b (nxt c) + unat (rcv_wnd c) < 2 ^ 31" and run: "seg_text env d sg c = Inr (fl, c')"
  shows "advanced b str p env (seg_range b sg \<inter> {off b (nxt c) ..< off b (nxt c) + unat (rcv_wnd c)}) c c'"
proof -
  have n: "in_win b (nxt c)" using inv by (simp add: conn_inv_def data_inv_def)
  obtain sg1 c1 where f: "trim_front sg c = (sg1, c1)" by fastforce
  note t1 = trim_front_spec [OF good syn n f]
  then have g1: "good_text b str sg1" "seg_range b sg1 = seg_range b sg \<inter> {off b (nxt c) ..}" "same_flags c c1"
    "tlen sg1 = 0 \<and> thflags sg1 AND TH_FIN = 0 \<or> off b (nxt c) \<le> off b (th_seq (sg_th sg1))" by blast+
  note sc1 = same_flags_simps [OF g1(3)]
  note t2 = trim_back_spec [OF g1(1), of c1, unfolded sc1, OF n win]
  have adv: "advanced b str p env R c c''" if "advanced b str p env R c2 c''" "same_flags c1 c2" for R c2 c''
  proof -
    have e: "cn_reass c2 = cn_reass c" "rcv_wnd c2 = rcv_wnd c" using same_flags_simps [OF that(2)] sc1 by simp_all
    show ?thesis using that(1) unfolding advanced_def e .
  qed
  have inv2: "conn_inv b str p c2" if "same_flags c1 c2" for c2
    using inv same_flags_simps [OF that] sc1 by (simp add: conn_inv_def)
  show ?thesis
  proof (cases "trim_back sg1 c1")
    case None
    then have "c' = c1\<lparr>t_flags := t_flags c1 OR TF_ACKNOW\<rparr>" using run f by (simp add: seg_text_def)
    moreover have "seg_range b sg \<inter> {off b (nxt c) ..< off b (nxt c) + unat (rcv_wnd c)} = {}" using t2 None g1(2) by auto
    ultimately show ?thesis using inv sc1 by (simp add: advanced_def conn_inv_def)
  next
    case (Some r)
    obtain sg2 c2 where r: "r = (sg2, c2)" by (meson prod.exhaust)
    have g2: "good_text b str sg2" "seg_range b sg2 = seg_range b sg1 \<inter> {..< off b (nxt c) + unat (rcv_wnd c)}" "same_flags c1 c2"
      "th_seq (sg_th sg2) = th_seq (sg_th sg1)" "thflags sg1 AND TH_FIN = 0 \<longrightarrow> thflags sg2 AND TH_FIN = 0" "tlen sg1 = 0 \<longrightarrow> tlen sg2 = 0"
      using t2 Some r by simp_all
    have "nxt c2 = nxt c" using same_flags_simps [OF g2(3)] sc1 by simp
    then have ahead: "tlen sg2 = 0 \<and> thflags sg2 AND TH_FIN = 0 \<or> off b (nxt c2) \<le> off b (th_seq (sg_th sg2))" using g1(4) g2(4-6) by auto
    have "do_data env d sg2 c2 = Inr (fl, c')" using run f Some r by (simp add: seg_text_def)
    from do_data_spec [OF inv2 [OF g2(3)] g2(1) this ahead]
    have "advanced b str p env (seg_range b sg2) c c'" by (rule adv [OF _ g2(3)])
    moreover have "seg_range b sg2 = seg_range b sg \<inter> {off b (nxt c) ..< off b (nxt c) + unat (rcv_wnd c)}" unfolding g2(2) g1(2) by auto
    ultimately show ?thesis by simp
  qed
qed

section \<open>A connection without holes and without a FIN\<close>

fun data_only :: "chunk list \<Rightarrow> bool" where
  "data_only [] = True"
| "data_only (Data bs # cs) = data_only cs"
| "data_only (Hole n # cs) = False"

text \<open>The bytes a reader of the receive buffer sees.\<close>

fun stream_of :: "chunk list \<Rightarrow> u8 list" where
  "stream_of [] = []"
| "stream_of (Data bs # cs) = bs @ stream_of cs"
| "stream_of (Hole n # cs) = stream_of cs"

lemma stream_of_data: "chunks_ok str p cs n \<Longrightarrow> data_only cs \<Longrightarrow> stream_of cs = map str [p ..< n]"
proof (induction str p cs n rule: chunks_ok.induct)
  case (2 str p bs cs n)
  then have "chunks_ok str (p + length bs) cs n" by simp
  then have "p + length bs \<le> n" by (rule chunks_ok_mono)
  then have "[p ..< n] = [p ..< p + length bs] @ [p + length bs ..< n]" using upt_add_eq_append [of p "p + length bs" "n - (p + length bs)"] by simp
  then show ?case using 2 by auto
qed auto

lemma data_only_append [simp]: "data_only (xs @ ys) \<longleftrightarrow> data_only xs \<and> data_only ys"
  by (induction xs rule: data_only.induct) auto

definition plain :: "reass \<Rightarrow> bool" where
  "plain tp \<longleftrightarrow> data_only (so_rcv tp) \<and> (\<forall>q \<in> set (t_segq tp). tqe_flags q AND TH_FIN = 0)"

lemma present_loop_plain:
  assumes "present_loop qs fl rep rec tp = Inr (fl', rep', rec', tp')" "data_only (so_rcv tp)" "\<forall>q \<in> set qs. tqe_flags q AND TH_FIN = 0"
    "fl = 0" "t_segq tp = qs" "\<not> so_cantrcvmore tp"
  shows "plain tp' \<and> fl' = 0"
  using assms
proof (induction qs arbitrary: fl rep rec tp)
  case (Cons q qs)
  obtain rep1 rec1 tp1 where one: "present_one q qs rep rec tp = Inr (rep1, rec1, tp1)" using Cons.prems(1) by auto
  have p: "data_only (so_rcv tp1)" "t_segq tp1 = qs" "\<not> so_cantrcvmore tp1"
    using present_one_data [OF one Cons.prems(6)] Cons.prems(2) by simp_all
  have fl: "tqe_flags q AND TH_FIN = 0" using Cons.prems(3) by simp
  show ?case
  proof (cases "qs \<noteq> [] \<and> tqe_seq (hd qs) = reass.rcv_nxt tp1")
    case True
    then have "present_loop qs 0 rep1 rec1 tp1 = Inr (fl', rep', rec', tp')" using Cons.prems(1) one fl by (simp add: Let_def)
    then show ?thesis using Cons.IH p Cons.prems(3) by simp
  next
    case False
    then have "Inr (0, rep1, rec1, tp1) = (Inr (fl', rep', rec', tp') :: (u8 \<times> bool \<times> tqe_ref option \<times> reass) res)"
      using Cons.prems(1) one fl by (auto simp: Let_def)
    then show ?thesis using Cons.prems(3) p by (simp add: plain_def)
  qed
qed (simp add: plain_def)

lemma present_plain:
  assumes "present env False rep tp = Inr (fl, tp')" "plain tp" "\<not> so_cantrcvmore tp"
  shows "plain tp' \<and> fl = 0"
proof (cases "TCPS_HAVEESTABLISHED (t_state tp) \<and> t_segq tp \<noteq> [] \<and> tqe_seq (hd (t_segq tp)) = reass.rcv_nxt tp")
  case False
  then have "fl = 0 \<and> (tp' = tp \<or> (\<exists>d. tp' = tp\<lparr>tm_reassdl := d\<rparr>))"
    using assms(1) by (cases "t_segq tp") (auto simp: present_def split: if_splits)
  then show ?thesis using assms(2) by (auto simp: plain_def)
next
  case True
  then obtain q qs where q: "t_segq tp = q # qs" by (meson neq_Nil_conv)
  obtain rep1 rec tp1 tp2 d where l: "present_loop (q # qs) 0 rep None tp = Inr (fl, rep1, rec, tp1)"
    "(if rep1 then replace_tqs rec tp1 else Inr tp1) = Inr tp2" "tp' = (if tm_reassdl tp2 = 0 \<or> d = 0 then tp2\<lparr>tm_reassdl := d\<rparr> else tp2)"
    using assms(1) True q by (auto simp: present_def simp del: present_loop.simps)
  have p1: "plain tp1" "fl = 0"
    using present_loop_plain [OF l(1)] assms(2,3) q by (simp_all add: plain_def)
  have "plain tp2"
  proof (cases rep1)
    case True
    then show ?thesis using l(2) p1(1) by (cases rec) (auto simp: replace_tqs_def plain_def)
  qed (use l(2) p1(1) in simp)
  then show ?thesis using p1(2) unfolding l(3) by (simp add: plain_def)
qed

lemma trim_next_flags: "\<forall>q \<in> set qs. P (tqe_flags q) \<Longrightarrow> \<forall>q \<in> set (fst (trim_next e qs)). P (tqe_flags q)"
  by (induction e qs rule: trim_next.induct) (auto simp: Let_def split: prod.splits)

lemma insert_seg_plain:
  assumes "insert_seg env te th n m pre rest tp = Inr tp'" "plain tp" "t_segq tp = pre @ rest" "th_flags th AND TH_FIN = 0"
  shows "plain tp' \<and> so_cantrcvmore tp' = so_cantrcvmore tp"
proof -
  obtain r fr where t: "trim_next (th_seq th + of_int n) rest = (r, fr)" by fastforce
  have "\<forall>q \<in> set rest. tqe_flags q AND TH_FIN = 0" using assms(2,3) by (simp add: plain_def)
  then have r: "\<forall>q \<in> set r. tqe_flags q AND TH_FIN = 0" using trim_next_flags [of rest "\<lambda>f. f AND TH_FIN = 0" "th_seq th + of_int n"] t by simp
  let ?q = "\<lparr>tqe_ref = te, tqe_len = n, tqe_seq = th_seq th, tqe_flags = th_flags th, tqe_m = m, tqe_ticks = re_ticks env\<rparr>"
  have "t_segq tp' = pre @ ?q # r" "so_rcv tp' = so_rcv tp" "so_cantrcvmore tp' = so_cantrcvmore tp"
    using assms(1) t by (auto simp: insert_seg_def age_insert_tail_def Let_def split: if_splits)
  then show ?thesis using assms(2-4) r by (auto simp: plain_def)
qed

lemma queue_seg_plain:
  assumes "queue_seg env te False th n m tp = Inr (fl, n', sq, tp')" "plain tp" "th_flags th AND TH_FIN = 0" "\<not> so_cantrcvmore tp"
  shows "plain tp' \<and> fl = 0"
proof -
  define pre rest i where "pre = takeWhile (\<lambda>q. \<not> SEQ_GT (tqe_seq q) (th_seq th)) (t_segq tp)"
    and "rest = dropWhile (\<lambda>q. \<not> SEQ_GT (tqe_seq q) (th_seq th)) (t_segq tp)"
    and "i = (if pre = [] then 0 else sint (tqe_seq (last pre) + of_int (tqe_len (last pre)) - th_seq th))"
  note eq = queue_seg_eq [OF pre_def rest_def i_def, of env te False n m]
  show ?thesis
  proof (cases "i > 0 \<and> i \<ge> n")
    case True
    then show ?thesis using assms unfolding eq by (auto dest!: present_plain simp: plain_def)
  next
    case False
    then obtain tp1 where ins: "insert_seg env te (th\<lparr>th_seq := th_seq th + of_int (max 0 i)\<rparr>) (n - max 0 i) (drop (nat i) m) pre rest
        (tp\<lparr>t_segqlen := t_segqlen tp + 1\<rparr>) = Inr tp1"
      and pr: "present env False (pre \<noteq> [] \<and> re_passive env \<and> te = Tqs) tp1 = Inr (fl, tp')"
      using assms(1) unfolding eq by auto
    have "plain tp1 \<and> so_cantrcvmore tp1 = so_cantrcvmore tp"
      using insert_seg_plain [OF ins] assms(2,3) by (simp add: plain_def pre_def rest_def)
    then show ?thesis using present_plain [OF pr] assms(4) by simp
  qed
qed

lemma tcp_reass_plain:
  assumes run: "tcp_reass env (Some (th, n, m)) tp = Inr (fl, n', sq, tp')" and "\<not> re_passive env" "plain tp" "th_flags th AND TH_FIN = 0"
    "\<not> so_cantrcvmore tp"
  shows "plain tp' \<and> fl = 0"
proof -
  have p: "plain (count_overflow th tp)" "\<not> so_cantrcvmore (count_overflow th tp)" using assms(3,5) by (simp_all add: plain_def)
  have q: ?thesis if "queue_seg env te False th n m (count_overflow th tp) = Inr (fl, n', sq, tp')" for te
    by (rule queue_seg_plain [OF that p(1) assms(4) p(2)])
  show ?thesis
  proof (cases "t_maxseg tp = 0")
    case True
    then have "\<not> out_of_order th tp" "count_overflow th tp = tp"
      using run by (auto simp: tcp_reass_def Let_def out_of_order_def count_overflow_def queue_full_def split: if_splits)
    then show ?thesis using run q by (auto simp: tcp_reass_def Let_def out_of_order_def split: option.splits if_splits)
  next
    case False
    then show ?thesis
    proof (rule tcp_reass_cases [of tp env th n m])
      assume "tcp_reass env (Some (th, n, m)) tp = reass_drop th (count_overflow th tp)"
      then show ?thesis using run p(1) by (auto simp: reass_drop_def plain_def)
    qed (use run q assms(2) in auto)
  qed
qed

definition no_fin_seg :: "segment \<Rightarrow> bool" where
  "no_fin_seg sg \<longleftrightarrow> th_flags (sg_th sg) AND TH_FIN = 0 \<and> thflags sg AND TH_FIN = 0"

lemma do_data_plain:
  assumes run: "do_data env d sg c = Inr (fl, c')" and "\<not> re_passive env" "plain (cn_reass c)" "no_fin_seg sg" "\<not> so_cantrcvmore (cn_reass c)"
  shows "plain (cn_reass c') \<and> fl AND TH_FIN = 0"
proof (cases "(tlen sg \<noteq> 0 \<or> thflags sg AND TH_FIN \<noteq> 0) \<and> \<not> TCPS_HAVERCVDFIN (t_state (cn_reass c))")
  case False
  then show ?thesis using run assms(3) by (auto simp: do_data_def and_not_self)
next
  case True
  show ?thesis
  proof (cases "th_seq (sg_th sg) = nxt c \<and> t_segq (cn_reass c) = [] \<and> TCPS_HAVEESTABLISHED (t_state (cn_reass c))")
    case first: True
    then show ?thesis using True run assms(3-5)
      by (auto simp: do_data_def in_order_data_def sbappendstream_def plain_def no_fin_seg_def Let_def)
  next
    case False
    then obtain n sq where r: "tcp_reass env (Some (sg_th sg, tlen sg, drop (nat (drop_text sg)) (sg_text sg))) (cn_reass c) = Inr (fl, n, sq, cn_reass c')"
      using True run by (auto simp: do_data_def Let_def)
    show ?thesis using tcp_reass_plain [OF r assms(2,3) _ assms(5)] assms(4) by (simp add: no_fin_seg_def)
  qed
qed

lemma trim_front_frame: "thflags sg AND TH_SYN = 0 \<Longrightarrow> trim_front sg c = (sg', c') \<Longrightarrow> no_fin_seg sg \<Longrightarrow> no_fin_seg sg' \<and> cn_reass c' = cn_reass c"
  by (auto simp: trim_front_def drop_front_def no_fin_seg_def Let_def and_not_self and_fin_urg split: if_splits)

lemma trim_back_frame: "trim_back sg c = Some (sg', c') \<Longrightarrow> no_fin_seg sg \<Longrightarrow> no_fin_seg sg' \<and> cn_reass c' = cn_reass c"
  by (auto simp: trim_back_def drop_back_def no_fin_seg_def Let_def and_not_self split: if_splits)

lemma seg_text_plain:
  assumes run: "seg_text env d sg c = Inr (fl, c')" and "thflags sg AND TH_SYN = 0" "\<not> re_passive env" "plain (cn_reass c)" "no_fin_seg sg"
    "\<not> so_cantrcvmore (cn_reass c)"
  shows "plain (cn_reass c') \<and> fl AND TH_FIN = 0"
proof -
  obtain sg1 c1 where f: "trim_front sg c = (sg1, c1)" by fastforce
  note t1 = trim_front_frame [OF assms(2) f assms(5)]
  show ?thesis
  proof (cases "trim_back sg1 c1")
    case None
    then show ?thesis using run f t1 assms(4) by (auto simp: seg_text_def)
  next
    case (Some r)
    obtain sg2 c2 where r: "r = (sg2, c2)" by (meson prod.exhaust)
    have t2: "no_fin_seg sg2" "cn_reass c2 = cn_reass c" using trim_back_frame [of sg1 c1] Some r t1 by simp_all
    have "do_data env d sg2 c2 = Inr (fl, c')" using run f Some r by (simp add: seg_text_def)
    then show ?thesis using do_data_plain [OF _ assms(3), of d sg2 c2] t2 assms(4,6) by simp
  qed
qed

section \<open>A run\<close>

text \<open>Segments in the order of their arrival, each with what it meets.\<close>

fun receive :: "(reass_env \<times> bool \<times> segment) list \<Rightarrow> conn \<Rightarrow> conn res" where
  "receive [] c = Inr c"
| "receive ((env, d, sg) # rest) c =
     res_bind (seg_text env d sg c) (\<lambda>(fl, c). receive rest (snd (do_fin (re_ticks env) fl c)))"

text \<open>A segment of the first \<open>N\<close> bytes of the stream, without SYN and FIN, on an active connection.\<close>

definition stream_seg :: "tcp_seq \<Rightarrow> (nat \<Rightarrow> u8) \<Rightarrow> nat \<Rightarrow> reass_env \<times> bool \<times> segment \<Rightarrow> bool" where
  "stream_seg b str N x \<longleftrightarrow> (case x of (env, d, sg) \<Rightarrow> \<not> re_passive env \<and> good_text b str sg \<and> thflags sg AND TH_SYN = 0 \<and>
     no_fin_seg sg \<and> seg_range b sg \<subseteq> {..< N})"

text \<open>What the segments carry.\<close>

definition carried :: "tcp_seq \<Rightarrow> (reass_env \<times> bool \<times> segment) list \<Rightarrow> nat set" where
  "carried b xs = (\<Union>x \<in> set xs. seg_range b (snd (snd x)))"

lemma conn_nxt_bound:
  assumes "conn_inv b str p c" "got b c \<subseteq> {..< N}"
  shows "off b (nxt c) \<le> N"
  using assms(2) by (auto simp: held_def lessThan_subset_iff)

lemma receive_inv:
  assumes "receive xs c = Inr c'" "conn_inv b str p c" "plain (cn_reass c)" "list_all (stream_seg b str N) xs"
    "got b c \<subseteq> {..< N}" "N + unat (rcv_wnd c) < 2 ^ 31"
  shows "conn_inv b str p c' \<and> plain (cn_reass c') \<and> off b (nxt c) \<le> off b (nxt c') \<and> dropped c \<le> dropped c' \<and>
    (dropped c' = dropped c \<longrightarrow>
      got b c \<union> carried b xs \<inter> {..< off b (nxt c) + unat (rcv_wnd c)} \<subseteq> got b c')"
  using assms
proof (induction xs arbitrary: c)
  case (Cons x xs)
  obtain env d sg where x: "x = (env, d, sg)" by (cases x) auto
  have sg: "\<not> re_passive env" "good_text b str sg" "thflags sg AND TH_SYN = 0" "no_fin_seg sg" "seg_range b sg \<subseteq> {..< N}"
    using Cons.prems(4) x by (simp_all add: stream_seg_def)
  obtain fl c1 where r: "seg_text env d sg c = Inr (fl, c1)" "receive xs (snd (do_fin (re_ticks env) fl c1)) = Inr c'"
    using Cons.prems(1) x by auto
  have win: "off b (nxt c) + unat (rcv_wnd c) < 2 ^ 31" using conn_nxt_bound [OF Cons.prems(2,5)] Cons.prems(6) by linarith
  let ?R = "seg_range b sg \<inter> {off b (nxt c) ..< off b (nxt c) + unat (rcv_wnd c)}"
  note adv = seg_text_advanced [OF Cons.prems(2) sg(2,3) win r(1)]
  then have a: "conn_inv b str p c1" "off b (nxt c) \<le> off b (nxt c1)" "rcv_wnd c1 = rcv_wnd c"
    and h: "dropped c1 = dropped c \<and> got b c1 = got b c \<union> ?R \<or> dropped c < dropped c1 \<and> got b c1 = got b c"
    using sg(1) unfolding advanced_def by (auto split: if_splits)
  have "\<not> so_cantrcvmore (cn_reass c)" using Cons.prems(2) by (simp add: conn_inv_def data_inv_def)
  from seg_text_plain [OF r(1) sg(3,1) Cons.prems(3) sg(4) this] have pl: "plain (cn_reass c1)" "snd (do_fin (re_ticks env) fl c1) = c1"
    by (simp_all add: do_fin_def)
  have "got b c1 \<subseteq> {..< N}" using h Cons.prems(5) sg(5) by blast
  note ih = Cons.IH [OF r(2) [unfolded pl(2)] a(1) pl(1) _ this]
  have rest: "conn_inv b str p c'" "plain (cn_reass c')" "off b (nxt c1) \<le> off b (nxt c')" "dropped c1 \<le> dropped c'"
    "dropped c' = dropped c1 \<longrightarrow> got b c1 \<union> carried b xs \<inter> {..< off b (nxt c1) + unat (rcv_wnd c)} \<subseteq> got b c'"
    using ih Cons.prems(4,6) unfolding a(3) by auto
  moreover have "got b c \<union> carried b (x # xs) \<inter> {..< off b (nxt c) + unat (rcv_wnd c)} \<subseteq> got b c'"
    if "dropped c' = dropped c"
  proof -
    have d: "dropped c1 = dropped c" "got b c1 = got b c \<union> ?R" using that h rest(4) by auto
    have "seg_range b sg \<inter> {..< off b (nxt c) + unat (rcv_wnd c)} \<subseteq> got b c1" unfolding d(2) by (auto simp: held_def)
    moreover have "carried b xs \<inter> {..< off b (nxt c) + unat (rcv_wnd c)} \<subseteq> carried b xs \<inter> {..< off b (nxt c1) + unat (rcv_wnd c)}"
      using a(2) by auto
    moreover have "carried b (x # xs) = seg_range b sg \<union> carried b xs" by (simp add: carried_def x)
    moreover have "got b c \<subseteq> got b c1" unfolding d(2) by blast
    moreover have "got b c1 \<union> carried b xs \<inter> {..< off b (nxt c1) + unat (rcv_wnd c)} \<subseteq> got b c'" using rest(5) that d(1) by simp
    ultimately show ?thesis by blast
  qed
  ultimately show ?case using a(2) h by auto
qed (simp add: carried_def)

section \<open>Properties\<close>




text \<open>
  C24. A FIN behind the window: the data that do not fit are cut off, and with them the FIN, as the
  comment in the code says. But \<^verbatim>\<open>thflags\<close> is read again from the header where the data are taken in order,
  and the FIN is back: the connection is closed for reading, and the data that were cut off
  can no longer be received.
\<close>

theorem trimmed_fin_taken:
  assumes st: "t_state (cn_reass c) = TCPS_ESTABLISHED" "t_segq (cn_reass c) = []"
    and win: "0 < unat (rcv_wnd c)" "int (unat (rcv_wnd c)) < tlen sg" "tlen sg < 2 ^ 31"
    and sg: "th_seq (sg_th sg) = nxt c" "th_flags (sg_th sg) AND TH_FIN \<noteq> 0"
  shows "\<exists>fl c1. seg_text env d sg c = Inr (fl, c1) \<and> nxt c1 = nxt c + ucast (rcv_wnd c) \<and>
    so_cantrcvmore (cn_reass (snd (do_fin ticks fl c1))) \<and> nxt (snd (do_fin ticks fl c1)) = nxt c1 + 1 \<and>
    t_state (cn_reass (snd (do_fin ticks fl c1))) = TCPS_CLOSE_WAIT"
proof -
  define w where "w = unat (rcv_wnd c)"
  have f: "trim_front sg c = (sg, c)" using sg(1) by (simp add: trim_front_def)
  have wnd: "(ucast (rcv_wnd c) :: u32) = of_nat w" by (simp add: w_def)
  have lt: "w < 2147483648" "nat (tlen sg) < 2147483648" "0 < w" "int w < tlen sg" using win by (simp_all add: w_def [symmetric])
  have "off (nxt c) (nxt c + of_nat w) = w" "off (nxt c) (nxt c + of_int (tlen sg)) = nat (tlen sg)"
    using off_plus [of "nxt c" "nxt c" w] off_plus_int [of "tlen sg" "nxt c" "nxt c"] lt by simp_all
  then have td: "sint ((nxt c + of_int (tlen sg)) - (nxt c + ucast (rcv_wnd c))) = tlen sg - int w"
    using SEQ_sint [of "nxt c" "nxt c + of_int (tlen sg)" "nxt c + of_nat w"] lt unfolding wnd by (simp add: in_win_def)
  have t: "trim_back sg c = Some (drop_back (tlen sg - int w) sg, c)"
    using lt unfolding trim_back_def sg(1) td by (simp add: Let_def)
  define sg1 where "sg1 = drop_back (tlen sg - int w) sg"
  have sg1: "tlen sg1 = int w" "sg_th sg1 = sg_th sg" by (simp_all add: sg1_def drop_back_def)
  define c1 where "c1 = report_data (nxt c) (int w) (snd (in_order_data d sg1 c))"
  have "seg_text env d sg c = Inr (th_flags (sg_th sg) AND TH_FIN, c1)"
    using f t st lt(3) sg sg1 unfolding sg1_def [symmetric]
    by (simp add: seg_text_def do_data_def TCPS_HAVERCVDFIN_def TCPS_HAVEESTABLISHED_def TCPS_ESTABLISHED_def TCPS_TIME_WAIT_def c1_def
        in_order_data_def Let_def)
  moreover have "nxt c1 = nxt c + ucast (rcv_wnd c)" "t_state (cn_reass c1) = TCPS_ESTABLISHED"
    using st(1) by (simp_all add: c1_def in_order_data_def sg1 wnd sbappendstream_def Let_def)
  ultimately show ?thesis using sg(2)
    by (auto simp: do_fin_def Let_def TCPS_HAVERCVDFIN_def TCPS_ESTABLISHED_def TCPS_TIME_WAIT_def fin_state_def TCPS_SYN_RECEIVED_def)
qed

section \<open>Instances\<close>

text \<open>
  The connection of \<^const>\<open>reass_demo\<close>, which has reported its queued segment, and a segment that
  repeats four bytes, fills the gap and overlaps the queued segment.
\<close>

definition data_demo :: conn where
  "data_demo = \<lparr>cn_reass = reass_demo, cn_blks = [\<lparr>blk_start = 10, blk_end = 18\<rparr>], t_flags = TF_SACK_PERMIT, rcv_wnd = 1000\<rparr>"

definition data_demo_seg :: segment where
  "data_demo_seg = \<lparr>sg_th = \<lparr>th_seq = 0xfffffffc, th_flags = 0x10\<rparr>, th_urp = 0, thflags = 0x10, tlen = 16,
     sg_text = [12, 13, 14, 15, 16, 17, 18, 19, 20, 21, 22, 23, 24, 25, 26, 27], drop_text = 0\<rparr>"

lemma data_demo_run:
  "\<exists>fl c'. seg_text reass_demo_env False data_demo_seg data_demo = Inr (fl, c') \<and> fl = 0 \<and> nxt c' = 18 \<and> cn_blks c' = [] \<and>
    dropped c' = dropped data_demo"
  by (simp add: seg_text_def trim_front_def trim_back_def drop_front_def do_data_def report_data_def data_demo_def data_demo_seg_def
      tcp_reass_def queue_seg_def insert_seg_def present_def present_one_def age_remove_def age_insert_tail_def live_def
      sbappendstream_def tcp_reass_next_hole_deadline_def reass_demo_def reass_demo_env_def TCPS_HAVEESTABLISHED_def
      TCPS_HAVERCVDFIN_def TCPS_ESTABLISHED_def TCPS_TIME_WAIT_def TH_SYN_def TF_SACK_PERMIT_def TF_ACKNOW_def
      tcp_update_sack_list_def SEQ_GT_def SEQ_LEQ_def SEQ_GEQ_def SEQ_LT_def word_sless_alt word_sle_eq TH_FIN_def)

lemma data_demo_facts:
  "conn_inv 0xfffffff0 of_nat 16 data_demo" "plain (cn_reass data_demo)" "good_text 0xfffffff0 of_nat data_demo_seg"
  "thflags data_demo_seg AND TH_SYN = 0" "no_fin_seg data_demo_seg" "nxt data_demo = 0" "unat (rcv_wnd data_demo) = 1000"
  "got 0xfffffff0 data_demo = {..< 16} \<union> {26 ..< 34}" "seg_range 0xfffffff0 data_demo_seg = {12 ..< 28}" "off 0xfffffff0 0 = 16"
proof -
  have o: "off 0xfffffff0 0 = 16" "off 0xfffffff0 10 = 26" "off 0xfffffff0 18 = 34" "off 0xfffffff0 0xfffffffc = 12" by (simp_all add: off_def)
  show g: "got 0xfffffff0 data_demo = {..< 16} \<union> {26 ..< 34}"
    by (auto simp: data_demo_def reass_demo_def held_def o seg_bytes_def seg_end_def)
  have "report_inv 0xfffffff0 (got 0xfffffff0 data_demo) (cn_blks data_demo)"
    unfolding g by (auto simp: data_demo_def report_inv_def good_blk_def in_win_def o blk_bytes_def)
  then show "conn_inv 0xfffffff0 of_nat 16 data_demo"
    using reass_demo_facts(1) unfolding conn_inv_def by (simp add: data_demo_def)
      (simp add: reass_demo_def TCPS_HAVEESTABLISHED_def TCPS_HAVERCVDFIN_def TCPS_ESTABLISHED_def TCPS_TIME_WAIT_def)
  show "plain (cn_reass data_demo)" by (simp add: data_demo_def reass_demo_def plain_def)
  show "good_text 0xfffffff0 of_nat data_demo_seg" by (simp add: good_text_def data_demo_seg_def good_arrival_def o upt_conv_Cons)
  show "thflags data_demo_seg AND TH_SYN = 0" "no_fin_seg data_demo_seg"
    by (simp_all add: data_demo_seg_def TH_SYN_def no_fin_seg_def TH_FIN_def)
  show "nxt data_demo = 0" "unat (rcv_wnd data_demo) = 1000" by (simp_all add: data_demo_def reass_demo_def)
  show "seg_range 0xfffffff0 data_demo_seg = {12 ..< 28}" "off 0xfffffff0 0 = 16" by (simp_all add: seg_range_def data_demo_seg_def o)
qed


lemma data_demo_receive:
  "\<exists>c'. receive [(reass_demo_env, False, data_demo_seg)] data_demo = Inr c' \<and> nxt c' = 18 \<and> dropped c' = dropped data_demo"
proof -
  obtain c' where "seg_text reass_demo_env False data_demo_seg data_demo = Inr (0, c')" "nxt c' = 18" "dropped c' = dropped data_demo"
    using data_demo_run by blast
  then show ?thesis by (auto simp: do_fin_def)
qed

lemma data_demo_stream: "list_all (stream_seg 0xfffffff0 of_nat 34) [(reass_demo_env, False, data_demo_seg)]"
  using data_demo_facts(3-5,9) by (auto simp: stream_seg_def reass_demo_env_def)



text \<open>A window of four bytes and a segment of sixteen that ends with a FIN.\<close>

theorem trimmed_fin_taken_witness:
  "\<exists>fl c1. seg_text reass_demo_env False (data_demo_seg\<lparr>sg_th := \<lparr>th_seq = 0, th_flags = 0x11\<rparr>, thflags := 0x11\<rparr>)
      (data_demo\<lparr>cn_reass := reass_demo\<lparr>t_segq := []\<rparr>, rcv_wnd := 4\<rparr>) = Inr (fl, c1) \<and> nxt c1 = 4 \<and>
    so_cantrcvmore (cn_reass (snd (do_fin 0 fl c1)))"
  using trimmed_fin_taken [of "data_demo\<lparr>cn_reass := reass_demo\<lparr>t_segq := []\<rparr>, rcv_wnd := 4\<rparr>"
      "data_demo_seg\<lparr>sg_th := \<lparr>th_seq = 0, th_flags = 0x11\<rparr>, thflags := 0x11\<rparr>" reass_demo_env False 0]
  by (auto simp: data_demo_seg_def reass_demo_def TH_FIN_def)

end
