(* ===== verification/Tcp_Reass_Holes.thy ===== *)
theory Tcp_Reass_Holes
  imports Tcp_Reass_Live
begin

text \<open>
  \<^verbatim>\<open>tcp_reass_deliver_holes\<close>: when the deadline of a passive connection passes, what is queued is
  delivered with holes for what is missing.
\<close>

section \<open>The bytes in the receive buffer\<close>

fun chunk_bytes :: "nat \<Rightarrow> chunk list \<Rightarrow> nat set" where
  "chunk_bytes p [] = {}"
| "chunk_bytes p (Data bs # cs) = {p ..< p + length bs} \<union> chunk_bytes (p + length bs) cs"
| "chunk_bytes p (Hole k # cs) = chunk_bytes (p + nat k) cs"

lemma chunk_bytes_append:
  assumes "chunks_ok str p cs n"
  shows "chunk_bytes p (cs @ ds) = chunk_bytes p cs \<union> chunk_bytes n ds"
  using assms by (induction str p cs n rule: chunks_ok.induct) auto

text \<open>The bytes that have arrived: in the buffer, or queued.\<close>

definition arrived :: "tcp_seq \<Rightarrow> nat \<Rightarrow> reass \<Rightarrow> nat set" where
  "arrived b p tp = chunk_bytes p (so_rcv tp) \<union> seg_bytes b (t_segq tp)"

definition expired :: "reass_env \<Rightarrow> tseg_qent \<Rightarrow> bool" where
  "expired env q \<longleftrightarrow> sint (re_ticks env - tqe_ticks q) \<ge> re_reassdl env"

definition no_fin :: "tseg_qent \<Rightarrow> bool" where "no_fin q \<longleftrightarrow> tqe_flags q AND TH_FIN = 0"

lemma hole_one_ok:
  assumes inv: "data_inv b str p tp" "age_inv tp" and q: "t_segq tp = q # qs" "no_fin q" and hole: "re_gethole env"
  shows "\<exists>tp'. hole_one env q qs tp = Inr tp' \<and> data_inv b str p tp' \<and> age_inv tp' \<and> t_segq tp' = qs \<and>
    arrived b p tp' = arrived b p tp \<and> off b (rcv_nxt tp') = seg_end b q \<and> t_state tp' = t_state tp"
proof -
  have g: "good_seg b str q" "off b (rcv_nxt tp) \<le> off b (tqe_seq q)" and segs: "segs_ok b str (off b (rcv_nxt tp)) (q # qs)"
    and ch: "chunks_ok str p (so_rcv tp) (off b (rcv_nxt tp))" and cant: "\<not> so_cantrcvmore tp"
    using inv(1) q(1) by (auto simp: data_inv_def)
  define k where "k = int (off b (tqe_seq q)) - int (off b (rcv_nxt tp))"
  have k: "sint (tqe_seq q - rcv_nxt tp) = k" "0 \<le> k"
    using SEQ_sint [of b "tqe_seq q" "rcv_nxt tp"] good_seg_win [OF g(1)] inv(1) g(2) by (simp_all add: data_inv_def k_def)
  define c where "c = so_rcv tp @ (if k = 0 then [] else [Hole k])"
  define tp' where "tp' = tp\<lparr>so_rcv := c @ [Data (tqe_m q)], t_segageq := remove1 (tqe_ref q) (t_segageq tp),
    rcv_nxt := tqe_seq q + of_int (tqe_len q), t_segq := qs, t_segqlen := t_segqlen tp - 1, zone_freed := zone_freed tp @ [tqe_ref q]\<rparr>"
  have age: "age_inv (tp\<lparr>so_rcv := c\<rparr>)" using inv(2) by simp
  have "age_remove (tqe_ref q) (tp\<lparr>so_rcv := c\<rparr>) = Inr (tp\<lparr>so_rcv := c, t_segageq := remove1 (tqe_ref q) (t_segageq tp)\<rparr>)"
    using age_remove_ok [OF age] q(1) by simp
  moreover have "(if \<not> so_cantrcvmore tp \<and> k \<noteq> 0 then if k < 0 then Inl Exit_failure else append_hole env k tp else Inr tp) =
      Inr (tp\<lparr>so_rcv := c\<rparr>)" using k(2) cant hole by (simp add: append_hole_def sbappendstream_def c_def)
  ultimately have run: "hole_one env q qs tp = Inr tp'"
    using cant q(2) unfolding hole_one_def k(1) Let_def by (simp add: sbappendstream_def tp'_def no_fin_def)
  have o: "off b (rcv_nxt tp') = seg_end b q"
    using g(1) off_plus_int [of "tqe_len q" b "tqe_seq q"] by (simp add: tp'_def good_seg_def seg_end_def)
  have c: "chunks_ok str p c (off b (tqe_seq q))" "chunk_bytes p c = chunk_bytes p (so_rcv tp)"
    using ch k(2) g(2) chunk_bytes_append [OF ch, of "[Hole k]"] by (auto simp: c_def chunks_ok_append k_def)
  have m: "tqe_m q = map str [off b (tqe_seq q) ..< seg_end b q]" "off b (tqe_seq q) \<le> seg_end b q"
    using g(1) by (simp_all add: good_seg_def seg_end_ge)
  have "segs_ok b str (seg_end b q) qs" using segs by (auto simp: segs_ok_def list_all_iff)
  moreover have "chunks_ok str p (c @ [Data (tqe_m q)]) (seg_end b q)" using c(1) m by (auto simp: chunks_ok_append)
  ultimately have "data_inv b str p tp'"
    using o g(1) cant unfolding data_inv_def in_win_def by (auto simp: good_seg_def tp'_def)
  moreover have "arrived b p tp' = arrived b p tp"
    using q(1) c(2) chunk_bytes_append [OF c(1), of "[Data (tqe_m q)]"] m by (auto simp: arrived_def tp'_def)
  moreover have "age_inv tp'" by (rule age_inv_tail [OF inv(2) q(1)]) (simp_all add: tp'_def)
  moreover have "t_segq tp' = qs" "t_state tp' = t_state tp" by (simp_all add: tp'_def)
  ultimately show ?thesis using run o by blast
qed


text \<open>The loop removes everything up to the entry \<open>p\<close>, and goes on while it is contiguous.\<close>

lemma holes_loop_ok:
  assumes "data_inv b str p tp" "age_inv tp" "t_segq tp = qs" "list_all no_fin qs" "re_gethole env" "contiguous \<or> r \<in> refs qs"
  shows "\<exists>tp' pre. holes_loop env r contiguous qs tp = Inr tp' \<and> data_inv b str p tp' \<and> age_inv tp' \<and>
    arrived b p tp' = arrived b p tp \<and> off b (rcv_nxt tp) \<le> off b (rcv_nxt tp') \<and> t_state tp' = t_state tp \<and>
    qs = pre @ t_segq tp' \<and> (contiguous \<or> r \<in> refs pre) \<and> (t_segq tp' = [] \<or> tqe_seq (hd (t_segq tp')) \<noteq> rcv_nxt tp')"
  using assms(1-4,6)
proof (induction qs arbitrary: contiguous tp)
  case (Cons q qs)
  show ?case
  proof (cases "contiguous \<and> tqe_seq q \<noteq> rcv_nxt tp")
    case True
    then show ?thesis using Cons.prems by auto
  next
    case False
    obtain tp1 where one: "hole_one env q qs tp = Inr tp1" "data_inv b str p tp1" "age_inv tp1" "t_segq tp1 = qs"
      "arrived b p tp1 = arrived b p tp" "off b (rcv_nxt tp1) = seg_end b q" "t_state tp1 = t_state tp"
      using hole_one_ok [OF Cons.prems(1-3) _ assms(5)] Cons.prems(4) by auto
    have up: "off b (rcv_nxt tp) \<le> off b (rcv_nxt tp1)"
      using Cons.prems(1,3) one(6) seg_end_ge [of b q] by (fastforce simp: data_inv_def segs_ok_def)
    have "list_all no_fin qs" "(contiguous \<or> tqe_ref q = r) \<or> r \<in> refs qs" using Cons.prems(4,5) by auto
    from Cons.IH [OF one(2-4) this] obtain tp' pre where
      rest: "holes_loop env r (contiguous \<or> tqe_ref q = r) qs tp1 = Inr tp'" "data_inv b str p tp'" "age_inv tp'"
        "arrived b p tp' = arrived b p tp1" "off b (rcv_nxt tp1) \<le> off b (rcv_nxt tp')" "t_state tp' = t_state tp1"
        "qs = pre @ t_segq tp'" "(contiguous \<or> tqe_ref q = r) \<or> r \<in> refs pre"
        "t_segq tp' = [] \<or> tqe_seq (hd (t_segq tp')) \<noteq> rcv_nxt tp'" by blast
    have "holes_loop env r contiguous (q # qs) tp = Inr tp'" using False one(1) rest(1) by auto
    then show ?thesis using rest one(5,7) up by (intro exI [of _ tp'] exI [of _ "q # pre"]) auto
  qed
qed auto

section \<open>Properties\<close>

text \<open>
  C23. \<^verbatim>\<open>tcp_reass_deliver_holes\<close>, on a queue without a FIN: no segment that has waited longer than the deadline
  stays in the queue, and what stays is not contiguous to what was delivered; no byte that has arrived is
  lost, none is made up, and the receive buffer is the stream with holes for the rest.
\<close>

theorem tcp_reass_deliver_holes_spec:
  assumes inv: "data_inv b str p tp" "age_inv tp" and "list_all no_fin (t_segq tp)" "re_gethole env"
    and head: "t_segq tp = [] \<or> tqe_seq (hd (t_segq tp)) \<noteq> rcv_nxt tp"
  shows "\<exists>tp'. tcp_reass_deliver_holes env tp = Inr tp' \<and> data_inv b str p tp' \<and> age_inv tp' \<and>
    arrived b p tp' = arrived b p tp \<and> off b (rcv_nxt tp) \<le> off b (rcv_nxt tp') \<and> t_state tp' = t_state tp \<and>
    (\<forall>q \<in> set (t_segq tp'). \<not> expired env q) \<and> (t_segq tp' = [] \<or> tqe_seq (hd (t_segq tp')) \<noteq> rcv_nxt tp')"
proof (cases "filter (expired env) (t_segq tp) = []")
  case True
  then have "tcp_reass_deliver_holes env tp = Inr tp" by (simp add: tcp_reass_deliver_holes_def expired_def [symmetric])
  then show ?thesis using True inv head by (auto simp: filter_empty_conv)
next
  case False
  define r where "r = last (filter (expired env) (t_segq tp))"
  have r: "r \<in> set (t_segq tp)" using last_in_set [OF False] by (simp add: r_def)
  then have "False \<or> tqe_ref r \<in> refs (t_segq tp)" by simp
  from holes_loop_ok [OF inv refl assms(3,4) this] obtain tp1 pre where
    l: "holes_loop env (tqe_ref r) False (t_segq tp) tp = Inr tp1" "data_inv b str p tp1" "age_inv tp1"
      "arrived b p tp1 = arrived b p tp" "off b (rcv_nxt tp) \<le> off b (rcv_nxt tp1)" "t_state tp1 = t_state tp"
      "t_segq tp = pre @ t_segq tp1" "tqe_ref r \<in> refs pre"
      "t_segq tp1 = [] \<or> tqe_seq (hd (t_segq tp1)) \<noteq> rcv_nxt tp1" by blast
  have "tqe_ref r \<notin> refs (t_segq tp1)" using inv(2) l(7,8) by (auto simp: age_inv_def)
  moreover have "r = last (filter (expired env) (t_segq tp1))" if "filter (expired env) (t_segq tp1) \<noteq> []"
    using that unfolding r_def l(7) by simp
  ultimately have none: "filter (expired env) (t_segq tp1) = []" by (metis filter_is_subset imageI last_in_set subsetD)
  obtain d where d: "tcp_reass_next_hole_deadline env tp1 = Inr d" using deadline_ok [OF l(3)] by blast
  have "tcp_reass_deliver_holes env tp = Inr (tp1\<lparr>tm_reassdl := d\<rparr>)"
    using False l(1) d unfolding tcp_reass_deliver_holes_def expired_def [symmetric] r_def
    by (auto split: list.split)
  then show ?thesis using l none by (auto simp: data_inv_def arrived_def filter_empty_conv)
qed

section \<open>Instances\<close>

text \<open>The queue of \<^const>\<open>reass_demo\<close> a hundred ticks later: the gap of ten bytes is delivered as a hole.\<close>

theorem tcp_reass_deliver_holes_spec_witness:
  "\<exists>tp'. tcp_reass_deliver_holes (reass_demo_env\<lparr>re_ticks := 100\<rparr>) reass_demo = Inr tp' \<and> t_segq tp' = [] \<and>
    so_rcv tp' = [Hole 10, Data [26, 27, 28, 29, 30, 31, 32, 33]] \<and> arrived 0xfffffff0 16 tp' = {26 ..< 34}"
proof -
  let ?env = "reass_demo_env\<lparr>re_ticks := 100\<rparr>"
  have r: "\<exists>tp'. tcp_reass_deliver_holes ?env reass_demo = Inr tp' \<and> t_segq tp' = [] \<and>
    so_rcv tp' = [Hole 10, Data [26, 27, 28, 29, 30, 31, 32, 33]]"
    by (simp add: tcp_reass_deliver_holes_def reass_demo_def reass_demo_env_def hole_one_def append_hole_def sbappendstream_def
        age_remove_def tcp_reass_next_hole_deadline_def TH_FIN_def)
  have "data_inv 0xfffffff0 of_nat 16 reass_demo" "age_inv reass_demo" "list_all no_fin (t_segq reass_demo)" "re_gethole ?env"
    "t_segq reass_demo = [] \<or> tqe_seq (hd (t_segq reass_demo)) \<noteq> rcv_nxt reass_demo"
    using reass_demo_facts(1,2) by (simp_all add: queue_inv_def) (simp_all add: reass_demo_def reass_demo_env_def no_fin_def)
  from tcp_reass_deliver_holes_spec [OF this] have "\<exists>tp'. tcp_reass_deliver_holes ?env reass_demo = Inr tp' \<and>
    arrived 0xfffffff0 16 tp' = arrived 0xfffffff0 16 reass_demo" by blast
  moreover have "arrived 0xfffffff0 16 reass_demo = {26 ..< 34}"
    by (simp add: arrived_def reass_demo_def seg_bytes_def seg_end_def reass_demo_facts(6))
  ultimately show ?thesis using r by auto
qed

end
