(* ===== verification/Tcp_Options.thy ===== *)
theory Tcp_Options
  imports Tcp_Sack_Rcv
begin

unbundle bit_operations_syntax

text \<open>
  The options of a TCP header: \<^verbatim>\<open>tcp_addoptions\<close> of \<^verbatim>\<open>src/sys/netinet/tcp_output.c\<close> writes them,
  \<^verbatim>\<open>tcp_dooptions\<close> of \<^verbatim>\<open>src/sys/netinet/tcp_input.c\<close> parses them. The build does not define
  \<^verbatim>\<open>TCP_SIGNATURE\<close>, so the parser skips a signature.
\<close>

section \<open>Options\<close>

definition TCPOPT_EOL :: u8 where "TCPOPT_EOL = 0"
definition TCPOPT_PAD :: u8 where "TCPOPT_PAD = 0"
definition TCPOPT_NOP :: u8 where "TCPOPT_NOP = 1"
definition TCPOPT_MAXSEG :: u8 where "TCPOPT_MAXSEG = 2"
definition TCPOPT_WINDOW :: u8 where "TCPOPT_WINDOW = 3"
definition TCPOPT_SACK_PERMITTED :: u8 where "TCPOPT_SACK_PERMITTED = 4"
definition TCPOPT_SACK :: u8 where "TCPOPT_SACK = 5"
definition TCPOPT_TIMESTAMP :: u8 where "TCPOPT_TIMESTAMP = 8"
definition TCPOPT_SIGNATURE :: u8 where "TCPOPT_SIGNATURE = 19"

definition TCPOLEN_MAXSEG :: nat where "TCPOLEN_MAXSEG = 4"
definition TCPOLEN_WINDOW :: nat where "TCPOLEN_WINDOW = 3"
definition TCPOLEN_SACK_PERMITTED :: nat where "TCPOLEN_SACK_PERMITTED = 2"
definition TCPOLEN_SACKHDR :: nat where "TCPOLEN_SACKHDR = 2"
definition TCPOLEN_SACK :: nat where "TCPOLEN_SACK = 8"
definition TCPOLEN_TIMESTAMP :: nat where "TCPOLEN_TIMESTAMP = 10"
definition TCPOLEN_SIGNATURE :: nat where "TCPOLEN_SIGNATURE = 18"
definition TCP_MAX_WINSHIFT :: u8 where "TCP_MAX_WINSHIFT = 14"
definition TCP_MAXOLEN :: nat where "TCP_MAXOLEN = 40"

definition TOF_MSS :: u64 where "TOF_MSS = 0x01"
definition TOF_SCALE :: u64 where "TOF_SCALE = 0x02"
definition TOF_SACKPERM :: u64 where "TOF_SACKPERM = 0x04"
definition TOF_TS :: u64 where "TOF_TS = 0x10"
definition TOF_SIGNATURE :: u64 where "TOF_SIGNATURE = 0x40"
definition TOF_SACK :: u64 where "TOF_SACK = 0x80"
definition TO_SYN :: int where "TO_SYN = 1"

lemmas opt_consts = TCPOPT_EOL_def TCPOPT_PAD_def TCPOPT_NOP_def TCPOPT_MAXSEG_def TCPOPT_WINDOW_def TCPOPT_SACK_PERMITTED_def
  TCPOPT_SACK_def TCPOPT_TIMESTAMP_def TCPOPT_SIGNATURE_def TCPOLEN_MAXSEG_def TCPOLEN_WINDOW_def TCPOLEN_SACK_PERMITTED_def
  TCPOLEN_SACKHDR_def TCPOLEN_SACK_def TCPOLEN_TIMESTAMP_def TCPOLEN_SIGNATURE_def TCP_MAX_WINSHIFT_def TCP_MAXOLEN_def
  TOF_MSS_def TOF_SCALE_def TOF_SACKPERM_def TOF_TS_def TOF_SIGNATURE_def TOF_SACK_def TO_SYN_def

text \<open>
  \<^verbatim>\<open>to_sacks\<close> points at blocks of the connection when the options are written, and into the received
  header when they have been parsed.
\<close>

datatype sacks_ptr = Blocks "sackblk list" | Wire "u8 list"

record tcpopt =
  to_flags :: u64
  to_tsval :: u32
  to_tsecr :: u32
  to_sacks :: sacks_ptr
  to_mss :: u16
  to_wscale :: u8
  to_nsacks :: u8

section \<open>Network byte order\<close>

definition htons :: "u16 \<Rightarrow> u8 list" where "htons w = [ucast (drop_bit 8 w), ucast w]"
definition htonl :: "u32 \<Rightarrow> u8 list" where
  "htonl w = [ucast (drop_bit 24 w), ucast (drop_bit 16 w), ucast (drop_bit 8 w), ucast w]"

fun ntohs :: "u8 list \<Rightarrow> u16" where
  "ntohs [a, b] = push_bit 8 (ucast a) OR ucast b"
| "ntohs _ = 0"

fun ntohl :: "u8 list \<Rightarrow> u32" where
  "ntohl [a, b, c, d] = push_bit 24 (ucast a) OR push_bit 16 (ucast b) OR push_bit 8 (ucast c) OR ucast d"
| "ntohl _ = 0"

section \<open>Writing\<close>

text \<open>
  \<^verbatim>\<open>optlen\<close> and what has been written. The loops that pad run at most four times; the fuel is
  never exhausted.
\<close>

type_synonym opt_out = "nat \<times> u8 list"

definition put :: "nat \<Rightarrow> u8 list \<Rightarrow> opt_out \<Rightarrow> opt_out" where
  "put n bs st = (case st of (optlen, out) \<Rightarrow> (optlen + n, out @ bs))"

fun pad :: "nat \<Rightarrow> (nat \<Rightarrow> bool) \<Rightarrow> u8 \<Rightarrow> opt_out \<Rightarrow> opt_out" where
  "pad 0 c b st = st"
| "pad (Suc k) c b st = (if c (fst st) then pad k c b (put 1 [b] st) else st)"

text \<open>\<^verbatim>\<open>TCP_MAXOLEN - optlen\<close>, an unsigned difference.\<close>

definition room_for :: "nat \<Rightarrow> nat" where
  "room_for optlen = nat ((int TCP_MAXOLEN - int optlen) mod 2 ^ 64)"

fun put_blocks :: "nat \<Rightarrow> sackblk list \<Rightarrow> opt_out \<Rightarrow> opt_out res" where
  "put_blocks 0 sack st = Inr st"
| "put_blocks (Suc n) [] st = Inl Out_of_bounds"
| "put_blocks (Suc n) (blk # sack) st = put_blocks n sack (put TCPOLEN_SACK (htonl (blk_start blk) @ htonl (blk_end blk)) st)"

definition add_option :: "u64 \<Rightarrow> tcpopt \<Rightarrow> opt_out \<Rightarrow> opt_out res" where
  "add_option msk to st =
     (if msk = TOF_MSS then
        let st = pad 4 (\<lambda>n. n mod 4 \<noteq> 0) TCPOPT_NOP st in
        if room_for (fst st) < TCPOLEN_MAXSEG then Inr st
        else Inr (put TCPOLEN_MAXSEG ([TCPOPT_MAXSEG, of_nat TCPOLEN_MAXSEG] @ htons (to_mss to)) st)
      else if msk = TOF_SCALE then
        let st = pad 4 (\<lambda>n. n = 0 \<or> n mod 2 \<noteq> 1) TCPOPT_NOP st in
        if room_for (fst st) < TCPOLEN_WINDOW then Inr st
        else Inr (put TCPOLEN_WINDOW [TCPOPT_WINDOW, of_nat TCPOLEN_WINDOW, to_wscale to] st)
      else if msk = TOF_SACKPERM then
        let st = pad 4 (\<lambda>n. n mod 2 \<noteq> 0) TCPOPT_NOP st in
        if room_for (fst st) < TCPOLEN_SACK_PERMITTED then Inr st
        else Inr (put TCPOLEN_SACK_PERMITTED [TCPOPT_SACK_PERMITTED, of_nat TCPOLEN_SACK_PERMITTED] st)
      else if msk = TOF_TS then
        let st = pad 4 (\<lambda>n. n = 0 \<or> n mod 4 \<noteq> 2) TCPOPT_NOP st in
        if room_for (fst st) < TCPOLEN_TIMESTAMP then Inr st
        else Inr (put TCPOLEN_TIMESTAMP ([TCPOPT_TIMESTAMP, of_nat TCPOLEN_TIMESTAMP] @ htonl (to_tsval to) @ htonl (to_tsecr to)) st)
      else if msk = TOF_SIGNATURE then
        let st = pad 4 (\<lambda>n. n = 0 \<or> n mod 4 \<noteq> 2) TCPOPT_NOP st in
        if room_for (fst st) < TCPOLEN_SIGNATURE then Inr st
        else Inr (put TCPOLEN_SIGNATURE ([TCPOPT_SIGNATURE, of_nat TCPOLEN_SIGNATURE] @ replicate (TCPOLEN_SIGNATURE - 2) 0) st)
      else if msk = TOF_SACK then
        let st = pad 4 (\<lambda>n. n = 0 \<or> n mod 4 \<noteq> 2) TCPOPT_NOP st in
        if room_for (fst st) < TCPOLEN_SACKHDR + TCPOLEN_SACK then Inr st
        else
          let sackblks = min (unat (to_nsacks to)) (room_for (fst st + TCPOLEN_SACKHDR) div TCPOLEN_SACK);
              st = put TCPOLEN_SACKHDR [TCPOPT_SACK, of_nat (TCPOLEN_SACKHDR + sackblks * TCPOLEN_SACK)] st
          in case to_sacks to of Blocks sack \<Rightarrow> put_blocks sackblks sack st | Wire _ \<Rightarrow> Inl Out_of_bounds
      else Inl Exit_failure)"

fun add_loop :: "u64 list \<Rightarrow> tcpopt \<Rightarrow> opt_out \<Rightarrow> opt_out res" where
  "add_loop [] to st = Inr st"
| "add_loop (msk # msks) to st =
     (if to_flags to AND msk \<noteq> msk then add_loop msks to st
      else if fst st = TCP_MAXOLEN then Inr st
      else res_bind (add_option msk to st) (add_loop msks to))"

definition terminate_opts :: "opt_out \<Rightarrow> opt_out" where
  "terminate_opts st =
     (let st = (if fst st mod 4 \<noteq> 0 then put 1 [TCPOPT_EOL] st else st)
      in pad 4 (\<lambda>n. n mod 4 \<noteq> 0) TCPOPT_PAD st)"

definition tcp_addoptions :: "tcpopt \<Rightarrow> opt_out res" where
  "tcp_addoptions to =
     res_bind (add_loop [0x01, 0x02, 0x04, 0x08, 0x10, 0x20, 0x40, 0x80] to (0, [])) (\<lambda>st. Inr (terminate_opts st))"

section \<open>Parsing\<close>

definition byte_at :: "u8 list \<Rightarrow> nat \<Rightarrow> u8 res" where
  "byte_at cp i = (if i < length cp then Inr (cp ! i) else Inl Out_of_bounds)"

definition bytes_at :: "u8 list \<Rightarrow> nat \<Rightarrow> nat \<Rightarrow> u8 list res" where
  "bytes_at cp i n = (if i + n \<le> length cp then Inr (take n (drop i cp)) else Inl Out_of_bounds)"

definition do_option :: "bool \<Rightarrow> int \<Rightarrow> u8 \<Rightarrow> nat \<Rightarrow> u8 list \<Rightarrow> tcpopt \<Rightarrow> tcpopt res" where
  "do_option tcp_do_sack flags opt optlen cp to =
     (if opt = TCPOPT_MAXSEG then
        if optlen \<noteq> TCPOLEN_MAXSEG \<or> flags AND TO_SYN = 0 then Inr to
        else res_bind (bytes_at cp 2 2) (\<lambda>bs. Inr (to\<lparr>to_flags := to_flags to OR TOF_MSS, to_mss := ntohs bs\<rparr>))
      else if opt = TCPOPT_WINDOW then
        if optlen \<noteq> TCPOLEN_WINDOW \<or> flags AND TO_SYN = 0 then Inr to
        else res_bind (byte_at cp 2) (\<lambda>w. Inr (to\<lparr>to_flags := to_flags to OR TOF_SCALE, to_wscale := min w TCP_MAX_WINSHIFT\<rparr>))
      else if opt = TCPOPT_TIMESTAMP then
        if optlen \<noteq> TCPOLEN_TIMESTAMP then Inr to
        else res_bind (bytes_at cp 2 4) (\<lambda>v. res_bind (bytes_at cp 6 4) (\<lambda>e.
          Inr (to\<lparr>to_flags := to_flags to OR TOF_TS, to_tsval := ntohl v, to_tsecr := ntohl e\<rparr>)))
      else if opt = TCPOPT_SACK_PERMITTED then
        if optlen \<noteq> TCPOLEN_SACK_PERMITTED \<or> flags AND TO_SYN = 0 \<or> \<not> tcp_do_sack then Inr to
        else Inr (to\<lparr>to_flags := to_flags to OR TOF_SACKPERM\<rparr>)
      else if opt = TCPOPT_SACK then
        if optlen \<le> 2 \<or> (optlen - 2) mod TCPOLEN_SACK \<noteq> 0 \<or> flags AND TO_SYN \<noteq> 0 then Inr to
        else Inr (to\<lparr>to_flags := to_flags to OR TOF_SACK, to_nsacks := of_nat ((optlen - 2) div TCPOLEN_SACK), to_sacks := Wire (drop 2 cp)\<rparr>)
      else Inr to)"

function do_loop :: "bool \<Rightarrow> int \<Rightarrow> u8 list \<Rightarrow> int \<Rightarrow> tcpopt \<Rightarrow> tcpopt res" where
  "do_loop tcp_do_sack flags cp cnt to =
     (if cnt \<le> 0 then Inr to
      else res_bind (byte_at cp 0) (\<lambda>opt.
        if opt = TCPOPT_EOL then Inr to
        else if opt = TCPOPT_NOP then do_loop tcp_do_sack flags (drop 1 cp) (cnt - 1) to
        else if cnt < 2 then Inr to
        else res_bind (byte_at cp 1) (\<lambda>optlen.
          if unat optlen < 2 \<or> int (unat optlen) > cnt then Inr to
          else res_bind (do_option tcp_do_sack flags opt (unat optlen) cp to)
            (do_loop tcp_do_sack flags (drop (unat optlen) cp) (cnt - int (unat optlen))))))"
  by pat_completeness auto
termination
  by (relation "measure (\<lambda>(_, _, _, cnt, _). nat cnt)") (auto simp del: int_nat_eq of_nat_unat unat_eq_nat_uint simp: not_less)

definition tcp_dooptions :: "bool \<Rightarrow> tcpopt \<Rightarrow> u8 list \<Rightarrow> int \<Rightarrow> int \<Rightarrow> tcpopt res" where
  "tcp_dooptions tcp_do_sack to cp cnt flags = do_loop tcp_do_sack flags cp cnt (to\<lparr>to_flags := 0\<rparr>)"

text \<open>The flags with which a SYN with an ACK on a passive connection is parsed: \<^verbatim>\<open>TH_SYN\<close>, not \<^verbatim>\<open>TO_SYN\<close>.\<close>

definition passive_synack_flags :: int where "passive_synack_flags = 2"

text \<open>How \<^verbatim>\<open>tcp_sack_doack\<close> reads the blocks that \<^verbatim>\<open>to_sacks\<close> points at.\<close>

fun wire_blks :: "nat \<Rightarrow> u8 list \<Rightarrow> sackblk list" where
  "wire_blks 0 w = []"
| "wire_blks (Suc n) w =
     \<lparr>blk_start = ntohl (take 4 w), blk_end = ntohl (take 4 (drop 4 w))\<rparr> # wire_blks n (drop TCPOLEN_SACK w)"

end
