(* ===== verification/Tcp_Options_Wire.thy ===== *)
theory Tcp_Options_Wire
  imports Tcp_Options
begin

unbundle bit_operations_syntax

declare do_loop.simps [simp del]

text \<open>
  The parser stays inside the header it is given, what it returns is well formed, the writer stays
  inside the option space, and the parser reads back what the writer wrote.
\<close>

section \<open>Parsing any header\<close>

definition opt_set :: "tcpopt \<Rightarrow> u64 \<Rightarrow> bool" where "opt_set to m \<longleftrightarrow> to_flags to AND m = m"

text \<open>What the parser returns.\<close>

definition opts_ok :: "tcpopt \<Rightarrow> bool" where
  "opts_ok to \<longleftrightarrow> (opt_set to TOF_SCALE \<longrightarrow> to_wscale to \<le> TCP_MAX_WINSHIFT) \<and>
     (opt_set to TOF_SACK \<longrightarrow> (\<exists>w. to_sacks to = Wire w \<and> 0 < unat (to_nsacks to) \<and> TCPOLEN_SACK * unat (to_nsacks to) \<le> length w)) \<and>
     \<not> opt_set to TOF_SIGNATURE"

definition syn_opts :: "tcpopt \<Rightarrow> bool" where
  "syn_opts to \<longleftrightarrow> opt_set to TOF_MSS \<or> opt_set to TOF_SCALE \<or> opt_set to TOF_SACKPERM"

text \<open>SYN-only options occur only when the caller asked for them, SACK blocks only when not.\<close>

definition opts_for :: "int \<Rightarrow> tcpopt \<Rightarrow> bool" where
  "opts_for flags to \<longleftrightarrow> opts_ok to \<and> (syn_opts to \<longrightarrow> flags AND TO_SYN \<noteq> 0) \<and> (opt_set to TOF_SACK \<longrightarrow> flags AND TO_SYN = 0)"

lemma opt_set_or [simp]:
  "opt_set (to\<lparr>to_flags := to_flags to OR TOF_MSS\<rparr>) m \<longleftrightarrow> (to_flags to AND m) OR (TOF_MSS AND m) = m"
  "opt_set (to\<lparr>to_flags := to_flags to OR TOF_SCALE\<rparr>) m \<longleftrightarrow> (to_flags to AND m) OR (TOF_SCALE AND m) = m"
  "opt_set (to\<lparr>to_flags := to_flags to OR TOF_SACKPERM\<rparr>) m \<longleftrightarrow> (to_flags to AND m) OR (TOF_SACKPERM AND m) = m"
  "opt_set (to\<lparr>to_flags := to_flags to OR TOF_TS\<rparr>) m \<longleftrightarrow> (to_flags to AND m) OR (TOF_TS AND m) = m"
  "opt_set (to\<lparr>to_flags := to_flags to OR TOF_SACK\<rparr>) m \<longleftrightarrow> (to_flags to AND m) OR (TOF_SACK AND m) = m"
  by (simp_all add: opt_set_def word_ao_dist)

lemma do_option_ok:
  assumes "opts_for flags to" "2 \<le> optlen" "optlen \<le> length cp" "optlen < 256"
  shows "\<exists>to'. do_option sack flags opt optlen cp to = Inr to' \<and> opts_for flags to'"
proof -
  have n: "unat (of_nat ((optlen - 2) div 8) :: u8) = (optlen - 2) div 8"
    using assms(4) by (intro u8_of_nat) auto
  have n0: "0 < (optlen - 2) div 8" if "optlen \<noteq> 2" "8 dvd optlen - 2" using that assms(2) by (auto elim!: dvdE)
  show ?thesis
    using assms n n0
    by (auto simp: do_option_def opts_for_def opts_ok_def syn_opts_def opt_set_def bytes_at_def byte_at_def word_ao_dist opt_consts)
qed


lemma do_loop_ok:
  assumes "opts_for flags to" "cnt \<le> int (length cp)"
  shows "\<exists>to'. do_loop sack flags cp cnt to = Inr to' \<and> opts_for flags to'"
  using assms
proof (induction sack flags cp cnt to rule: do_loop.induct)
  case (1 sack flags cp cnt to)
  note eq = do_loop.simps [of sack flags cp cnt to]
  show ?case
  proof (cases "cnt \<le> 0")
    case True
    then show ?thesis using "1.prems" by (simp add: eq)
  next
    case pos: False
    then have b0: "byte_at cp 0 = Inr (cp ! 0)" using "1.prems"(2) by (auto simp: byte_at_def)
    show ?thesis
    proof (cases "cp ! 0 = TCPOPT_EOL \<or> cp ! 0 \<noteq> TCPOPT_NOP \<and> cnt < 2")
      case True
      then show ?thesis using "1.prems"(1) pos b0 by (auto simp: eq opt_consts)
    next
      case go: False
      show ?thesis
      proof (cases "cp ! 0 = TCPOPT_NOP")
        case True
        have "cnt - 1 \<le> int (length (drop 1 cp))" using "1.prems"(2) pos by simp
        from "1.IH"(1) [OF pos _ True "1.prems"(1) this] go True show ?thesis using pos b0 by (simp add: eq opt_consts)
      next
        case False
        then have b1: "byte_at cp 1 = Inr (cp ! 1)" using "1.prems"(2) go by (simp add: byte_at_def)
        show ?thesis
        proof (cases "unat (cp ! 1) < 2 \<or> int (unat (cp ! 1)) > cnt")
          case True
          then show ?thesis using "1.prems"(1) pos b0 b1 go False by (simp add: eq)
        next
          case len: False
          have "2 \<le> unat (cp ! 1)" "unat (cp ! 1) \<le> length cp" using len "1.prems"(2) by linarith+
          then obtain to1 where o: "do_option sack flags (cp ! 0) (unat (cp ! 1)) cp to = Inr to1" "opts_for flags to1"
            using do_option_ok [OF "1.prems"(1), of "unat (cp ! 1)" cp sack "cp ! 0"] u8_bound [of "cp ! 1"] by blast
          have "cnt - int (unat (cp ! 1)) \<le> int (length (drop (unat (cp ! 1)) cp))"
            using "1.prems"(2) len unfolding length_drop by linarith
          from "1.IH"(2) [OF pos _ False _ len o(2) this] show ?thesis
            using pos b0 b1 go False len o(1) by (simp add: eq)
        qed
      qed
    qed
  qed
qed

section \<open>Byte order\<close>

lemma ntohs_htons [simp]: "ntohs (htons w) = w"
  unfolding htons_def ntohs.simps by (rule bit_word_eqI) (auto simp: bit_simps)

lemma ntohl_htonl [simp]: "ntohl (htonl w) = w"
  unfolding htonl_def ntohl.simps
proof (rule bit_word_eqI)
  fix n assume "n < LENGTH(32)"
  then have "n < 32" by simp
  then consider "n < 8" | "8 \<le> n" "n < 16" | "16 \<le> n" "n < 24" | "24 \<le> n" "n < 32" by linarith
  then show "bit (push_bit 24 (ucast (ucast (drop_bit 24 w) :: u8)) OR push_bit 16 (ucast (ucast (drop_bit 16 w) :: u8)) OR
      push_bit 8 (ucast (ucast (drop_bit 8 w) :: u8)) OR ucast (ucast w :: u8) :: u32) n = bit w n"
    by cases (auto simp: bit_simps)
qed

lemma length_hton [simp]: "length (htons v) = 2" "length (htonl w) = 4"
  by (simp_all add: htons_def htonl_def)

definition blk_wire :: "sackblk \<Rightarrow> u8 list" where "blk_wire blk = htonl (blk_start blk) @ htonl (blk_end blk)"

lemma length_blk_wire [simp]: "length (blk_wire blk) = 8"
  by (simp add: blk_wire_def)

lemma length_blks_wire [simp]: "length (concat (map blk_wire blks)) = 8 * length blks"
  by (induction blks) simp_all

lemma wire_blks_wire: "n \<le> length blks \<Longrightarrow> wire_blks n (concat (map blk_wire (take n blks)) @ rest) = take n blks"
proof (induction n arbitrary: blks)
  case (Suc n)
  then obtain blk bs where "blks = blk # bs" "n \<le> length bs" by (cases blks) auto
  then show ?case using Suc.IH [of bs] by (simp add: blk_wire_def TCPOLEN_SACK_def)
qed simp

lemma put_blocks_ok:
  "n \<le> length sack \<Longrightarrow> put_blocks n sack (l, out) = Inr (l + 8 * n, out @ concat (map blk_wire (take n sack)))"
proof (induction n arbitrary: sack l out)
  case (Suc n)
  then obtain blk bs where "sack = blk # bs" "n \<le> length bs" by (cases sack) auto
  then show ?case using Suc.IH by (simp add: put_def blk_wire_def TCPOLEN_SACK_def)
qed simp

section \<open>Writing\<close>

text \<open>What is written before the SACK blocks: an even number of bytes, which leaves room for two.\<close>

definition before_sack :: "opt_out \<Rightarrow> bool" where
  "before_sack st \<longleftrightarrow> length (snd st) = fst st \<and> fst st mod 2 = 0 \<and> (fst st \<le> 36 \<or> fst st = 40)"

lemma pad_4:
  "pad 4 c b (l, out) =
    (if \<not> c l then (l, out) else if \<not> c (l + 1) then (l + 1, out @ [b]) else if \<not> c (l + 2) then (l + 2, out @ [b, b])
     else if \<not> c (l + 3) then (l + 3, out @ [b, b, b]) else (l + 4, out @ [b, b, b, b]))"
  by (simp add: eval_nat_numeral put_def)

lemma add_loop_Nil [simp]: "add_loop [] to = Inr"
  by (rule ext) simp

lemma add_loop_full: "fst st = TCP_MAXOLEN \<Longrightarrow> add_loop msks to st = Inr st"
  by (induction msks) simp_all

lemma add_loop_append: "add_loop (xs @ ys) to st = res_bind (add_loop xs to st) (add_loop ys to)"
proof (induction xs arbitrary: st)
  case (Cons x xs)
  have ih: "add_loop (xs @ ys) to = (\<lambda>st. res_bind (add_loop xs to st) (add_loop ys to))" by (rule ext) (rule Cons.IH)
  have "res_bind (res_bind r (add_loop xs to)) (add_loop ys to) = res_bind r (add_loop (xs @ ys) to)" for r
    by (cases r) (simp_all add: ih)
  then show ?case using add_loop_full by (simp add: Cons.IH)
qed simp

lemmas add_eval = opt_set_def add_option_def pad_4 put_def room_for_def opt_consts

lemma add_loop_small:
  assumes "\<not> opt_set to 0x08"
  shows "\<exists>l out. add_loop [0x01, 0x02, 0x04, 0x08] to (0, []) = Inr (l, out) \<and> length out = l \<and> l \<in> {0, 2, 4, 6, 8, 10}"
  using assms by (cases "opt_set to 0x01"; cases "opt_set to 0x02"; cases "opt_set to 0x04") (simp_all add: add_eval)

lemma add_loop_ts:
  assumes "\<not> opt_set to 0x20" "length out = l" "l \<in> {0, 2, 4, 6, 8, 10}"
  shows "\<exists>l' out'. add_loop [0x10, 0x20] to (l, out) = Inr (l', out') \<and> length out' = l' \<and> l' \<in> {0, 2, 4, 6, 8, 10, 12, 16, 20}"
proof -
  from assms(3) consider "l = 0" | "l = 2" | "l = 4" | "l = 6" | "l = 8" | "l = 10" by blast
  then show ?thesis using assms(1,2) by cases (cases "opt_set to 0x10"; simp add: add_eval)+
qed

lemma add_loop_signature:
  assumes "length out = l" "l \<in> {0, 2, 4, 6, 8, 10, 12, 16, 20}"
  shows "\<exists>st. add_loop [0x40] to (l, out) = Inr st \<and> before_sack st"
proof -
  from assms(2) consider "l = 0" | "l = 2" | "l = 4" | "l = 6" | "l = 8" | "l = 10" | "l = 12" | "l = 16" | "l = 20" by blast
  then show ?thesis using assms(1) by cases (cases "opt_set to 0x40"; simp add: add_eval before_sack_def)+
qed

lemma add_loop_before_sack:
  assumes "\<not> opt_set to 0x08" "\<not> opt_set to 0x20"
  shows "\<exists>st. add_loop [0x01, 0x02, 0x04, 0x08, 0x10, 0x20, 0x40] to (0, []) = Inr st \<and> before_sack st"
proof -
  obtain l out where a: "add_loop [0x01, 0x02, 0x04, 0x08] to (0, []) = Inr (l, out)" "length out = l" "l \<in> {0, 2, 4, 6, 8, 10}"
    using add_loop_small [OF assms(1)] by blast
  obtain l' out' where b: "add_loop [0x10, 0x20] to (l, out) = Inr (l', out')" "length out' = l'" "l' \<in> {0, 2, 4, 6, 8, 10, 12, 16, 20}"
    using add_loop_ts [OF assms(2) a(2,3)] by blast
  have "[0x01, 0x02, 0x04, 0x08, 0x10, 0x20, 0x40] = ([0x01, 0x02, 0x04, 0x08] @ [0x10, 0x20]) @ [0x40 :: u64]" by simp
  then show ?thesis using add_loop_signature [OF b(2,3)] unfolding add_loop_append a(1) by (simp only: add_loop_append a(1) b(1) res_bind_simps)
qed

lemma pad_to_2:
  assumes "l mod 2 = 0"
  shows "pad 4 (\<lambda>n. n = 0 \<or> n mod 4 \<noteq> 2) b (l, out) = (if l mod 4 = 2 then (l, out) else (l + 2, out @ [b, b]))"
proof -
  have "l mod 4 = 2 \<or> l mod 4 = 0" using assms by presburger
  then show ?thesis unfolding pad_4 by (auto simp: mod_Suc)
qed

lemma room_for_le: "l \<le> 40 \<Longrightarrow> room_for l = 40 - l"
  by (simp add: room_for_def TCP_MAXOLEN_def)

lemma add_loop_sack:
  assumes "before_sack (l, out)" "opt_set to 0x80 \<longrightarrow> (\<exists>sack. to_sacks to = Blocks sack \<and> unat (to_nsacks to) \<le> length sack)"
  shows "\<exists>l' out'. add_loop [0x80] to (l, out) = Inr (l', out') \<and> length out' = l' \<and> l' \<le> 40 \<and> l' mod 2 = 0"
proof (cases "opt_set to 0x80 \<and> l \<noteq> 40")
  case False
  then show ?thesis using assms(1) by (auto simp: opt_set_def before_sack_def opt_consts)
next
  case True
  then obtain sack where sack: "to_sacks to = Blocks sack" "unat (to_nsacks to) \<le> length sack" using assms(2) by blast
  have l: "length out = l" "l mod 2 = 0" "l \<le> 36" using assms(1) True by (auto simp: before_sack_def)
  define p where "p = (if l mod 4 = 2 then l else l + 2)"
  define o1 where "o1 = (if l mod 4 = 2 then out else out @ [TCPOPT_NOP, TCPOPT_NOP])"
  have p: "pad 4 (\<lambda>n. n = 0 \<or> n mod 4 \<noteq> 2) TCPOPT_NOP (l, out) = (p, o1)" "length o1 = p" "p \<le> 38" "p mod 2 = 0"
    using l pad_to_2 [OF l(2)] by (auto simp: p_def o1_def)
  define n where "n = min (unat (to_nsacks to)) (room_for (p + 2) div 8)"
  have n: "n \<le> length sack" "p + 2 + 8 * n \<le> 40" using sack(2) p(3) by (auto simp: n_def room_for_le)
  have "add_loop [0x80] to (l, out) = add_option TOF_SACK to (l, out)" using True by (simp add: opt_set_def opt_consts)
  also have "\<dots> = (if room_for p < 10 then Inr (p, o1)
      else put_blocks n sack (p + 2, o1 @ [TCPOPT_SACK, of_nat (2 + n * 8)]))"
    using p(1) sack(1) by (simp add: add_option_def opt_consts put_def n_def Let_def)
  also have "\<dots> = (if room_for p < 10 then Inr (p, o1)
      else Inr (p + 2 + 8 * n, o1 @ [TCPOPT_SACK, of_nat (2 + n * 8)] @ concat (map blk_wire (take n sack))))"
    using put_blocks_ok [OF n(1)] by simp
  finally show ?thesis using p(2-4) n by (auto simp: mod_add_left_eq min_absorb1)
qed

lemma terminate_opts_ok:
  assumes "length out = l" "l \<le> 40" "l mod 2 = 0"
  shows "\<exists>n bs. terminate_opts (l, out) = (n, out @ bs) \<and> length (out @ bs) = n \<and> n \<le> 40 \<and> n mod 4 = 0 \<and> (bs = [] \<or> bs = [TCPOPT_EOL, TCPOPT_PAD])"
proof (cases "l mod 4 = 0")
  case True
  then show ?thesis using assms by (simp add: terminate_opts_def pad_4)
next
  case False
  then have "l mod 4 = 2" "l + 2 \<le> 40" using assms(2,3) by presburger+
  moreover have "(l + 1) mod 4 \<noteq> 0" "(l + 2) mod 4 = 0" using calculation(1) by presburger+
  ultimately show ?thesis using assms(1) by (simp add: terminate_opts_def pad_4 put_def)
qed

section \<open>Reading back\<close>

text \<open>The parser on one option that is there in full.\<close>

lemma do_loop_done [simp]: "do_loop sack flags cp 0 to = Inr to"
  by (subst do_loop.simps) simp

lemma do_loop_nop: "0 < cnt \<Longrightarrow> do_loop sack flags (TCPOPT_NOP # cp) cnt to = do_loop sack flags cp (cnt - 1) to"
  by (subst do_loop.simps) (simp add: byte_at_def opt_consts)

lemma do_loop_eol: "0 < cnt \<Longrightarrow> do_loop sack flags (TCPOPT_EOL # cp) cnt to = Inr to"
  by (subst do_loop.simps) (simp add: byte_at_def opt_consts)

lemma do_loop_opt:
  assumes "opt \<noteq> TCPOPT_EOL" "opt \<noteq> TCPOPT_NOP" "2 \<le> n" "int n \<le> cnt" "n < 256"
  shows "do_loop sack flags (opt # of_nat n # rest) cnt to =
    res_bind (do_option sack flags opt n (opt # of_nat n # rest) to) (do_loop sack flags (drop (n - 2) rest) (cnt - int n))"
proof -
  have u: "unat (of_nat n :: u8) = n" using assms(5) by (rule u8_of_nat)
  moreover have "uint (of_nat n :: u8) = int n" using arg_cong [OF u, of int] by simp
  ultimately show ?thesis using assms by (subst do_loop.simps) (simp add: byte_at_def numeral_2_eq_2 drop_Cons')
qed

lemma do_loop_mss:
  assumes "4 \<le> cnt" "flags AND TO_SYN \<noteq> 0"
  shows "do_loop sack flags (TCPOPT_MAXSEG # of_nat TCPOLEN_MAXSEG # htons v @ rest) cnt to =
    do_loop sack flags rest (cnt - 4) (to\<lparr>to_flags := to_flags to OR TOF_MSS, to_mss := v\<rparr>)"
  using assms do_loop_opt [of TCPOPT_MAXSEG 4 cnt sack flags "htons v @ rest" to]
  by (simp add: opt_consts do_option_def bytes_at_def)

lemma do_loop_window:
  assumes "3 \<le> cnt" "flags AND TO_SYN \<noteq> 0"
  shows "do_loop sack flags (TCPOPT_WINDOW # of_nat TCPOLEN_WINDOW # v # rest) cnt to =
    do_loop sack flags rest (cnt - 3) (to\<lparr>to_flags := to_flags to OR TOF_SCALE, to_wscale := min v TCP_MAX_WINSHIFT\<rparr>)"
  using assms do_loop_opt [of TCPOPT_WINDOW 3 cnt sack flags "v # rest" to]
  by (simp add: opt_consts do_option_def byte_at_def)

lemma do_loop_sack_permitted:
  assumes "2 \<le> cnt" "flags AND TO_SYN \<noteq> 0"
  shows "do_loop True flags (TCPOPT_SACK_PERMITTED # of_nat TCPOLEN_SACK_PERMITTED # rest) cnt to =
    do_loop True flags rest (cnt - 2) (to\<lparr>to_flags := to_flags to OR TOF_SACKPERM\<rparr>)"
  using assms do_loop_opt [of TCPOPT_SACK_PERMITTED 2 cnt True flags rest to]
  by (simp add: opt_consts do_option_def)

lemma do_loop_timestamp:
  assumes "10 \<le> cnt"
  shows "do_loop sack flags (TCPOPT_TIMESTAMP # of_nat TCPOLEN_TIMESTAMP # htonl v @ htonl e @ rest) cnt to =
    do_loop sack flags rest (cnt - 10) (to\<lparr>to_flags := to_flags to OR TOF_TS, to_tsval := v, to_tsecr := e\<rparr>)"
  using assms do_loop_opt [of TCPOPT_TIMESTAMP 10 cnt sack flags "htonl v @ htonl e @ rest" to]
  by (simp add: opt_consts do_option_def bytes_at_def)

lemma do_loop_sack:
  assumes "0 < n" "n \<le> 4" "int (2 + n * 8) \<le> cnt" "flags AND TO_SYN = 0"
  shows "do_loop sack flags (TCPOPT_SACK # of_nat (2 + n * 8) # w) cnt to =
    do_loop sack flags (drop (8 * n) w) (cnt - int (2 + n * 8))
      (to\<lparr>to_flags := to_flags to OR TOF_SACK, to_nsacks := of_nat n, to_sacks := Wire w\<rparr>)"
  using assms do_loop_opt [of TCPOPT_SACK "2 + n * 8" cnt sack flags w to]
  by (simp add: opt_consts do_option_def mult.commute)

lemmas do_loop_eval = do_loop_nop do_loop_eol do_loop_mss do_loop_window do_loop_sack_permitted do_loop_timestamp
  do_loop_mss [where rest = "[]", unfolded append_Nil2] do_loop_timestamp [where rest = "[]", unfolded append_Nil2]

lemmas do_loop_lits = do_loop_eval [unfolded opt_consts of_nat_numeral]

lemma addoptions_fits:
  assumes "\<not> opt_set to 0x08" "\<not> opt_set to 0x20"
    "opt_set to TOF_SACK \<longrightarrow> (\<exists>sack. to_sacks to = Blocks sack \<and> unat (to_nsacks to) \<le> length sack)"
  shows "\<exists>n out. tcp_addoptions to = Inr (n, out) \<and> length out = n \<and> n \<le> TCP_MAXOLEN \<and> n mod 4 = 0"
proof -
  obtain l out where a: "add_loop [0x01, 0x02, 0x04, 0x08, 0x10, 0x20, 0x40] to (0, []) = Inr (l, out)" "before_sack (l, out)"
    using add_loop_before_sack [OF assms(1,2)] by (metis prod.exhaust)
  obtain l' out' where b: "add_loop [0x80] to (l, out) = Inr (l', out')" "length out' = l'" "l' \<le> 40" "l' mod 2 = 0"
    using add_loop_sack [OF a(2) assms(3) [unfolded TOF_SACK_def]] by metis
  have "[0x01, 0x02, 0x04, 0x08, 0x10, 0x20, 0x40, 0x80] = [0x01, 0x02, 0x04, 0x08, 0x10, 0x20, 0x40] @ [0x80 :: u64]" by simp
  then have "tcp_addoptions to = Inr (terminate_opts (l', out'))"
    unfolding tcp_addoptions_def by (simp only: add_loop_append a(1) b(1) res_bind_simps)
  then show ?thesis using terminate_opts_ok [OF b(2-4)] by (auto simp: TCP_MAXOLEN_def)
qed

lemma sack_reads_back:
  fixes ts :: bool
  assumes "to_flags to = (if ts then TOF_SACK OR TOF_TS else TOF_SACK)" "to_sacks to = Blocks blks" "unat (to_nsacks to) = length blks" "blks \<noteq> []"
  shows "\<exists>n out to' w. tcp_addoptions to = Inr (n, out) \<and> tcp_dooptions sack to0 out (int n) 0 = Inr to' \<and> to_flags to' = to_flags to \<and>
    to_sacks to' = Wire w \<and> wire_blks (unat (to_nsacks to')) w = take (if ts then 3 else 4) blks \<and>
    (ts \<longrightarrow> to_tsval to' = to_tsval to \<and> to_tsecr to' = to_tsecr to)"
proof -
  define k where "k = min (length blks) (if ts then 3 else 4)"
  have k: "0 < k" "k \<le> 4" "k \<le> length blks" using assms(4) by (auto simp: k_def)
  define body where "body = concat (map blk_wire (take k blks))"
  define front where "front = (if ts then TCPOPT_NOP # TCPOPT_NOP # TCPOPT_TIMESTAMP # 10 # htonl (to_tsval to) @ htonl (to_tsecr to) else [])"
  define out where "out = front @ TCPOPT_NOP # TCPOPT_NOP # TCPOPT_SACK # of_nat (2 + k * 8) # body"
  define n where "n = (if ts then 12 else 0) + 4 + 8 * k"
  have body: "length body = 8 * k" using k(3) by (simp add: body_def)
  have pad_full: "(4 + 8 * min (length blks) 4) mod 4 = 0" "(16 + 8 * min (length blks) 3) mod 4 = 0" by presburger+
  have add: "tcp_addoptions to = Inr (n, out)"
  proof (cases ts)
    case True
    then show ?thesis using assms(1-3) put_blocks_ok [of "min (length blks) 3" blks] pad_full
      by (simp add: tcp_addoptions_def terminate_opts_def add_eval Let_def out_def front_def n_def k_def body_def)
  next
    case False
    then show ?thesis using assms(1-3) put_blocks_ok [of "min (length blks) 4" blks] pad_full
      by (simp add: tcp_addoptions_def terminate_opts_def add_eval Let_def out_def front_def n_def k_def body_def)
  qed
  define to1 where "to1 = (if ts then to0\<lparr>to_flags := TOF_TS, to_tsval := to_tsval to, to_tsecr := to_tsecr to\<rparr> else to0\<lparr>to_flags := 0\<rparr>)"
  have "tcp_dooptions sack to0 out (int n) 0 = do_loop sack 0 (TCPOPT_SACK # of_nat (2 + k * 8) # body) (int (2 + k * 8)) to1"
    by (cases ts) (simp_all add: tcp_dooptions_def out_def front_def n_def to1_def opt_consts do_loop_lits add.commute mult.commute)
  also have "\<dots> = Inr (to1\<lparr>to_flags := to_flags to1 OR TOF_SACK, to_nsacks := of_nat k, to_sacks := Wire body\<rparr>)"
    using do_loop_sack [OF k(1,2), of "int (2 + k * 8)" 0 sack body to1] by simp
  finally have parse: "tcp_dooptions sack to0 out (int n) 0 = Inr (to1\<lparr>to_flags := to_flags to1 OR TOF_SACK, to_nsacks := of_nat k, to_sacks := Wire body\<rparr>)" .
  have "wire_blks k body = take k blks" using wire_blks_wire [OF k(3), of "[]"] by (simp add: body_def)
  moreover have "take k blks = take (if ts then 3 else 4) blks" by (auto simp: k_def min_def)
  moreover have "unat (of_nat k :: u8) = k" using k(2) by (intro u8_of_nat) simp
  ultimately show ?thesis using add parse assms(1) by (auto simp: to1_def opt_consts)
qed

lemma plain_reads_back:
  assumes "to_flags to \<in> {0, TOF_TS}"
  shows "\<exists>n out to'. tcp_addoptions to = Inr (n, out) \<and> tcp_dooptions sack to0 out (int n) 0 = Inr to' \<and> to_flags to' = to_flags to"
  using assms by (elim insertE emptyE)
    (simp_all add: tcp_addoptions_def tcp_dooptions_def terminate_opts_def add_eval do_loop_lits)

section \<open>Properties\<close>

text \<open>
  C20. \<^verbatim>\<open>tcp_dooptions\<close> on any bytes: as long as \<^verbatim>\<open>cnt\<close> is not more than the header holds, it reads only inside
  it and returns; the window scale is at most 14, the SACK blocks it points at lie inside the header, and
  options that only a SYN may carry are taken only when the caller asks for them.
\<close>

theorem tcp_dooptions_safe:
  assumes "cnt \<le> int (length cp)"
  shows "\<exists>to'. tcp_dooptions sack to cp cnt flags = Inr to' \<and> opts_for flags to'"
proof -
  have "opts_for flags (to\<lparr>to_flags := 0\<rparr>)" by (simp add: opts_for_def opts_ok_def syn_opts_def opt_set_def opt_consts)
  then show ?thesis using do_loop_ok assms by (simp add: tcp_dooptions_def)
qed

lemma syn_flags_cases:
  assumes "(w :: u64) AND NOT 0x17 = 0"
  shows "w \<in> {0, 1, 2, 3, 4, 5, 6, 7, 16, 17, 18, 19, 20, 21, 22, 23}"
proof -
  have "w = w AND 0x17" using assms by (metis and.right_neutral bit.compl_zero bit.conj_disj_distrib bit.disj_cancel_right or.right_neutral)
  then have "w \<le> 23" by (metis word_and_le1)
  then have "unat w \<le> 23" by (simp add: word_le_nat_alt)
  then have "unat w \<in> set [0 ..< 24]" by simp
  moreover have "w = of_nat (unat w)" by simp
  ultimately have "w \<in> of_nat ` set [0 ..< 24]" by (metis imageI)
  then show ?thesis using assms by (auto simp: upt_rec)
qed

text \<open>
  C17. What one end writes into a SYN the other end reads: for every combination of maximum segment size, window scale,
  SACK permitted and timestamps, parsing the bytes written gives the same options with the same values.
\<close>

theorem options_roundtrip_syn:
  assumes "to_flags to AND NOT (TOF_MSS OR TOF_SCALE OR TOF_SACKPERM OR TOF_TS) = 0" "to_wscale to \<le> TCP_MAX_WINSHIFT"
  shows "\<exists>n out to'. tcp_addoptions to = Inr (n, out) \<and> tcp_dooptions True to0 out (int n) TO_SYN = Inr to' \<and> to_flags to' = to_flags to \<and>
    (opt_set to TOF_MSS \<longrightarrow> to_mss to' = to_mss to) \<and> (opt_set to TOF_SCALE \<longrightarrow> to_wscale to' = to_wscale to) \<and>
    (opt_set to TOF_TS \<longrightarrow> to_tsval to' = to_tsval to \<and> to_tsecr to' = to_tsecr to)"
proof -
  have "to_flags to AND NOT 0x17 = 0" using assms(1) by (simp add: opt_consts)
  then have "to_flags to \<in> {0, 1, 2, 3, 4, 5, 6, 7, 16, 17, 18, 19, 20, 21, 22, 23}" by (rule syn_flags_cases)
  then show ?thesis using assms(2)
    by (elim insertE emptyE) (simp_all add: tcp_addoptions_def tcp_dooptions_def terminate_opts_def add_eval do_loop_lits min_absorb1)
qed

text \<open>
  C18. What the receiver reports the sender reads: the SACK blocks that fit, four of them or three next to a timestamp, are
  read back by the loop of \<^verbatim>\<open>tcp_sack_doack\<close> as the first blocks of the report, in order.
\<close>

theorem options_roundtrip_sack:
  fixes ts :: bool
  assumes "to_flags to = (if ts then TOF_SACK OR TOF_TS else TOF_SACK)" "to_sacks to = Blocks blks" "unat (to_nsacks to) = length blks" "blks \<noteq> []"
  shows "\<exists>n out to' w. tcp_addoptions to = Inr (n, out) \<and> tcp_dooptions sack to0 out (int n) 0 = Inr to' \<and> to_flags to' = to_flags to \<and>
    to_sacks to' = Wire w \<and> wire_blks (unat (to_nsacks to')) w = take (if ts then 3 else 4) blks \<and>
    (ts \<longrightarrow> to_tsval to' = to_tsval to \<and> to_tsecr to' = to_tsecr to)"
  using assms by (rule sack_reads_back)


text \<open>
  C19. The options of a segment fit: for every combination of known options \<^verbatim>\<open>tcp_addoptions\<close> writes at most the forty bytes
  the buffer of its caller holds, a multiple of four, and returns their number; the unsigned difference
  that guards each option never wraps.
\<close>

theorem tcp_addoptions_bounds:
  assumes "\<not> opt_set to 0x08" "\<not> opt_set to 0x20"
    "opt_set to TOF_SACK \<longrightarrow> (\<exists>sack. to_sacks to = Blocks sack \<and> unat (to_nsacks to) \<le> length sack)"
  shows "\<exists>n out. tcp_addoptions to = Inr (n, out) \<and> length out = n \<and> n \<le> TCP_MAXOLEN \<and> n mod 4 = 0"
  using assms by (rule addoptions_fits)

section \<open>Instances\<close>

text \<open>The options of a SYN, and those of an acknowledgement that reports two blocks.\<close>

definition syn_demo :: tcpopt where
  "syn_demo = \<lparr>to_flags = 0x17, to_tsval = 0x01020304, to_tsecr = 0, to_sacks = Blocks [], to_mss = 1460, to_wscale = 7, to_nsacks = 0\<rparr>"

definition sack_opt_demo :: tcpopt where
  "sack_opt_demo = syn_demo\<lparr>to_flags := 0x90, to_nsacks := 2,
     to_sacks := Blocks [\<lparr>blk_start = 0x20, blk_end = 0x30\<rparr>, \<lparr>blk_start = 0xfffffff8, blk_end = 0x8\<rparr>]\<rparr>"

theorem tcp_dooptions_safe_witness:
  "\<exists>to'. tcp_dooptions True syn_demo [1, 3, 3, 20, 5, 200, 0] 7 TO_SYN = Inr to' \<and> opts_for TO_SYN to'"
  using tcp_dooptions_safe [of 7 "[1, 3, 3, 20, 5, 200, 0]" True syn_demo TO_SYN] by simp

theorem tcp_addoptions_bounds_witness:
  "\<exists>n out. tcp_addoptions sack_opt_demo = Inr (n, out) \<and> length out = n \<and> n \<le> TCP_MAXOLEN \<and> n mod 4 = 0"
  by (rule tcp_addoptions_bounds) (simp_all add: sack_opt_demo_def opt_set_def)

theorem options_roundtrip_syn_witness:
  "\<exists>n out to'. tcp_addoptions syn_demo = Inr (n, out) \<and> tcp_dooptions True syn_demo out (int n) TO_SYN = Inr to' \<and>
    to_mss to' = 1460 \<and> to_wscale to' = 7 \<and> to_tsval to' = 0x01020304"
  using options_roundtrip_syn [of syn_demo syn_demo] by (auto simp: syn_demo_def opt_consts opt_set_def)

theorem options_roundtrip_sack_witness:
  "\<exists>n out to' w. tcp_addoptions sack_opt_demo = Inr (n, out) \<and> tcp_dooptions True syn_demo out (int n) 0 = Inr to' \<and> to_sacks to' = Wire w \<and>
    wire_blks (unat (to_nsacks to')) w = [\<lparr>blk_start = 0x20, blk_end = 0x30\<rparr>, \<lparr>blk_start = 0xfffffff8, blk_end = 0x8\<rparr>]"
  using options_roundtrip_sack [of sack_opt_demo True "[\<lparr>blk_start = 0x20, blk_end = 0x30\<rparr>, \<lparr>blk_start = 0xfffffff8, blk_end = 0x8\<rparr>]" True syn_demo]
  by (auto simp: sack_opt_demo_def opt_consts)


end
