(* ===== verification/Spec2Isabelle.thy ===== *)
theory Spec2Isabelle
  imports Ud_Select Tx_Thread Rx_Thread Ud_Ifconfig Tcp_Sack_Doack Tcp_Data_Stream Tcp_Reass_Holes Tcp_Options_Wire
begin

text \<open>
  A verification of libunsod: a network stack in user space, the FreeBSD stack as a library (\<^verbatim>\<open>libuinet\<close>)
  on top of DPDK, with a socket interface for applications (\<^verbatim>\<open>libudsock\<close>, \<^verbatim>\<open>libudif\<close>). File names below are
  relative to \<^verbatim>\<open>src/src\<close>.

  \<^bold>\<open>The program and its parts.\<close> An application calls the \<^verbatim>\<open>ud_*\<close> functions. They look a descriptor up in a table
  in shared memory, translate arguments and error numbers, and call the stack through \<^verbatim>\<open>uinet_api.h\<close>. An
  interface is set up from a configuration string; it attaches the DPDK driver, which starts a send and a receive
  thread. Packets travel between the threads, the stack and the application as packet descriptors: small values
  that point to a context with a reference count and an mbuf. The application injects descriptors into a ring under
  a lock, the send thread drains the ring in bursts; the receive thread attaches the buffers of DPDK to idle
  descriptors and delivers them. Inside the stack, TCP cuts the text of a segment to its window, puts it in order
  in a queue, reports what arrived out of order to the peer in options of its header, and keeps a scoreboard of
  what the peer has reported.

  \<^bold>\<open>The theories.\<close> In the order of their imports:

  \<^item> \<open>Prelude\<close>: results of a C execution. \<open>'a res\<close> is \<open>stop + 'a\<close>, and \<open>stop\<close> names the ways to leave the defined
    path: an exit or a panic, a null pointer, an access out of bounds or to freed memory, an uninitialised read. Shared lemmas on results,
    lists and words.

  \<^item> \<open>Ud_File\<close>, \<open>Errno\<close>, \<open>Ud_Socket\<close>, \<open>Ud_Select\<close>: \<^verbatim>\<open>lib/libudsock/ud_file.c\<close>, \<^verbatim>\<open>ud_socket.c\<close>, \<^verbatim>\<open>ud_unistd.c\<close> and
    \<^verbatim>\<open>ud_select.c\<close>, and the error tables of \<^verbatim>\<open>lib/libuinet/uinet_api_errno.c\<close>. The stack is a record of operations
    on a state of any type. Shown: a new socket gets the least free descriptor and keeps it until it is freed, what
    a failing call stores as its error number, and what \<^verbatim>\<open>ud_select\<close> reports and when it returns.

  \<^item> \<open>Pkt_Desc\<close>, \<open>Pd_Ring\<close>, \<open>Pd_Mbuf\<close>: \<^verbatim>\<open>lib/libuinet/uinet_pkt_desc.c\<close> and \<^verbatim>\<open>.h\<close>, the descriptor functions of
    \<^verbatim>\<open>uinet_api.c\<close>, and of \<^verbatim>\<open>sys/kern\<close> the mbuf constructors and the release of external storage. Contexts live in
    an explicit store, since descriptors share them. Shown: references taken and released match, under every
    interleaving of concurrent releases; the three routines that free in batches free exactly the contexts that
    lose their last reference, each batch from one pool and of at most 32; the ring implements a bounded queue; the
    buffer of a received packet goes back once.

  \<^item> \<open>Dpdk_Helper\<close>, \<open>If_Dpdk\<close>, \<open>If_Dpdk_Tx\<close>, \<open>If_Dpdk_Rx\<close>, \<open>Tx_Thread\<close>, \<open>Rx_Thread\<close>: \<^verbatim>\<open>lib/libdpdk_helper\<close> and
    \<^verbatim>\<open>lib/libuinet/uinet_if_dpdk.c\<close>. DPDK is a record of operations. The paths of the packets are functions on the state of the
    interface; the two threads are step relations whose steps are the sections between lock operations. Shown: the
    configuration string round trip, what attaching and detaching leave, that packets leave in the order of injection under every
    interleaving, what a receive pass delivers, and the run states of the receive thread, with a
    state from which taking an interface down never ends.

  \<^item> \<open>Inet_Addr\<close>, \<open>Uinet_Config\<close>, \<open>Ud_Ifconfig\<close>: \<^verbatim>\<open>sys/libkern/inet_*.c\<close>, \<^verbatim>\<open>lib/libuinet/uinet_config.c\<close>, \<^verbatim>\<open>uinet_if.c\<close>
    and \<^verbatim>\<open>lib/libudif/ud_ifconfig.c\<close>. Shown: addresses are parsed as they are printed, names of interfaces are distinct in every
    reachable list, and what setting up an interface does.

  \<^item> \<open>Tcp_Seq\<close>: \<^verbatim>\<open>sys/netinet/tcp_seq.h\<close>. Sequence numbers are 32-bit words; \<open>off b x\<close> is the distance of \<open>x\<close> from a base
    \<open>b\<close>, and the comparisons of the code agree with the distances in every window of half the number space.

  \<^item> \<open>Tcp_Reass\<close>, \<open>Tcp_Reass_Data\<close>, \<open>Tcp_Reass_Live\<close>, \<open>Tcp_Reass_Holes\<close>: \<^verbatim>\<open>sys/netinet/tcp_reass.c\<close> with its two queues. Entries
    carry a reference, so that the use of a freed entry is a value of the model. Shown: the receive buffer is a piece
    of the stream, nothing is lost but what is dropped as a whole, the function returns as long as no queued
    segment is covered (and what happens when one is), and what passive delivery with holes does.

  \<^item> \<open>Tcp_Sack_Rcv\<close>, \<open>Tcp_Sack_Snd\<close>, \<open>Tcp_Sack_Board\<close>, \<open>Tcp_Sack_Doack\<close>: \<^verbatim>\<open>sys/netinet/tcp_sack.c\<close>. Shown: the report of the
    receiver and the scoreboard of the sender, each as a set of bytes, in every window of the number space.

  \<^item> \<open>Tcp_Options\<close>, \<open>Tcp_Options_Wire\<close>: \<^verbatim>\<open>tcp_addoptions\<close> of \<^verbatim>\<open>sys/netinet/tcp_output.c\<close> and \<^verbatim>\<open>tcp_dooptions\<close> of \<^verbatim>\<open>tcp_input.c\<close>. Shown: bounds of both, and
    that the parser reads back what was written.

  \<^item> \<open>Tcp_Data\<close>, \<open>Tcp_Data_Stream\<close>: the text of a segment in \<^verbatim>\<open>tcp_do_segment\<close> of \<^verbatim>\<open>sys/netinet/tcp_input.c\<close>, on top of
    the queue and the report. Shown: one segment, and a run of segments in any order: the reader sees a prefix of the stream, all of it
    once everything has arrived, and what is reported was received.

  \<^bold>\<open>Interfaces.\<close> Four locales state what clients rely on, each interpreted on the definitions of the code:
  \<open>descriptor_table\<close> (a table of descriptors; \<open>ud_fds\<close>), \<open>bounded_fifo\<close> (a bounded queue; \<open>ring_fifo\<close>),
  \<open>batch_selector\<close> (which contexts a batch routine frees; \<open>release_sel\<close>, \<open>injected_sel\<close>, \<open>drop_sel\<close>) and
  \<open>ranked_order\<close> (comparisons that agree with a rank; \<open>seq\<close>).

  \<^bold>\<open>Bounds and loops.\<close> Machine integers are words of their width wherever they can wrap: indices of the ring, reference
  counts, sequence numbers, windows, flags. Loops are recursive functions that end by their argument, with these
  exceptions. \<^verbatim>\<open>ud_select\<close> scans for ever without a timeout, so its restarts are a \<open>while_option\<close> loop whose value
  \<open>None\<close> means that it does not return, and a theorem says when it does. The loop that drains the ring and the loop over the
  ports of DPDK are partial functions to \<open>option\<close>: draining is shown to return, and the loop over the ports to
  return below 256 ports, where its counter does not wrap. The padding of options takes a bound of 4 turns, enough because it
  pads to a multiple of four.
  The theorems on TCP fix a base and a window of half the number space, which contains everything that
  is compared; they hold for every base.

  \<^bold>\<open>Not modelled.\<close>
  The rest of the imported FreeBSD kernel (IP, the socket layer, UMA, timers, syncache, congestion control), of which the
  models take what they use as parameters. Of \<^verbatim>\<open>tcp_do_segment\<close>: header prediction, timestamps, RST, SYN, ACK and urgent
  processing, which leave the state of the modelled part alone on an established connection. \<^verbatim>\<open>tcp_sack_partialack\<close>.
  \<^verbatim>\<open>inet_pton6\<close> and \<^verbatim>\<open>inet_ntop6\<close>. The netmap, pcap, bridge and span drivers, whose cases in \<^verbatim>\<open>uinet_ifcreate\<close> are
  compiled out. The kernel environment (\<^verbatim>\<open>uinet_kern_*.c\<close>, \<^verbatim>\<open>uinet_host_interface.c\<close>), which wraps the host's threads, clocks
  and memory. DPDK, \<^verbatim>\<open>libev\<close>, \<^verbatim>\<open>libhttp_parser\<close>, \<^verbatim>\<open>libuinetnv\<close> and the demonstration programs: imported
  libraries and applications outside the path of a packet.
\<close>

end
